(* ===== verification/RustStr.thy ===== *)
theory RustStr
  imports Prelude
begin

text \<open>
  The \<open>str\<close> operations of the Rust standard library that the sources call, on
  UTF-8 byte lists.  Whitespace is Unicode \<open>White_Space\<close>, written as the UTF-8
  encodings of its code points: every encoding starts with a lead byte, so a
  match at any byte position of a valid string is a match of a character.
\<close>

section \<open>Characters\<close>

definition byte_of :: "char \<Rightarrow> u8" where
  "byte_of c = of_char c"

definition char_at_byte :: "u8 \<Rightarrow> char" where
  "char_at_byte b = char_of (unat b)"

definition str_bytes :: "string \<Rightarrow> u8 list" where
  "str_bytes s = map byte_of s"

definition in_code :: "nat \<Rightarrow> nat \<Rightarrow> char \<Rightarrow> bool" where
  "in_code lo hi c = (lo \<le> (of_char c :: nat) \<and> (of_char c :: nat) \<le> hi)"

definition is_upper :: "char \<Rightarrow> bool" where "is_upper = in_code 65 90"
definition is_lower :: "char \<Rightarrow> bool" where "is_lower = in_code 97 122"
definition is_digit :: "char \<Rightarrow> bool" where "is_digit = in_code 48 57"

definition is_alnum :: "char \<Rightarrow> bool" where
  "is_alnum c = (is_upper c \<or> is_lower c \<or> is_digit c)"

definition lower_char :: "char \<Rightarrow> char" where
  "lower_char c = (if is_upper c then char_of (of_char c + 32 :: nat) else c)"

definition upper_char :: "char \<Rightarrow> char" where
  "upper_char c = (if is_lower c then char_of (of_char c - 32 :: nat) else c)"

definition to_lower :: "string \<Rightarrow> string" where "to_lower = map lower_char"
definition to_upper :: "string \<Rightarrow> string" where "to_upper = map upper_char"

definition eq_ignore_case :: "string \<Rightarrow> string \<Rightarrow> bool" where
  "eq_ignore_case a b = (to_lower a = to_lower b)"

section \<open>Prefixes, suffixes and splitting\<close>

definition starts_with :: "string \<Rightarrow> string \<Rightarrow> bool" where
  "starts_with pat s = (take (length pat) s = pat)"

definition strip_prefix :: "string \<Rightarrow> string \<Rightarrow> string option" where
  "strip_prefix pat s = (if starts_with pat s then Some (drop (length pat) s) else None)"

definition ends_with :: "string \<Rightarrow> string \<Rightarrow> bool" where
  "ends_with pat s = (length pat \<le> length s \<and> drop (length s - length pat) s = pat)"

definition strip_suffix :: "string \<Rightarrow> string \<Rightarrow> string option" where
  "strip_suffix pat s = (if ends_with pat s then Some (take (length s - length pat) s) else None)"

fun split_on :: "char \<Rightarrow> string \<Rightarrow> string list" where
  "split_on c [] = [[]]"
| "split_on c (x # xs) =
     (if x = c then [] # split_on c xs
      else (case split_on c xs of [] \<Rightarrow> [[x]] | w # ws \<Rightarrow> (x # w) # ws))"

fun split_once :: "char \<Rightarrow> string \<Rightarrow> (string \<times> string) option" where
  "split_once c [] = None"
| "split_once c (x # xs) =
     (if x = c then Some ([], xs)
      else (case split_once c xs of None \<Rightarrow> None | Some (a, b) \<Rightarrow> Some (x # a, b)))"

fun join :: "string \<Rightarrow> string list \<Rightarrow> string" where
  "join sep [] = []"
| "join sep [w] = w"
| "join sep (w # v # ws) = w @ sep @ join sep (v # ws)"

definition trim_start_matches :: "char \<Rightarrow> string \<Rightarrow> string" where
  "trim_start_matches c s = dropWhile (\<lambda>x. x = c) s"

definition trim_end_matches :: "char \<Rightarrow> string \<Rightarrow> string" where
  "trim_end_matches c s = rev (dropWhile (\<lambda>x. x = c) (rev s))"

definition trim_matches :: "char \<Rightarrow> string \<Rightarrow> string" where
  "trim_matches c s = trim_end_matches c (trim_start_matches c s)"

definition newline :: char where "newline = char_of (10 :: nat)"
definition carriage :: char where "carriage = char_of (13 :: nat)"

text \<open>\<open>str::lines\<close>: a line loses its line feed, and a carriage return before it.\<close>

fun lines_aux :: "string list \<Rightarrow> string list" where
  "lines_aux [] = []"
| "lines_aux [w] = (if w = [] then [] else [w])"
| "lines_aux (w # v # ws) =
     (case strip_suffix [carriage] w of None \<Rightarrow> w | Some w' \<Rightarrow> w') # lines_aux (v # ws)"

definition str_lines :: "string \<Rightarrow> string list" where
  "str_lines s = lines_aux (split_on newline s)"

section \<open>Whitespace\<close>

definition is_ws1 :: "nat \<Rightarrow> bool" where
  "is_ws1 a = ((9 \<le> a \<and> a \<le> 13) \<or> a = 32)"

definition is_ws2 :: "nat \<Rightarrow> nat \<Rightarrow> bool" where
  "is_ws2 a b = (a = 0xC2 \<and> (b = 0x85 \<or> b = 0xA0))"

definition is_ws3 :: "nat \<Rightarrow> nat \<Rightarrow> nat \<Rightarrow> bool" where
  "is_ws3 a b c =
     ((a = 0xE1 \<and> b = 0x9A \<and> c = 0x80) \<or>
      (a = 0xE2 \<and> b = 0x80 \<and> ((0x80 \<le> c \<and> c \<le> 0x8A) \<or> c = 0xA8 \<or> c = 0xA9 \<or> c = 0xAF)) \<or>
      (a = 0xE2 \<and> b = 0x81 \<and> c = 0x9F) \<or>
      (a = 0xE3 \<and> b = 0x80 \<and> c = 0x80))"

text \<open>The length of the whitespace character a string starts or ends with, or 0.\<close>

fun ws_len :: "string \<Rightarrow> nat" where
  "ws_len [] = 0"
| "ws_len [a] = (if is_ws1 (of_char a) then 1 else 0)"
| "ws_len [a, b] =
     (if is_ws1 (of_char a) then 1 else if is_ws2 (of_char a) (of_char b) then 2 else 0)"
| "ws_len (a # b # c # r) =
     (if is_ws1 (of_char a) then 1 else if is_ws2 (of_char a) (of_char b) then 2
      else if is_ws3 (of_char a) (of_char b) (of_char c) then 3 else 0)"

fun ws_len_rev :: "string \<Rightarrow> nat" where
  "ws_len_rev [] = 0"
| "ws_len_rev [a] = (if is_ws1 (of_char a) then 1 else 0)"
| "ws_len_rev [b, a] =
     (if is_ws1 (of_char b) then 1 else if is_ws2 (of_char a) (of_char b) then 2 else 0)"
| "ws_len_rev (c # b # a # r) =
     (if is_ws1 (of_char c) then 1 else if is_ws2 (of_char b) (of_char c) then 2
      else if is_ws3 (of_char a) (of_char b) (of_char c) then 3 else 0)"

function trim_rev :: "string \<Rightarrow> string" where
  "trim_rev s = (if s \<noteq> [] \<and> 0 < ws_len_rev s then trim_rev (drop (ws_len_rev s) s) else s)"
  by pat_completeness auto
termination by (relation "measure length") auto

function trim_start :: "string \<Rightarrow> string" where
  "trim_start s = (if s \<noteq> [] \<and> 0 < ws_len s then trim_start (drop (ws_len s) s) else s)"
  by pat_completeness auto
termination by (relation "measure length") auto

declare trim_start.simps [simp del] trim_rev.simps [simp del]

definition trim_end :: "string \<Rightarrow> string" where
  "trim_end s = rev (trim_rev (rev s))"

definition trim :: "string \<Rightarrow> string" where
  "trim s = trim_end (trim_start s)"

function split_ws_aux :: "string \<Rightarrow> string \<Rightarrow> string list" where
  "split_ws_aux cur s =
     (if s = [] then (if cur = [] then [] else [cur])
      else if 0 < ws_len s
      then (if cur = [] then [] else [cur]) @ split_ws_aux [] (drop (ws_len s) s)
      else split_ws_aux (cur @ [hd s]) (tl s))"
  by pat_completeness auto
termination by (relation "measure (\<lambda>(cur, s). length s)") auto

declare split_ws_aux.simps [simp del]

definition split_whitespace :: "string \<Rightarrow> string list" where
  "split_whitespace s = split_ws_aux [] s"

text \<open>\<open>value.split_once(char::is_whitespace)\<close>.\<close>

function split_once_ws :: "string \<Rightarrow> (string \<times> string) option" where
  "split_once_ws s =
     (if s = [] then None
      else if 0 < ws_len s then Some ([], drop (ws_len s) s)
      else (case split_once_ws (tl s) of None \<Rightarrow> None | Some (a, b) \<Rightarrow> Some (hd s # a, b)))"
  by pat_completeness auto
termination by (relation "measure length") auto

declare split_once_ws.simps [simp del]

section \<open>Numbers\<close>

text \<open>\<open>parse::<uN>()\<close>: an optional plus sign, at least one digit, no overflow.\<close>

definition digit_val :: "char \<Rightarrow> nat" where
  "digit_val c = of_char c - 48"

definition parse_dec :: "string \<Rightarrow> nat" where
  "parse_dec s = foldl (\<lambda>n c. 10 * n + digit_val c) 0 s"

definition parse_uint :: "nat \<Rightarrow> string \<Rightarrow> nat option" where
  "parse_uint maxv s =
     (let ds = (case s of c # r \<Rightarrow> if c = CHR ''+'' then r else s | [] \<Rightarrow> s)
      in if ds \<noteq> [] \<and> list_all is_digit ds \<and> parse_dec ds \<le> maxv
         then Some (parse_dec ds) else None)"

definition parse_u8 :: "string \<Rightarrow> u8 option" where
  "parse_u8 s = map_option of_nat (parse_uint 255 s)"

definition parse_u16 :: "string \<Rightarrow> u16 option" where
  "parse_u16 s = map_option of_nat (parse_uint 65535 s)"

end
