(* ===== verification/NetAddr.thy ===== *)
theory NetAddr
  imports RustStr
begin

text \<open>
  \<open>std::net\<close>: the address types and the textual parser of \<open>IpAddr\<close>,
  \<open>Ipv4Addr\<close> and \<open>Ipv6Addr\<close>, which the configuration, rule and rewrite
  parsers call.  An address is kept as its big-endian integer; \<open>octets\<close> are the
  bytes of that integer.
\<close>

datatype ip_addr = IpV4 u32 | IpV6 u128

fun is_ipv4 :: "ip_addr \<Rightarrow> bool" where
  "is_ipv4 (IpV4 _) = True"
| "is_ipv4 (IpV6 _) = False"

definition to_digit :: "nat \<Rightarrow> char \<Rightarrow> nat option" where
  "to_digit radix c =
     (let n = of_char c :: nat;
          d = (if 48 \<le> n \<and> n \<le> 57 then Some (n - 48)
               else if 97 \<le> n \<and> n \<le> 122 then Some (n - 87)
               else if 65 \<le> n \<and> n \<le> 90 then Some (n - 55) else None)
      in case d of None \<Rightarrow> None | Some v \<Rightarrow> if v < radix then Some v else None)"

fun read_digits :: "nat \<Rightarrow> nat \<Rightarrow> nat \<Rightarrow> nat \<Rightarrow> string \<Rightarrow> (nat \<times> nat \<times> string) option" where
  "read_digits radix m n acc [] = Some (n, acc, [])"
| "read_digits radix m n acc (c # r) =
     (case to_digit radix c of
        None \<Rightarrow> Some (n, acc, c # r)
      | Some d \<Rightarrow> if m < n + 1 then None else read_digits radix m (n + 1) (acc * radix + d) r)"

definition read_number :: "nat \<Rightarrow> nat \<Rightarrow> bool \<Rightarrow> nat \<Rightarrow> string \<Rightarrow> (nat \<times> string) option" where
  "read_number radix m zero_prefix maxv s =
     (case read_digits radix m 0 0 s of
        None \<Rightarrow> None
      | Some (n, v, r) \<Rightarrow>
          if n = 0 then None
          else if \<not> zero_prefix \<and> starts_with ''0'' s \<and> 1 < n then None
          else if v \<le> maxv then Some (v, r) else None)"

definition read_sep :: "char \<Rightarrow> nat \<Rightarrow> string \<Rightarrow> string option" where
  "read_sep sep i s = (if 0 < i then strip_prefix [sep] s else Some s)"

fun read_v4_octets :: "nat \<Rightarrow> nat \<Rightarrow> string \<Rightarrow> (nat list \<times> string) option" where
  "read_v4_octets 0 i s = Some ([], s)"
| "read_v4_octets (Suc k) i s = do {
     s1 \<leftarrow> read_sep (CHR ''.'') i s;
     (v, s2) \<leftarrow> read_number 10 3 False 255 s1;
     (vs, s3) \<leftarrow> read_v4_octets k (Suc i) s2;
     Some (v # vs, s3) }"

definition read_ipv4 :: "string \<Rightarrow> (u32 \<times> string) option" where
  "read_ipv4 s = map_option (\<lambda>(vs, r). (from_be (map of_nat vs), r)) (read_v4_octets 4 0 s)"

text \<open>
  \<open>read_groups\<close>: hexadecimal groups, or a trailing dotted IPv4 address.  The first
  argument is the number of slots left, the second the index of the next one.
\<close>

fun read_groups :: "nat \<Rightarrow> nat \<Rightarrow> nat list \<Rightarrow> string \<Rightarrow> nat list \<times> bool \<times> string" where
  "read_groups 0 i gs s = (gs, False, s)"
| "read_groups (Suc k) i gs s =
     (case (if 0 < k then Option.bind (read_sep (CHR '':'') i s) read_ipv4 else None) of
        Some (v, r) \<Rightarrow> (gs @ [unat (drop_bit 16 v), unat (take_bit 16 v)], True, r)
      | None \<Rightarrow>
          (case Option.bind (read_sep (CHR '':'') i s) (read_number 16 4 True 65535) of
             Some (g, r) \<Rightarrow> read_groups k (Suc i) (gs @ [g]) r
           | None \<Rightarrow> (gs, False, s)))"

definition v6_of_groups :: "nat list \<Rightarrow> u128" where
  "v6_of_groups gs = foldl (\<lambda>acc g. acc * 65536 + of_nat g) 0 gs"

definition read_ipv6 :: "string \<Rightarrow> (u128 \<times> string) option" where
  "read_ipv6 s =
     (case read_groups 8 0 [] s of (head, head_v4, r) \<Rightarrow>
        if length head = 8 then Some (v6_of_groups head, r)
        else if head_v4 then None
        else (case strip_prefix ''::'' r of
            None \<Rightarrow> None
          | Some r1 \<Rightarrow>
              (case read_groups (8 - (length head + 1)) 0 [] r1 of (tail, _, r2) \<Rightarrow>
                 Some (v6_of_groups
                   (head @ replicate (8 - length head - length tail) 0 @ tail), r2))))"

definition at_end :: "('a \<times> string) option \<Rightarrow> 'a option" where
  "at_end r = (case r of Some (a, []) \<Rightarrow> Some a | _ \<Rightarrow> None)"

definition parse_ipv4 :: "string \<Rightarrow> u32 option" where
  "parse_ipv4 s = (if 15 < length s then None else at_end (read_ipv4 s))"

definition parse_ipv6 :: "string \<Rightarrow> u128 option" where
  "parse_ipv6 s = at_end (read_ipv6 s)"

definition parse_ip :: "string \<Rightarrow> ip_addr option" where
  "parse_ip s =
     (case read_ipv4 s of
        Some (v, r) \<Rightarrow> if r = [] then Some (IpV4 v) else None
      | None \<Rightarrow> map_option IpV6 (at_end (read_ipv6 s)))"

end
