(* ===== verification/IpNetwork.thy ===== *)
theory IpNetwork
  imports NetAddr
begin

text \<open>
  \<open>dns/ip_network.rs\<close>: CIDR networks.  The record is the struct \<open>IpNetwork\<close>;
  \<open>ip_parts\<close> and \<open>prefix_network\<close> are the helpers of the same names.  The
  locale \<open>nested_networks\<close> is what the clients (client policies and upstream
  routes) rely on when they select by longest prefix: two networks that share an
  address are nested.
\<close>

datatype ip_family = FamV4 | FamV6

record ip_network =
  family :: ip_family
  network :: u128
  prefix_len :: u8

datatype network_error =
    NetBadIp string string
  | NetBadPrefix string string
  | NetBadPrefixLen string string

fun ip_parts :: "ip_addr \<Rightarrow> ip_family \<times> u8 \<times> u128" where
  "ip_parts (IpV4 ip) = (FamV4, 32, ucast ip)"
| "ip_parts (IpV6 ip) = (FamV6, 128, ip)"

definition prefix_network :: "u128 \<Rightarrow> u8 \<Rightarrow> u8 \<Rightarrow> u128" where
  "prefix_network value bits plen =
     (if plen = 0 then 0
      else (let shift = unat (bits - plen) in push_bit shift (drop_bit shift value)))"

definition parse_network :: "string \<Rightarrow> string \<Rightarrow> network_error + ip_network" where
  "parse_network value label =
     (case (case split_once (CHR ''/'') value of
              Some (ip, plen) \<Rightarrow>
                (case parse_ip ip of
                   None \<Rightarrow> Inl (NetBadIp label ip)
                 | Some a \<Rightarrow>
                     (case parse_u8 plen of
                        None \<Rightarrow> Inl (NetBadPrefix label plen)
                      | Some p \<Rightarrow> Inr (a, p)))
            | None \<Rightarrow>
                (case parse_ip value of
                   None \<Rightarrow> Inl (NetBadIp label value)
                 | Some a \<Rightarrow> Inr (a, if is_ipv4 a then 32 else 128))) of
        Inl e \<Rightarrow> Inl e
      | Inr (ip, plen) \<Rightarrow>
          (case ip_parts ip of (fam, bits, raw) \<Rightarrow>
             if bits < plen then Inl (NetBadPrefixLen label value)
             else Inr \<lparr>family = fam, network = prefix_network raw bits plen, prefix_len = plen\<rparr>))"

definition network_contains :: "ip_network \<Rightarrow> ip_addr \<Rightarrow> bool" where
  "network_contains n ip =
     (case ip_parts ip of (fam, bits, raw) \<Rightarrow>
        fam = family n \<and> prefix_network raw bits (prefix_len n) = network n)"

section \<open>The bit-level meaning of a prefix\<close>

definition family_bits :: "ip_family \<Rightarrow> nat" where
  "family_bits f = (case f of FamV4 \<Rightarrow> 32 | FamV6 \<Rightarrow> 128)"

definition addr_bits :: "ip_addr \<Rightarrow> u128" where
  "addr_bits ip = snd (snd (ip_parts ip))"

definition addr_family :: "ip_addr \<Rightarrow> ip_family" where
  "addr_family ip = fst (ip_parts ip)"

text \<open>Two values agree on the leading \<open>p\<close> of \<open>bits\<close> bits.\<close>

definition same_prefix :: "nat \<Rightarrow> nat \<Rightarrow> u128 \<Rightarrow> u128 \<Rightarrow> bool" where
  "same_prefix bits p a b = (\<forall>i\<in>{bits - p..<bits}. bit a i = bit b i)"

definition wf_network :: "ip_network \<Rightarrow> bool" where
  "wf_network n =
     (unat (prefix_len n) \<le> family_bits (family n) \<and>
      (\<forall>i<128. bit (network n) i \<longrightarrow>
         family_bits (family n) - unat (prefix_len n) \<le> i \<and> i < family_bits (family n)))"

lemma ip_parts_eq: "ip_parts ip = (addr_family ip, of_nat (family_bits (addr_family ip)), addr_bits ip)"
  by (cases ip) (simp_all add: addr_family_def addr_bits_def family_bits_def)

lemma addr_bits_high: "bit (addr_bits ip) i \<Longrightarrow> i < family_bits (addr_family ip)"
  by (cases ip)
    (auto simp: addr_bits_def addr_family_def family_bits_def bit_simps dest: bit_imp_le_length)

lemma unat_bits_minus:
  "p \<le> of_nat (family_bits f) \<Longrightarrow>
    unat ((of_nat (family_bits f) :: u8) - p) = family_bits f - unat p"
  by (cases f) (simp_all add: family_bits_def unat_sub word_le_nat_alt)

lemma plen_le_iff: "p \<le> (of_nat (family_bits f) :: u8) \<longleftrightarrow> unat p \<le> family_bits f"
  by (cases f) (simp_all add: family_bits_def word_le_nat_alt)

lemma bit_prefix_network:
  assumes "unat p \<le> family_bits f" and "\<And>i. bit v i \<Longrightarrow> i < family_bits f"
  shows "bit (prefix_network v (of_nat (family_bits f)) p) i \<longleftrightarrow>
    family_bits f - unat p \<le> i \<and> bit v i"
proof (cases "p = 0")
  case True
  then show ?thesis using assms(2)[of i] by (auto simp: prefix_network_def)
next
  case False
  have sh: "unat ((of_nat (family_bits f) :: u8) - p) = family_bits f - unat p"
    using assms(1) by (simp add: unat_bits_minus plen_le_iff)
  show ?thesis
    using False by (auto simp: prefix_network_def Let_def sh bit_simps dest: bit_imp_le_length)
qed

lemma contains_iff_bits:
  assumes "unat (prefix_len n) \<le> family_bits (family n)"
  shows "network_contains n ip \<longleftrightarrow>
    addr_family ip = family n \<and>
    (\<forall>i. bit (network n) i \<longleftrightarrow> family_bits (family n) - unat (prefix_len n) \<le> i \<and> bit (addr_bits ip) i)"
proof (cases "addr_family ip = family n")
  case True
  let ?pn = "prefix_network (addr_bits ip) (of_nat (family_bits (family n))) (prefix_len n)"
  have "bit ?pn i \<longleftrightarrow>
      family_bits (family n) - unat (prefix_len n) \<le> i \<and> bit (addr_bits ip) i" for i
    using assms addr_bits_high[of ip] by (intro bit_prefix_network) (simp_all add: True)
  moreover have "network_contains n ip \<longleftrightarrow> (\<forall>i. bit (network n) i \<longleftrightarrow> bit ?pn i)"
    by (auto simp: network_contains_def ip_parts_eq True intro: bit_eqI)
  ultimately show ?thesis
    using True by simp
next
  case False
  then show ?thesis by (simp add: network_contains_def ip_parts_eq)
qed

lemma parse_network_wf: "parse_network s l = Inr n \<Longrightarrow> wf_network n"
proof -
  assume "parse_network s l = Inr n"
  then obtain ip plen where plen: "plen \<le> of_nat (family_bits (addr_family ip))"
    and n: "n = \<lparr>family = addr_family ip,
      network = prefix_network (addr_bits ip) (of_nat (family_bits (addr_family ip))) plen,
      prefix_len = plen\<rparr>"
    by (auto simp: parse_network_def ip_parts_eq not_less
        split: option.splits prod.splits sum.splits if_splits)
  have le: "unat plen \<le> family_bits (addr_family ip)"
    using plen by (simp add: plen_le_iff)
  have "bit (network n) i \<longleftrightarrow>
      family_bits (addr_family ip) - unat plen \<le> i \<and> bit (addr_bits ip) i" for i
    using le addr_bits_high by (simp add: n bit_prefix_network)
  then show "wf_network n"
    using le addr_bits_high by (auto simp: wf_network_def n)
qed

section \<open>Nested networks\<close>

locale nested_networks =
  fixes wf :: "'n \<Rightarrow> bool"
    and contains :: "'n \<Rightarrow> 'ip \<Rightarrow> bool"
    and plen :: "'n \<Rightarrow> nat"
  assumes nested: "wf m \<Longrightarrow> wf n \<Longrightarrow> contains m ip \<Longrightarrow> contains n ip \<Longrightarrow> plen m \<le> plen n \<Longrightarrow>
    contains n ip' \<Longrightarrow> contains m ip'"
begin

lemma equal_length_same:
  assumes "wf m" and "wf n" and "contains m ip" and "contains n ip" and "plen m = plen n"
  shows "contains m ip' \<longleftrightarrow> contains n ip'"
  using nested[OF assms(1,2,3,4)] nested[OF assms(2,1,4,3)] assms(5) by auto

end

lemma contains_nested:
  assumes "wf_network m" and "wf_network n" and "network_contains m ip" and "network_contains n ip"
    and "prefix_len m \<le> prefix_len n" and "network_contains n ip'"
  shows "network_contains m ip'"
proof -
  have fam: "family m = family n" "addr_family ip' = family n"
    and lm: "unat (prefix_len m) \<le> family_bits (family m)"
    and ln: "unat (prefix_len n) \<le> family_bits (family n)"
    using assms by (auto simp: contains_iff_bits wf_network_def)
  have le: "family_bits (family n) - unat (prefix_len n) \<le> family_bits (family n) - unat (prefix_len m)"
    using assms(5) by (simp add: word_le_nat_alt)
  have m: "bit (network m) i \<longleftrightarrow>
      family_bits (family n) - unat (prefix_len m) \<le> i \<and> bit (addr_bits ip) i" for i
    using contains_iff_bits[OF lm, of ip] assms(3) by (simp add: fam)
  have n: "bit (network n) i \<longleftrightarrow>
      family_bits (family n) - unat (prefix_len n) \<le> i \<and> bit (addr_bits ip) i" for i
    using contains_iff_bits[OF ln, of ip] assms(4) by simp
  have n': "bit (network n) i \<longleftrightarrow>
      family_bits (family n) - unat (prefix_len n) \<le> i \<and> bit (addr_bits ip') i" for i
    using contains_iff_bits[OF ln, of ip'] assms(6) by simp
  have "bit (network m) i \<longleftrightarrow>
      family_bits (family n) - unat (prefix_len m) \<le> i \<and> bit (addr_bits ip') i" for i
    using m[of i] n[of i] n'[of i] le by (meson order_trans)
  then show ?thesis
    using contains_iff_bits[OF lm, of ip'] by (simp add: fam)
qed

interpretation cidr: nested_networks wf_network network_contains "\<lambda>n. unat (prefix_len n)"
  by unfold_locales (rule contains_nested, auto simp: word_le_nat_alt)

section \<open>Properties\<close>

text \<open>A parsed network contains exactly the addresses of its family that agree with it on the
  leading \<open>prefix_len\<close> bits; host bits in the text do not matter, and no prefix is longer than
  an address of the family.\<close>

theorem parsed_network_contains:
  assumes "parse_network value label = Inr n"
  shows "unat (prefix_len n) \<le> family_bits (family n) \<and>
    (network_contains n ip \<longleftrightarrow> addr_family ip = family n \<and>
       same_prefix (family_bits (family n)) (unat (prefix_len n)) (network n) (addr_bits ip))"
proof -
  have wf: "unat (prefix_len n) \<le> family_bits (family n)"
    "\<And>i. i < 128 \<Longrightarrow> bit (network n) i \<Longrightarrow>
      family_bits (family n) - unat (prefix_len n) \<le> i \<and> i < family_bits (family n)"
    using parse_network_wf[OF assms] by (simp_all add: wf_network_def)
  have hi: "i < 128" if "bit (network n) i" for i using bit_imp_le_length[OF that] by simp
  have "(\<forall>i. bit (network n) i \<longleftrightarrow> family_bits (family n) - unat (prefix_len n) \<le> i \<and> bit (addr_bits ip) i)
      \<longleftrightarrow> same_prefix (family_bits (family n)) (unat (prefix_len n)) (network n) (addr_bits ip)"
    (is "?L = ?R") if f: "addr_family ip = family n"
  proof
    assume ?R
    show ?L
    proof
      fix i
      consider "i < family_bits (family n) - unat (prefix_len n)" | "family_bits (family n) \<le> i"
        | "i \<in> {family_bits (family n) - unat (prefix_len n)..<family_bits (family n)}"
        by fastforce
      then show "bit (network n) i \<longleftrightarrow>
          family_bits (family n) - unat (prefix_len n) \<le> i \<and> bit (addr_bits ip) i"
      proof cases
        case 1
        then show ?thesis using wf(2)[OF hi] by force
      next
        case 2
        then show ?thesis using wf(2)[OF hi, of i] addr_bits_high[of ip i] f by auto
      next
        case 3
        then show ?thesis using \<open>?R\<close> by (simp add: same_prefix_def)
      qed
    qed
  qed (simp add: same_prefix_def)
  then show ?thesis using wf(1) contains_iff_bits[OF wf(1), of ip] by blast
qed

theorem parsed_network_contains_witness:
  "\<exists>n. parse_network ''10.1.9.9/16'' ''net'' = Inr n \<and> unat (prefix_len n) \<le> 32 \<and>
    (network_contains n (IpV4 0x0A010203) \<longleftrightarrow>
       same_prefix 32 16 (network n) (addr_bits (IpV4 0x0A010203)))"
proof -
  have "split_once (CHR ''/'') ''10.1.9.9/16'' = Some (''10.1.9.9'', ''16'')"
    "parse_ip ''10.1.9.9'' = Some (IpV4 0x0A010909)" "parse_u8 ''16'' = Some 16"
    by code_simp+
  then obtain v where n: "parse_network ''10.1.9.9/16'' ''net'' =
      Inr \<lparr>family = FamV4, network = v, prefix_len = 16\<rparr>"
    by (simp add: parse_network_def)
  show ?thesis
    using parsed_network_contains[OF n, of "IpV4 0x0A010203"] n
    by (simp add: family_bits_def addr_family_def)
qed

end
