(* ===== verification/Access.thy ===== *)
theory Access
  imports IpNetwork "HOL-Library.AList"
begin

text \<open>
  \<open>dns/access.rs\<close>: who may query.  The lists of blocked and allowed clients
  (\<open>ClientMatcher\<close>, with its own copy of the prefix arithmetic) and the token
  buckets of the rate limiter, one per client.  A denial carries a reason instead
  of the message text.  The limiter is only used under its mutex, so an operation
  is one step.  The table of clients is an association list: the sources look
  clients up, insert, update, count and filter them.
\<close>

section \<open>Client lists\<close>

record ip_prefix =
  px_family :: ip_family
  px_network :: u128
  px_len :: u8

definition access_prefix_network :: "u128 \<Rightarrow> u8 \<Rightarrow> u8 \<Rightarrow> u128" where
  "access_prefix_network value bits plen =
     (if plen = 0 then 0
      else (let shift = unat (sat_sub bits plen) in push_bit shift (drop_bit shift value)))"

definition ip_prefix_new :: "ip_addr \<Rightarrow> u8 \<Rightarrow> ip_prefix option" where
  "ip_prefix_new ip plen =
     (case ip_parts ip of (fam, bits, value) \<Rightarrow>
        if bits < plen then None
        else Some \<lparr>px_family = fam, px_network = access_prefix_network value bits plen, px_len = plen\<rparr>)"

definition ip_prefix_parse :: "string \<Rightarrow> ip_prefix option" where
  "ip_prefix_parse value = do {
     (ip, plen) \<leftarrow> split_once (CHR ''/'') value;
     a \<leftarrow> parse_ip ip;
     p \<leftarrow> parse_u8 plen;
     ip_prefix_new a p }"

definition ip_prefix_contains :: "ip_prefix \<Rightarrow> ip_addr \<Rightarrow> bool" where
  "ip_prefix_contains px ip =
     (case ip_parts ip of (fam, bits, value) \<Rightarrow>
        fam = px_family px \<and> access_prefix_network value bits (px_len px) = px_network px)"

record client_matcher =
  cm_exact :: "ip_addr set"
  cm_prefixes :: "ip_prefix list"

definition empty_matcher :: client_matcher where
  "empty_matcher = \<lparr>cm_exact = {}, cm_prefixes = []\<rparr>"

text \<open>\<open>Inl\<close> is the number of the line that is neither an address nor a network.\<close>

fun matcher_lines :: "nat \<Rightarrow> client_matcher \<Rightarrow> string list \<Rightarrow> nat + client_matcher" where
  "matcher_lines i m [] = Inr m"
| "matcher_lines i m (line # lines) =
     (let item = trim (case split_whitespace line of [] \<Rightarrow> [] | w # _ \<Rightarrow> w)
      in if item = [] \<or> starts_with ''#'' item \<or> starts_with ''!'' item
         then matcher_lines (i + 1) m lines
         else (case parse_ip item of
             Some ip \<Rightarrow> matcher_lines (i + 1) (m\<lparr>cm_exact := insert ip (cm_exact m)\<rparr>) lines
           | None \<Rightarrow>
               (case ip_prefix_parse item of
                  None \<Rightarrow> Inl (i + 1)
                | Some px \<Rightarrow>
                    matcher_lines (i + 1) (m\<lparr>cm_prefixes := cm_prefixes m @ [px]\<rparr>) lines)))"

definition matcher_parse :: "string \<Rightarrow> nat + client_matcher" where
  "matcher_parse value = matcher_lines 0 empty_matcher (str_lines value)"

definition matcher_has_rules :: "client_matcher \<Rightarrow> bool" where
  "matcher_has_rules m = (cm_exact m \<noteq> {} \<or> cm_prefixes m \<noteq> [])"

definition matcher_matches :: "client_matcher \<Rightarrow> ip_addr \<Rightarrow> bool" where
  "matcher_matches m ip = (ip \<in> cm_exact m \<or> list_ex (\<lambda>px. ip_prefix_contains px ip) (cm_prefixes m))"

section \<open>The rate limiter\<close>

definition RATE_LIMITER_CLIENT_TTL_SECONDS :: u64 where "RATE_LIMITER_CLIENT_TTL_SECONDS = 120"
definition RATE_LIMITER_PRUNE_INTERVAL_SECONDS :: u64 where "RATE_LIMITER_PRUNE_INTERVAL_SECONDS = 60"
definition RATE_LIMITER_MAX_CLIENTS :: nat where "RATE_LIMITER_MAX_CLIENTS = 4096"
definition RATE_LIMITER_BURST_SECONDS :: u64 where "RATE_LIMITER_BURST_SECONDS = 10"

record rate_bucket =
  rb_tokens :: u64
  rb_last_refill :: u64
  rb_last_seen :: u64

record rate_limiter =
  rl_limit :: u32
  rl_clients :: "(ip_addr \<times> rate_bucket) list"
  rl_last_prune_at :: u64

definition rate_limiter_new :: "u32 \<Rightarrow> rate_limiter" where
  "rate_limiter_new limit = \<lparr>rl_limit = limit, rl_clients = [], rl_last_prune_at = 0\<rparr>"

definition prune :: "rate_limiter \<Rightarrow> u64 \<Rightarrow> rate_limiter" where
  "prune l now =
     (let oldest = sat_sub now RATE_LIMITER_CLIENT_TTL_SECONDS
      in l\<lparr>rl_clients := filter (\<lambda>x. oldest \<le> rb_last_seen (snd x)) (rl_clients l),
           rl_last_prune_at := now\<rparr>)"

definition capacity :: "u32 \<Rightarrow> u64" where
  "capacity limit = sat_mul (ucast limit) RATE_LIMITER_BURST_SECONDS"

definition refill :: "u32 \<Rightarrow> rate_bucket \<Rightarrow> u64 \<Rightarrow> rate_bucket" where
  "refill limit b now =
     (let b1 = (if now < rb_last_refill b
                then b\<lparr>rb_tokens := capacity limit, rb_last_refill := now\<rparr>
                else (let elapsed = sat_sub now (rb_last_refill b)
                      in if 0 < elapsed
                         then b\<lparr>rb_tokens := min (sat_add (rb_tokens b) (sat_mul elapsed (ucast limit)))
                                  (capacity limit),
                                rb_last_refill := now\<rparr>
                         else b))
      in b1\<lparr>rb_last_seen := now\<rparr>)"

definition rate_allow :: "rate_limiter \<Rightarrow> ip_addr \<Rightarrow> u64 \<Rightarrow> rate_limiter \<times> bool" where
  "rate_allow l0 ip now =
     (let l = (if RATE_LIMITER_PRUNE_INTERVAL_SECONDS \<le> sat_sub now (rl_last_prune_at l0)
               then prune l0 now else l0)
      in if map_of (rl_clients l) ip = None \<and> RATE_LIMITER_MAX_CLIENTS \<le> length (rl_clients l)
         then (l, False)
         else (let b0 = (case map_of (rl_clients l) ip of
                           Some b \<Rightarrow> b
                         | None \<Rightarrow> \<lparr>rb_tokens = capacity (rl_limit l), rb_last_refill = now,
                                     rb_last_seen = now\<rparr>);
                   b = refill (rl_limit l) b0 now
               in if rb_tokens b = 0
                  then (l\<lparr>rl_clients := AList.update ip b (rl_clients l)\<rparr>, False)
                  else (l\<lparr>rl_clients := AList.update ip (b\<lparr>rb_tokens := rb_tokens b - 1\<rparr>)
                           (rl_clients l)\<rparr>, True)))"

section \<open>The decision\<close>

datatype deny_reason = InBlockedList | NotInAllowedList

datatype access_decision = AllowClient | DenyClient deny_reason | RateLimited

record client_access =
  ca_allowed :: client_matcher
  ca_blocked :: client_matcher
  ca_rate_limiter :: "rate_limiter option"

text \<open>The three fields of \<open>AppConfig\<close> it reads; the error names the list and the line.\<close>

definition access_from_config :: "string \<Rightarrow> string \<Rightarrow> u32 \<Rightarrow> (bool \<times> nat) + client_access" where
  "access_from_config allowed blocked limit =
     (case matcher_parse allowed of
        Inl i \<Rightarrow> Inl (True, i)
      | Inr a \<Rightarrow>
          (case matcher_parse blocked of
             Inl i \<Rightarrow> Inl (False, i)
           | Inr b \<Rightarrow> Inr \<lparr>ca_allowed = a, ca_blocked = b,
                           ca_rate_limiter = (if 0 < limit then Some (rate_limiter_new limit) else None)\<rparr>))"

definition access_check :: "client_access \<Rightarrow> ip_addr \<Rightarrow> u64 \<Rightarrow> client_access \<times> access_decision" where
  "access_check a ip now =
     (if matcher_matches (ca_blocked a) ip then (a, DenyClient InBlockedList)
      else if matcher_has_rules (ca_allowed a) \<and> \<not> matcher_matches (ca_allowed a) ip
      then (a, DenyClient NotInAllowedList)
      else (case ca_rate_limiter a of
          None \<Rightarrow> (a, AllowClient)
        | Some l \<Rightarrow>
            (case rate_allow l ip now of
               (l', ok) \<Rightarrow> (a\<lparr>ca_rate_limiter := Some l'\<rparr>, if ok then AllowClient else RateLimited))))"

section \<open>The tokens a client has\<close>
























section \<open>Sequences of requests\<close>

text \<open>The decisions for a list of requests, each a client and the second of its arrival.\<close>

fun check_all :: "client_access \<Rightarrow> (ip_addr \<times> u64) list \<Rightarrow> client_access \<times> access_decision list" where
  "check_all a [] = (a, [])"
| "check_all a ((ip, now) # rs) =
     (case access_check a ip now of
        (a', d) \<Rightarrow> (case check_all a' rs of (a'', ds) \<Rightarrow> (a'', d # ds)))"










section \<open>Where the buckets come from\<close>




lemma access_check_lists:
  "access_check a ip now = (a', d) \<Longrightarrow> ca_allowed a' = ca_allowed a \<and> ca_blocked a' = ca_blocked a"
  by (auto simp: access_check_def split: if_splits option.splits prod.splits)

lemma check_all_lists:
  "check_all a rs = (a', ds) \<Longrightarrow> ca_allowed a' = ca_allowed a \<and> ca_blocked a' = ca_blocked a"
proof (induction a rs arbitrary: ds rule: check_all.induct)
  case (2 a ip now rs)
  obtain a1 d where c: "access_check a ip now = (a1, d)" by (cases "access_check a ip now")
  obtain ds' where "check_all a1 rs = (a', ds')" using 2(2) c by (auto split: prod.splits)
  then show ?case using 2(1)[OF c[symmetric]] access_check_lists[OF c] by simp
qed simp




section \<open>The lists as text\<close>

definition line_item :: "string \<Rightarrow> string" where
  "line_item line = trim (case split_whitespace line of [] \<Rightarrow> [] | w # _ \<Rightarrow> w)"

definition is_list_comment :: "string \<Rightarrow> bool" where
  "is_list_comment item = (item = [] \<or> starts_with ''#'' item \<or> starts_with ''!'' item)"

text \<open>The addresses an entry stands for: an address for itself, a network for what it contains,
  in the sense of \<open>dns/ip_network.rs\<close>.\<close>

definition item_lists :: "string \<Rightarrow> ip_addr \<Rightarrow> bool" where
  "item_lists item ip =
     (case parse_ip item of
        Some a \<Rightarrow> ip = a
      | None \<Rightarrow> (case parse_network item [] of Inl _ \<Rightarrow> False | Inr n \<Rightarrow> network_contains n ip))"

definition list_entries :: "string list \<Rightarrow> string list" where
  "list_entries lines = filter (\<lambda>i. \<not> is_list_comment i) (map line_item lines)"

lemma access_prefix_network_eq:
  "plen \<le> bits \<Longrightarrow> access_prefix_network v bits plen = prefix_network v bits plen"
  by (simp add: access_prefix_network_def prefix_network_def sat_sub_def)

lemma ip_prefix_parse_network:
  assumes "parse_ip item = None"
  shows "item_lists item ip \<longleftrightarrow>
    (case ip_prefix_parse item of None \<Rightarrow> False | Some px \<Rightarrow> ip_prefix_contains px ip)"
proof (cases "split_once (CHR ''/'') item")
  case None
  then show ?thesis using assms by (simp add: item_lists_def parse_network_def ip_prefix_parse_def)
next
  case (Some tp)
  obtain t p where tp: "tp = (t, p)" by (cases tp)
  show ?thesis
  proof (cases "parse_ip t")
    case None
    then show ?thesis using assms Some tp
      by (simp add: item_lists_def parse_network_def ip_prefix_parse_def)
  next
    case a: (Some a)
    obtain fam bits raw where parts: "ip_parts a = (fam, bits, raw)" by (cases "ip_parts a")
    show ?thesis
    proof (cases "parse_u8 p")
      case None
      then show ?thesis using assms Some tp a
        by (simp add: item_lists_def parse_network_def ip_prefix_parse_def)
    next
      case p: (Some plen)
      show ?thesis
      proof (cases "bits < plen")
        case True
        then show ?thesis using assms Some tp a p parts
          by (simp add: item_lists_def parse_network_def ip_prefix_parse_def ip_prefix_new_def)
      next
        case False
        then have le: "plen \<le> bits" by simp
        obtain fam' bits' raw' where parts': "ip_parts ip = (fam', bits', raw')" by (cases "ip_parts ip")
        have "bits' = bits" if "fam' = fam"
          using that parts parts' by (cases a; cases ip) auto
        then show ?thesis using assms Some tp a p parts parts' le
          by (auto simp: item_lists_def parse_network_def ip_prefix_parse_def ip_prefix_new_def
              access_prefix_network_eq network_contains_def ip_prefix_contains_def)
      qed
    qed
  qed
qed

lemma matcher_lines_spec:
  "matcher_lines i m lines = Inr m' \<Longrightarrow>
    (matcher_matches m' ip \<longleftrightarrow> matcher_matches m ip \<or> (\<exists>item\<in>set (list_entries lines). item_lists item ip)) \<and>
    (matcher_has_rules m' \<longleftrightarrow> matcher_has_rules m \<or> list_entries lines \<noteq> [])"
proof (induction lines arbitrary: i m)
  case Nil
  then show ?case by (simp add: list_entries_def)
next
  case (Cons line lines)
  have eq: "list_entries (line # lines) =
      (if is_list_comment (line_item line) then list_entries lines
       else line_item line # list_entries lines)" by (simp add: list_entries_def)
  show ?case
  proof (cases "is_list_comment (line_item line)")
    case True
    then show ?thesis using Cons.IH[of "i + 1" m] Cons.prems eq
      by (simp add: line_item_def is_list_comment_def Let_def)
  next
    case nc: False
    show ?thesis
    proof (cases "parse_ip (line_item line)")
      case (Some a)
      let ?m = "m\<lparr>cm_exact := insert a (cm_exact m)\<rparr>"
      have "matcher_lines (i + 1) ?m lines = Inr m'"
        using Cons.prems nc Some by (simp add: line_item_def is_list_comment_def Let_def)
      moreover have "matcher_matches ?m ip \<longleftrightarrow> matcher_matches m ip \<or> item_lists (line_item line) ip"
        using Some by (auto simp: matcher_matches_def item_lists_def)
      moreover have "matcher_has_rules ?m" by (simp add: matcher_has_rules_def)
      ultimately show ?thesis using Cons.IH[of "i + 1" ?m] nc eq by auto
    next
      case None
      obtain px where px: "ip_prefix_parse (line_item line) = Some px"
        and rest: "matcher_lines (i + 1) (m\<lparr>cm_prefixes := cm_prefixes m @ [px]\<rparr>) lines = Inr m'"
        using Cons.prems nc None
        by (auto simp: line_item_def is_list_comment_def Let_def split: option.splits)
      let ?m = "m\<lparr>cm_prefixes := cm_prefixes m @ [px]\<rparr>"
      have "matcher_matches ?m ip \<longleftrightarrow> matcher_matches m ip \<or> item_lists (line_item line) ip"
        using ip_prefix_parse_network[OF None, of ip] px by (auto simp: matcher_matches_def)
      moreover have "matcher_has_rules ?m" by (simp add: matcher_has_rules_def)
      ultimately show ?thesis using Cons.IH[OF rest] nc eq by auto
    qed
  qed
qed

lemma matcher_parse_spec:
  assumes "matcher_parse text = Inr m"
  shows "matcher_matches m ip \<longleftrightarrow> (\<exists>item\<in>set (list_entries (str_lines text)). item_lists item ip)"
    and "matcher_has_rules m \<longleftrightarrow> list_entries (str_lines text) \<noteq> []"
  using matcher_lines_spec[OF assms[unfolded matcher_parse_def], of ip]
  by (simp_all add: empty_matcher_def matcher_matches_def matcher_has_rules_def)

section \<open>Properties\<close>

text \<open>After any requests, a client is refused by the lists exactly as their text says: it is
  in the blocked list when an entry is its address or a network that contains it, and otherwise
  not in the allowed list when that list has entries and none covers it.\<close>

theorem client_lists_decide:
  assumes "access_from_config allowed blocked limit = Inr a0" and "check_all a0 past = (a, ds)"
  shows "(snd (access_check a ip now) = DenyClient InBlockedList \<longleftrightarrow>
      (\<exists>item\<in>set (list_entries (str_lines blocked)). item_lists item ip)) \<and>
    (snd (access_check a ip now) = DenyClient NotInAllowedList \<longleftrightarrow>
      \<not> (\<exists>item\<in>set (list_entries (str_lines blocked)). item_lists item ip) \<and>
      list_entries (str_lines allowed) \<noteq> [] \<and>
      \<not> (\<exists>item\<in>set (list_entries (str_lines allowed)). item_lists item ip))"
proof -
  obtain ma mb where "matcher_parse allowed = Inr ma" "matcher_parse blocked = Inr mb"
    and m: "ca_allowed a0 = ma" "ca_blocked a0 = mb"
    using assms(1) by (auto simp: access_from_config_def split: sum.splits)
  then have spec: "matcher_matches (ca_blocked a) ip \<longleftrightarrow>
      (\<exists>item\<in>set (list_entries (str_lines blocked)). item_lists item ip)"
    "matcher_matches (ca_allowed a) ip \<longleftrightarrow>
      (\<exists>item\<in>set (list_entries (str_lines allowed)). item_lists item ip)"
    "matcher_has_rules (ca_allowed a) \<longleftrightarrow> list_entries (str_lines allowed) \<noteq> []"
    using matcher_parse_spec check_all_lists[OF assms(2)] by simp_all
  show ?thesis
    unfolding spec[symmetric] by (simp add: access_check_def split: option.split prod.split)
qed

lemma empty_lists: "matcher_parse [] = Inr empty_matcher"
  by code_simp


theorem client_lists_decide_witness:
  "\<exists>a. access_from_config [] ''10.1.2.3'' 5 = Inr a \<and>
     snd (access_check a (IpV4 0x0A010203) 7) = DenyClient InBlockedList"
proof -
  have "matcher_parse ''10.1.2.3'' = Inr (empty_matcher\<lparr>cm_exact := {IpV4 0x0A010203}\<rparr>)"
    "parse_ip ''10.1.2.3'' = Some (IpV4 0x0A010203)"
    "list_entries (str_lines ''10.1.2.3'') = [''10.1.2.3'']"
    by code_simp+
  then obtain a where a: "access_from_config [] ''10.1.2.3'' 5 = Inr a"
    and "\<exists>item\<in>set (list_entries (str_lines ''10.1.2.3'')). item_lists item (IpV4 0x0A010203)"
    by (auto simp: access_from_config_def empty_lists item_lists_def)
  then show ?thesis
    using client_lists_decide[OF a check_all.simps(1), of "IpV4 0x0A010203" 7] by blast
qed





end
