(* ===== verification/DomainName.thy ===== *)
theory DomainName
  imports RustStr
begin

text \<open>
  Domain names as the filter components see them: \<open>normalize_domain\<close> and
  \<open>domain_matches\<close> of \<open>dns/rules.rs\<close>, and the walk from a name to its parent
  names that \<open>DomainSet::contains\<close>, \<open>CompiledRewrites::lookup\<close>,
  \<open>find_layered_match\<close> and \<open>rewrite_match_layers\<close> share.  The locale
  \<open>suffix_table\<close> states once what such a walk computes.
\<close>

section \<open>Parent names\<close>

lemma split_once_append: "c \<notin> set a \<Longrightarrow> split_once c (a @ c # b) = Some (a, b)"
  by (induction a) auto

lemma split_once_SomeD: "split_once c s = Some (a, b) \<Longrightarrow> s = a @ c # b \<and> c \<notin> set a"
  by (induction s arbitrary: a b) (auto split: option.splits if_splits)

lemma split_once_Some:
  "split_once c s = Some (a, b) \<longleftrightarrow> s = a @ c # b \<and> c \<notin> set a"
  using split_once_append split_once_SomeD by metis

lemma split_once_None [str_simps]: "split_once c s = None \<longleftrightarrow> c \<notin> set s"
  by (induction s) (auto split: option.splits)

lemma split_once_length: "split_once c s = Some (a, b) \<Longrightarrow> length b < length s"
  by (simp add: split_once_Some)

function parent_names :: "string \<Rightarrow> string list" where
  "parent_names d =
     (case split_once (CHR ''.'') d of None \<Rightarrow> [] | Some (_, r) \<Rightarrow> r # parent_names r)"
  by pat_completeness auto
termination by (relation "measure length") (auto dest: split_once_length)

declare parent_names.simps [simp del]

text \<open>The loop \<open>while let Some(dot) = domain[offset..].find('.')\<close> with an early return.\<close>

function first_parent :: "(string \<Rightarrow> 'v option) \<Rightarrow> string \<Rightarrow> 'v option" where
  "first_parent look d =
     (case split_once (CHR ''.'') d of
        None \<Rightarrow> None
      | Some (_, r) \<Rightarrow> (case look r of Some v \<Rightarrow> Some v | None \<Rightarrow> first_parent look r))"
  by pat_completeness auto
termination by (relation "measure (\<lambda>(look, d). length d)") (auto dest: split_once_length)

declare first_parent.simps [simp del]

text \<open>\<open>is_parent s d\<close>: \<open>d\<close> is a subdomain of \<open>s\<close>.\<close>

definition is_parent :: "string \<Rightarrow> string \<Rightarrow> bool" where
  "is_parent s d = (\<exists>p. d = p @ CHR ''.'' # s)"

lemma parent_names_iff: "s \<in> set (parent_names d) \<longleftrightarrow> is_parent s d"
proof (induction d rule: parent_names.induct)
  case (1 d)
  show ?case
  proof (cases "split_once (CHR ''.'') d")
    case None
    then have "\<not> is_parent s d" by (auto simp: is_parent_def split_once_None)
    then show ?thesis by (simp add: parent_names.simps[of d] None)
  next
    case (Some ab)
    then obtain a r where ab: "split_once (CHR ''.'') d = Some (a, r)" by (cases ab) auto
    then have d: "d = a @ CHR ''.'' # r" and a: "CHR ''.'' \<notin> set a" by (simp_all add: split_once_Some)
    have IH: "s \<in> set (parent_names r) \<longleftrightarrow> is_parent s r" using "1" ab by blast
    have "is_parent s d \<longleftrightarrow> s = r \<or> is_parent s r"
    proof
      assume "is_parent s d"
      then obtain p where "a @ CHR ''.'' # r = p @ CHR ''.'' # s" by (auto simp: is_parent_def d)
      then show "s = r \<or> is_parent s r"
        using a by (auto simp: append_eq_append_conv2 Cons_eq_append_conv append_eq_Cons_conv is_parent_def)
    next
      assume "s = r \<or> is_parent s r"
      then show "is_parent s d" by (auto simp: is_parent_def d)
    qed
    then show ?thesis using ab IH by (simp add: parent_names.simps[of d])
  qed
qed

lemma first_parent_find:
  "first_parent look d =
     (case find (\<lambda>r. look r \<noteq> None) (parent_names d) of None \<Rightarrow> None | Some r \<Rightarrow> look r)"
proof (induction look d rule: first_parent.induct)
  case (1 look d)
  then show ?case
    by (auto simp: first_parent.simps[of look d] parent_names.simps[of d] split: option.splits)
qed

lemma first_parent_None: "first_parent look d = None \<longleftrightarrow> (\<forall>r \<in> set (parent_names d). look r = None)"
  by (induction look d rule: first_parent.induct)
    (subst first_parent.simps, subst parent_names.simps, auto split: option.splits)

lemma first_parent_Some:
  "first_parent look d = Some v \<Longrightarrow> \<exists>r. is_parent r d \<and> look r = Some v"
  by (auto simp: first_parent_find find_Some_iff parent_names_iff[symmetric] in_set_conv_nth
      split: option.splits)

section \<open>Tables looked up along the parents\<close>

text \<open>
  A table of names with a lookup that tries the name itself and then its parents,
  nearest first.
\<close>

locale suffix_table =
  fixes look :: "'t \<Rightarrow> string \<Rightarrow> 'v option"
    and walk :: "'t \<Rightarrow> string \<Rightarrow> 'v option"
  assumes walk_def: "walk t d = (case look t d of Some v \<Rightarrow> Some v | None \<Rightarrow> first_parent (look t) d)"
begin

lemma walk_None_iff: "walk t d = None \<longleftrightarrow> look t d = None \<and> (\<forall>s. is_parent s d \<longrightarrow> look t s = None)"
  by (auto simp: walk_def first_parent_None parent_names_iff split: option.splits)

lemma walk_SomeD: "walk t d = Some v \<Longrightarrow> \<exists>s. (s = d \<or> is_parent s d) \<and> look t s = Some v"
  by (auto simp: walk_def dest: first_parent_Some split: option.splits)

end

section \<open>\<open>domain_matches\<close> and \<open>normalize_domain\<close>\<close>

definition domain_matches :: "string \<Rightarrow> string \<Rightarrow> bool" where
  "domain_matches domain sfx =
     (domain = sfx \<or>
      (case strip_suffix sfx domain of None \<Rightarrow> False | Some pre \<Rightarrow> ends_with ''.'' pre))"

definition domain_char :: "char \<Rightarrow> bool" where
  "domain_char c = (is_alnum c \<or> c \<in> {CHR ''-'', CHR ''_'', CHR ''.''})"

definition normalize_domain :: "string \<Rightarrow> string option" where
  "normalize_domain value =
     (let domain = trim_end_matches (CHR ''.'') (trim value)
      in if domain = [] then None
         else if CHR ''/'' \<in> set domain \<or> CHR ''*'' \<in> set domain \<or> CHR '' '' \<in> set domain then None
         else if \<not> list_all domain_char domain then None
         else if list_ex is_upper domain then Some (to_lower domain)
         else Some domain)"

lemma strip_suffix_Some: "strip_suffix p s = Some r \<longleftrightarrow> s = r @ p"
  by (auto simp: strip_suffix_def ends_with_def) (metis append_take_drop_id)

lemma strip_prefix_Some: "strip_prefix p s = Some r \<longleftrightarrow> s = p @ r"
  by (auto simp: strip_prefix_def starts_with_def) (metis append_take_drop_id)

lemma ends_with_iff: "ends_with p s \<longleftrightarrow> (\<exists>r. s = r @ p)"
  by (auto simp: ends_with_def) (metis append_take_drop_id)

lemma starts_with_iff: "starts_with p s \<longleftrightarrow> (\<exists>r. s = p @ r)"
  by (auto simp: starts_with_def) (metis append_take_drop_id)

lemma strip_suffix_None: "strip_suffix p s = None \<longleftrightarrow> (\<nexists>r. s = r @ p)"
  by (auto simp: strip_suffix_def ends_with_iff)

lemma strip_prefix_None: "strip_prefix p s = None \<longleftrightarrow> (\<nexists>r. s = p @ r)"
  by (auto simp: strip_prefix_def starts_with_iff)

lemma domain_matches_iff: "domain_matches d s \<longleftrightarrow> d = s \<or> is_parent s d"
  by (auto simp: domain_matches_def is_parent_def strip_suffix_Some strip_suffix_None ends_with_iff
      split: option.splits)

lemma domain_matches_parents: "domain_matches d s \<longleftrightarrow> s \<in> set (d # parent_names d)"
  by (auto simp: domain_matches_iff parent_names_iff)

lemma is_parent_trans: "is_parent s d \<Longrightarrow> is_parent d e \<Longrightarrow> is_parent s e"
  by (auto simp: is_parent_def)

lemma domain_matches_trans: "domain_matches d s \<Longrightarrow> domain_matches e d \<Longrightarrow> domain_matches e s"
  by (auto simp: domain_matches_iff intro: is_parent_trans)

end
