(* ===== verification/LocalReverse.thy ===== *)
theory LocalReverse
  imports NetAddr DomainName
begin

text \<open>
  \<open>dns/local_reverse.rs\<close>: reverse lookups that are answered locally.  A reverse
  name spells an address or a zone of addresses backwards, in decimal octets under
  \<open>in-addr.arpa\<close> and in hexadecimal digits under \<open>ip6.arpa\<close>.  The two parsers fill
  a fixed array and combine it; \<open>shift_in\<close> is the loop they share.  A name is
  local when one network of a table covers its whole zone.
\<close>

unbundle bit_operations_syntax

section \<open>The operations\<close>

definition LOCAL_V4_NETWORKS :: "(u32 \<times> u8) list" where
  "LOCAL_V4_NETWORKS =
     [(0x00000000, 8), (0x0A000000, 8), (0x64400000, 10), (0x7F000000, 8), (0xA9FE0000, 16),
      (0xAC100000, 12), (0xC0A80000, 16), (0xE0000000, 4), (0xF0000000, 4)]"

definition LOCAL_V6_NETWORKS :: "(u128 \<times> u8) list" where
  "LOCAL_V6_NETWORKS =
     [(0, 128), (1, 128), (push_bit 112 0xfc00, 7), (push_bit 112 0xfe80, 10),
      (push_bit 112 0xff00, 8)]"

text \<open>\<open>network |= value << (w * index)\<close> over the labels, lowest part of the address first.\<close>

definition shift_in :: "nat \<Rightarrow> u8 list \<Rightarrow> 'a::len word" where
  "shift_in w xs = foldl (\<lambda>n (i, x). n OR push_bit (w * i) (ucast x)) 0 (enumerate 0 xs)"

fun v4_labels :: "u8 list \<Rightarrow> string list \<Rightarrow> u8 list option" where
  "v4_labels octets [] = Some octets"
| "v4_labels octets (label # labels) =
     (if length octets = 4 then None
      else if label = [] \<or> (1 < length label \<and> starts_with ''0'' label) then None
      else (case parse_u8 label of
          None \<Rightarrow> None
        | Some octet \<Rightarrow> v4_labels (octets @ [octet]) labels))"

definition parse_v4_reverse_prefix :: "string \<Rightarrow> (u32 \<times> u8) option" where
  "parse_v4_reverse_prefix pre =
     (case v4_labels [] (split_on (CHR ''.'') pre) of
        None \<Rightarrow> None
      | Some octets \<Rightarrow>
          (let count = length octets
           in if count = 0 then None
              else Some (push_bit (8 * (4 - count)) (shift_in 8 octets), of_nat (8 * count))))"

fun v6_labels :: "u8 list \<Rightarrow> string list \<Rightarrow> u8 list option" where
  "v6_labels nibbles [] = Some nibbles"
| "v6_labels nibbles (label # labels) =
     (if length nibbles = 32 then None
      else (case label of
          [] \<Rightarrow> None
        | c # rest \<Rightarrow>
            (case to_digit 16 c of
               None \<Rightarrow> None
             | Some nibble \<Rightarrow>
                 if rest \<noteq> [] then None
                 else v6_labels (nibbles @ [of_nat nibble]) labels)))"

definition parse_v6_reverse_prefix :: "string \<Rightarrow> (u128 \<times> u8) option" where
  "parse_v6_reverse_prefix pre =
     (case v6_labels [] (split_on (CHR ''.'') pre) of
        None \<Rightarrow> None
      | Some nibbles \<Rightarrow>
          (let count = length nibbles
           in if count = 0 then None
              else Some (push_bit (4 * (32 - count)) (shift_in 4 nibbles), of_nat (4 * count))))"

text \<open>\<open>mask_u32\<close> and \<open>mask_u128\<close>; the lengths of the tables do not exceed the width.\<close>

definition mask_word :: "'a::len word \<Rightarrow> u8 \<Rightarrow> 'a word" where
  "mask_word value plen =
     (if plen = 0 then 0 else value AND push_bit (LENGTH('a) - unat plen) (- 1))"

definition network_is_local_v4 :: "u32 \<Rightarrow> u8 \<Rightarrow> bool" where
  "network_is_local_v4 net plen =
     list_ex (\<lambda>(loc, local_len). local_len \<le> plen \<and> mask_word net local_len = loc) LOCAL_V4_NETWORKS"

definition network_is_local_v6 :: "u128 \<Rightarrow> u8 \<Rightarrow> bool" where
  "network_is_local_v6 net plen =
     list_ex (\<lambda>(loc, local_len). local_len \<le> plen \<and> mask_word net local_len = loc) LOCAL_V6_NETWORKS"

definition is_local_reverse_name :: "string \<Rightarrow> bool" where
  "is_local_reverse_name domain =
     (case strip_suffix ''.in-addr.arpa'' domain of
        Some pre \<Rightarrow>
          (case parse_v4_reverse_prefix pre of
             None \<Rightarrow> False
           | Some (net, plen) \<Rightarrow> network_is_local_v4 net plen)
      | None \<Rightarrow>
          (case strip_suffix ''.ip6.arpa'' domain of
             Some pre \<Rightarrow>
               (case parse_v6_reverse_prefix pre of
                  None \<Rightarrow> False
                | Some (net, plen) \<Rightarrow> network_is_local_v6 net plen)
           | None \<Rightarrow> False))"

section \<open>Zones\<close>

text \<open>The labels \<open>xs\<close> of a reverse name, in the order of the name, are the leading groups of
  \<open>w\<close> bits of an address, the highest one last.\<close>

definition in_zone :: "nat \<Rightarrow> u8 list \<Rightarrow> 'a::len word \<Rightarrow> bool" where
  "in_zone w xs a =
     (\<forall>i<length xs. take_bit w (drop_bit (LENGTH('a) - w * length xs + w * i) a) = ucast (xs ! i))"

definition zone_base :: "nat \<Rightarrow> u8 list \<Rightarrow> 'a::len word" where
  "zone_base w xs = push_bit (LENGTH('a) - w * length xs) (shift_in w xs)"

lemma shift_in_Nil: "shift_in w [] = 0"
  by (simp add: shift_in_def)

lemma shift_in_snoc: "shift_in w (xs @ [x]) = shift_in w xs OR push_bit (w * length xs) (ucast x)"
  by (simp add: shift_in_def enumerate_append_eq)

lemma bit_small: "unat (x :: u8) < 2 ^ w \<Longrightarrow> bit x k \<Longrightarrow> k < w"
proof -
  assume "unat x < 2 ^ w" and b: "bit x k"
  then have "unat (take_bit w x) = unat x" by (simp add: unsigned_take_bit_eq take_bit_nat_eq_self)
  then have "take_bit w x = x" by (simp add: word_unat_eq_iff)
  then show "k < w" using b by (metis bit_take_bit_iff)
qed

lemma bit_shift_in:
  assumes "\<forall>x\<in>set xs. unat x < 2 ^ w" and "0 < w"
  shows "bit (shift_in w xs :: 'a::len word) j \<longleftrightarrow>
    j < LENGTH('a) \<and> j div w < length xs \<and> bit (xs ! (j div w)) (j mod w)"
  using assms
proof (induction xs rule: rev_induct)
  case Nil
  then show ?case by (simp add: shift_in_Nil)
next
  case (snoc x xs)
  let ?n = "length xs"
  have IH: "bit (shift_in w xs :: 'a word) j \<longleftrightarrow>
      j < LENGTH('a) \<and> j div w < ?n \<and> bit (xs ! (j div w)) (j mod w)"
    using snoc by simp
  have x: "bit x k \<Longrightarrow> k < w" for k using snoc.prems(1) bit_small[of x w k] by simp
  consider "j div w < ?n" | "j div w = ?n" | "?n < j div w" by linarith
  then show ?case
  proof cases
    case 1
    then have "j < w * ?n" using assms(2) by (simp add: div_less_iff_less_mult mult.commute)
    then show ?thesis using 1 IH by (auto simp: shift_in_snoc bit_simps nth_append)
  next
    case 2
    then have "w * ?n \<le> j" "j - w * ?n = j mod w"
      using times_div_less_eq_dividend[of w j] minus_mult_div_eq_mod[of j w] by simp_all
    then show ?thesis using 2 IH x[of "j mod w"]
      by (auto simp: shift_in_snoc bit_simps nth_append dest: bit_imp_le_length)
  next
    case 3
    then have "w * Suc ?n \<le> j"
      using assms(2) by (metis Suc_leI div_times_less_eq_dividend mult.commute mult_le_mono2 order_trans)
    then have "\<not> bit x (j - w * ?n)" using x[of "j - w * ?n"] by auto
    then show ?thesis using 3 IH by (auto simp: shift_in_snoc bit_simps nth_append)
  qed
qed

lemma bit_zone_base:
  assumes "\<forall>x\<in>set xs. unat x < 2 ^ w" and "0 < w" and "w * length xs \<le> LENGTH('a::len)"
  shows "bit (zone_base w xs :: 'a word) j \<longleftrightarrow>
    (let k = j - (LENGTH('a) - w * length xs)
     in LENGTH('a) - w * length xs \<le> j \<and> j < LENGTH('a) \<and> bit (xs ! (k div w)) (k mod w))"
proof (cases "LENGTH('a) - w * length xs \<le> j \<and> j < LENGTH('a)")
  case True
  let ?k = "j - (LENGTH('a) - w * length xs)"
  have "?k div w < length xs"
    using True assms(2,3) by (subst div_less_iff_less_mult) (auto simp: mult.commute)
  moreover have "bit (zone_base w xs :: 'a word) j \<longleftrightarrow> bit (shift_in w xs :: 'a word) ?k"
    using True by (simp add: zone_base_def bit_push_bit_iff)
  ultimately show ?thesis
    using True by (simp add: bit_shift_in[OF assms(1,2)] Let_def less_imp_diff_less)
next
  case False
  then show ?thesis by (auto simp: zone_base_def bit_push_bit_iff dest: bit_imp_le_length)
qed

lemma in_zone_bits:
  assumes "\<forall>x\<in>set xs. unat x < 2 ^ w" and "0 < w" and "w * length xs \<le> LENGTH('a::len)"
  shows "in_zone w xs (a :: 'a word) \<longleftrightarrow>
    (\<forall>j. LENGTH('a) - w * length xs \<le> j \<longrightarrow> j < LENGTH('a) \<longrightarrow> bit a j = bit (zone_base w xs :: 'a word) j)"
    (is "?L \<longleftrightarrow> ?R")
proof
  let ?b = "LENGTH('a) - w * length xs"
  have x: "i < length xs \<Longrightarrow> bit (xs ! i) k \<Longrightarrow> k < w" for i k
    using assms(1) bit_small[of "xs ! i" w k] by simp
  show ?R if L: ?L
  proof (intro allI impI)
    fix j assume j: "?b \<le> j" "j < LENGTH('a)"
    let ?k = "j - ?b"
    have i: "?k div w < length xs"
      using j assms(2,3) by (subst div_less_iff_less_mult) (auto simp: mult.commute)
    have m: "?k mod w < w" using assms(2) by simp
    have "bit (take_bit w (drop_bit (?b + w * (?k div w)) a)) (?k mod w) = bit (ucast (xs ! (?k div w)) :: 'a word) (?k mod w)"
      using L i by (simp add: in_zone_def)
    moreover have "?b + w * (?k div w) + ?k mod w = j" using j by simp
    ultimately have "bit a j = (?k mod w < LENGTH('a) \<and> bit (xs ! (?k div w)) (?k mod w))"
      using m by (simp add: bit_simps)
    moreover have "?k mod w < LENGTH('a)"
      using j by (meson le_less_trans diff_le_self mod_less_eq_dividend)
    ultimately show "bit a j = bit (zone_base w xs :: 'a word) j"
      using j by (simp add: bit_zone_base[OF assms] Let_def)
  qed
  show ?L if R: ?R
    unfolding in_zone_def
  proof (intro allI impI bit_word_eqI)
    fix i k assume i: "i < length xs" and k: "k < LENGTH('a)"
    have "w * i + w \<le> w * length xs" using i by (metis Suc_leI mult_Suc_right mult_le_mono2 add.commute)
    then have "?b + w * i + k < LENGTH('a)" if "k < w" using that assms(3) by linarith
    moreover have "(w * i + k) div w = i" "(w * i + k) mod w = k" if "k < w" using that by simp_all
    ultimately show "bit (take_bit w (drop_bit (?b + w * i) a)) k = bit (ucast (xs ! i) :: 'a word) k"
      using R x[OF i, of k] k
      by (auto simp: bit_simps bit_zone_base[OF assms] Let_def add.assoc dest: bit_imp_le_length)
  qed
qed

lemma bit_mask_word:
  "bit (mask_word v p :: 'a::len word) j \<longleftrightarrow> p \<noteq> 0 \<and> LENGTH('a) - unat p \<le> j \<and> bit v j"
  by (auto simp: mask_word_def bit_simps dest: bit_imp_le_length)

section \<open>Tables of local networks\<close>

definition table_covers :: "('a::len word \<times> u8) list \<Rightarrow> 'a word \<Rightarrow> bool" where
  "table_covers table a = list_ex (\<lambda>(v, l). mask_word a l = v) table"

text \<open>
  A table decides about zones of \<open>w\<close>-bit labels by their base alone when every
  network that is longer than a zone misses some address of the zone: \<open>probe\<close> gives
  the low bits of that address.
\<close>

locale local_table =
  fixes w :: nat
    and table :: "('a::len word \<times> u8) list"
    and probe :: "'a word"
  assumes label_width: "0 < w" and word_width: "LENGTH('a) < 256"
    and lengths: "(v, l) \<in> set table \<Longrightarrow> l \<noteq> 0 \<and> unat l \<le> LENGTH('a)"
    and probed: "(v, l) \<in> set table \<Longrightarrow> 0 < n \<Longrightarrow> w * n < unat l \<Longrightarrow>
      \<exists>j. LENGTH('a) - unat l \<le> j \<and> j < LENGTH('a) - w * n \<and> bit v j \<noteq> bit probe j"
begin

lemma mask_eq_bits:
  assumes "(v, l) \<in> set table"
  shows "mask_word a l = v \<longleftrightarrow> (\<forall>j. (LENGTH('a) - unat l \<le> j \<and> bit a j) = bit v j)"
proof -
  have "mask_word a l = v \<longleftrightarrow> (\<forall>j. bit (mask_word a l) j = bit v j)" by (metis bit_eqI)
  then show ?thesis using lengths[OF assms] by (simp only: bit_mask_word simp_thms)
qed

lemma zone_covered_iff:
  assumes xs: "\<forall>x\<in>set xs. unat x < 2 ^ w" "xs \<noteq> []" "w * length xs \<le> LENGTH('a)"
  shows "list_ex (\<lambda>(v, l). l \<le> of_nat (w * length xs) \<and> mask_word (zone_base w xs) l = v) table \<longleftrightarrow>
    (\<forall>a. in_zone w xs a \<longrightarrow> table_covers table a)"
    (is "?L \<longleftrightarrow> ?R")
proof
  let ?n = "length xs"
  let ?base = "zone_base w xs :: 'a word"
  note zone = in_zone_bits[OF xs(1) label_width xs(3)]
  have "unat (of_nat (w * ?n) :: u8) = w * ?n"
    using xs(3) word_width by (subst unsigned_of_nat) (simp add: take_bit_nat_eq_self)
  then have small: "l \<le> of_nat (w * ?n) \<longleftrightarrow> unat l \<le> w * ?n" for l :: u8
    by (simp only: word_le_nat_alt)
  show ?R if L: ?L
  proof (intro allI impI)
    fix a :: "'a word" assume a: "in_zone w xs a"
    obtain v l where vl: "(v, l) \<in> set table" "unat l \<le> w * ?n" "mask_word ?base l = v"
      using L by (auto simp: list_ex_iff small simp del: of_nat_mult)
    have "mask_word a l = v"
      unfolding mask_eq_bits[OF vl(1)]
    proof
      fix j
      have "(LENGTH('a) - unat l \<le> j \<and> bit ?base j) = bit v j"
        using vl(3) mask_eq_bits[OF vl(1)] by blast
      moreover have "bit a j = bit ?base j" if "LENGTH('a) - unat l \<le> j" "j < LENGTH('a)"
        using a zone that vl(2) by (meson diff_le_mono2 order_trans)
      ultimately show "(LENGTH('a) - unat l \<le> j \<and> bit a j) = bit v j"
        by (meson bit_imp_le_length)
    qed
    then show "table_covers table a" using vl(1) by (auto simp: table_covers_def list_ex_iff)
  qed
  show ?L if R: ?R
  proof -
    define a where "a = ?base OR take_bit (LENGTH('a) - w * ?n) probe"
    have low: "\<not> bit ?base j" if "j < LENGTH('a) - w * ?n" for j
      using that by (simp add: bit_zone_base[OF xs(1) label_width xs(3)] Let_def)
    have bits: "bit a j = (if j < LENGTH('a) - w * ?n then bit probe j else bit ?base j)" for j
      using low by (auto simp: a_def bit_or_iff bit_take_bit_iff)
    then have "in_zone w xs a" by (simp add: zone)
    then obtain v l where vl: "(v, l) \<in> set table" "mask_word a l = v"
      using R by (auto simp: table_covers_def list_ex_iff)
    have le: "unat l \<le> w * ?n"
    proof (rule ccontr)
      assume "\<not> unat l \<le> w * ?n"
      then obtain j where j: "LENGTH('a) - unat l \<le> j" "j < LENGTH('a) - w * ?n" "bit v j \<noteq> bit probe j"
        using probed[OF vl(1), of ?n] xs(2) by auto
      have "(LENGTH('a) - unat l \<le> j \<and> bit a j) = bit v j"
        using vl(2) mask_eq_bits[OF vl(1)] by blast
      then show False using j bits[of j] by simp
    qed
    have "mask_word ?base l = v"
      unfolding mask_eq_bits[OF vl(1)]
    proof
      fix j
      have "(LENGTH('a) - unat l \<le> j \<and> bit a j) = bit v j"
        using vl(2) mask_eq_bits[OF vl(1)] by blast
      moreover have "bit a j = bit ?base j" if "LENGTH('a) - unat l \<le> j"
        using that le bits[of j] by auto
      ultimately show "(LENGTH('a) - unat l \<le> j \<and> bit ?base j) = bit v j" by blast
    qed
    then show ?L using vl(1) le by (auto simp: list_ex_iff small simp del: of_nat_mult)
  qed
qed

end

lemma v4_probed:
  assumes "(v, l) \<in> set LOCAL_V4_NETWORKS" and "0 < n" and "8 * n < unat l"
  shows "\<exists>j. LENGTH(32) - unat l \<le> j \<and> j < LENGTH(32) - 8 * n \<and> bit v j \<noteq> bit (0 :: u32) j"
proof -
  have "n = 1" using assms by (auto simp: LOCAL_V4_NETWORKS_def)
  moreover have "\<forall>(v, l)\<in>set LOCAL_V4_NETWORKS. 8 < unat l \<longrightarrow>
      list_ex (\<lambda>j. 32 - unat l \<le> j \<and> bit v j) [0..<24]"
    by code_simp
  ultimately obtain j where "32 - unat l \<le> j" "bit v j" "j < 24"
    using assms by (fastforce simp: list_ex_iff)
  then show ?thesis using \<open>n = 1\<close> by (intro exI[of _ j]) simp
qed

lemma v6_probed:
  assumes "(v, l) \<in> set LOCAL_V6_NETWORKS" and "0 < n" and "4 * n < unat l"
  shows "\<exists>j. LENGTH(128) - unat l \<le> j \<and> j < LENGTH(128) - 4 * n \<and> bit v j \<noteq> bit (2 :: u128) j"
proof -
  have "v = 0 \<and> l = 128 \<or> v = 1 \<and> l = 128 \<or> v = push_bit 112 0xfc00 \<and> l = 7 \<or>
      v = push_bit 112 0xfe80 \<and> l = 10 \<or> v = push_bit 112 0xff00 \<and> l = 8"
    using assms(1) by (simp only: LOCAL_V6_NETWORKS_def list.set insert_iff empty_iff prod.inject simp_thms)
  moreover have "l = 7 \<Longrightarrow> n = 1" "l = 8 \<Longrightarrow> n = 1" "l = 10 \<Longrightarrow> n \<le> 2" using assms(2,3) by auto
  ultimately consider "v = 0" "l = 128" | "v = 1" "l = 128" | "v = push_bit 112 0xfc00" "l = 7" "n = 1"
    | "v = push_bit 112 0xfe80" "l = 10" "n \<le> 2" | "v = push_bit 112 0xff00" "l = 8" "n = 1"
    by blast
  then show ?thesis
  proof cases
    case 1
    then show ?thesis using assms by (intro exI[of _ 1]) (auto simp: bit_simps)
  next
    case 2
    then show ?thesis using assms by (intro exI[of _ 1]) (auto simp: bit_simps)
  next
    case 3
    then show ?thesis by (intro exI[of _ 122]) (simp add: bit_simps)
  next
    case 4
    then show ?thesis by (intro exI[of _ 119]) (simp add: bit_simps)
  next
    case 5
    then show ?thesis by (intro exI[of _ 121]) (simp add: bit_simps)
  qed
qed

interpretation v4: local_table 8 LOCAL_V4_NETWORKS 0
proof unfold_locales
  fix v :: u32 and l :: u8
  assume "(v, l) \<in> set LOCAL_V4_NETWORKS"
  then show "l \<noteq> 0 \<and> unat l \<le> LENGTH(32)" by (auto simp: LOCAL_V4_NETWORKS_def)
qed (simp_all only: v4_probed, simp_all)

interpretation v6: local_table 4 LOCAL_V6_NETWORKS 2
proof unfold_locales
  fix v :: u128 and l :: u8
  assume "(v, l) \<in> set LOCAL_V6_NETWORKS"
  then show "l \<noteq> 0 \<and> unat l \<le> LENGTH(128)" by (auto simp: LOCAL_V6_NETWORKS_def)
qed (simp_all only: v6_probed, simp_all)

section \<open>Names of zones\<close>

definition dec_digit :: "nat \<Rightarrow> char" where "dec_digit d = char_of (48 + d)"

definition octet_label :: "u8 \<Rightarrow> string" where
  "octet_label x =
     (let n = unat x
      in if n < 10 then [dec_digit n]
         else if n < 100 then [dec_digit (n div 10), dec_digit (n mod 10)]
         else [dec_digit (n div 100), dec_digit (n div 10 mod 10), dec_digit (n mod 10)])"

definition nibble_label :: "u8 \<Rightarrow> string" where
  "nibble_label x = [let n = unat x in if n < 10 then dec_digit n else char_of (87 + n)]"

definition v4_zone_name :: "u8 list \<Rightarrow> string" where
  "v4_zone_name xs = join ''.'' (map octet_label xs) @ ''.in-addr.arpa''"

definition v6_zone_name :: "u8 list \<Rightarrow> string" where
  "v6_zone_name xs = join ''.'' (map nibble_label xs) @ ''.ip6.arpa''"

lemma split_on_append: "c \<notin> set a \<Longrightarrow> split_on c (a @ c # b) = a # split_on c b"
  by (induction a) auto

lemma split_on_single: "c \<notin> set a \<Longrightarrow> split_on c a = [a]"
  by (induction a) auto

lemma split_on_join:
  "xs \<noteq> [] \<Longrightarrow> \<forall>x\<in>set xs. c \<notin> set x \<Longrightarrow> split_on c (join [c] xs) = xs"
  by (induction "[c]" xs rule: join.induct) (auto simp: split_on_append split_on_single)

lemma dec_digit_val:
  assumes "d < 10"
  shows "of_char (dec_digit d) = 48 + d"
  using assms by (simp add: dec_digit_def of_char_of take_bit_nat_eq_self)

lemma dec_digit:
  assumes "d < 10"
  shows "is_digit (dec_digit d)" "digit_val (dec_digit d) = d" "dec_digit d \<noteq> CHR ''.''"
    "dec_digit d \<noteq> CHR ''+''" "dec_digit d = CHR ''0'' \<longleftrightarrow> d = 0"
proof -
  note val = dec_digit_val[OF assms]
  show "is_digit (dec_digit d)" "digit_val (dec_digit d) = d"
    using assms by (simp_all add: is_digit_def in_code_def digit_val_def val)
  have "dec_digit d = c \<longleftrightarrow> 48 + d = of_char c" for c
    using val by (metis of_char_eq_iff)
  then show "dec_digit d \<noteq> CHR ''.''" "dec_digit d \<noteq> CHR ''+''" "dec_digit d = CHR ''0'' \<longleftrightarrow> d = 0"
    by simp_all
qed

lemma octet_label:
  "octet_label x \<noteq> []" "CHR ''.'' \<notin> set (octet_label x)"
  "1 < length (octet_label x) \<Longrightarrow> \<not> starts_with ''0'' (octet_label x)"
  "parse_u8 (octet_label x) = Some x"
proof -
  let ?n = "unat x"
  have "?n < 2 ^ LENGTH(8)" by (rule unsigned_less)
  then have n: "?n < 256" by simp
  consider "?n < 10" | "10 \<le> ?n" "?n < 100" | "100 \<le> ?n" by linarith
  then have "octet_label x \<noteq> [] \<and> CHR ''.'' \<notin> set (octet_label x) \<and>
    (1 < length (octet_label x) \<longrightarrow> \<not> starts_with ''0'' (octet_label x)) \<and>
    parse_uint 255 (octet_label x) = Some ?n"
  proof cases
    case 1
    then show ?thesis using n dec_digit[of ?n]
      by (auto simp: octet_label_def Let_def parse_uint_def parse_dec_def)
  next
    case 2
    then have d: "?n div 10 < 10" "?n mod 10 < 10" "?n div 10 \<noteq> 0" by auto
    show ?thesis using 2 n dec_digit[OF d(1)] dec_digit[OF d(2)] d(3)
      by (auto simp: octet_label_def Let_def parse_uint_def parse_dec_def starts_with_def)
  next
    case 3
    define a b c where abc: "a = ?n div 100" "b = ?n div 10 mod 10" "c = ?n mod 10"
    have d: "a < 10" "b < 10" "c < 10" "a \<noteq> 0" using 3 n by (simp_all add: abc)
    have "?n div 10 div 10 = a" by (simp add: abc div_mult2_eq[symmetric])
    then have v: "?n = 10 * (10 * a + b) + c"
      using mult_div_mod_eq[of 10 ?n] mult_div_mod_eq[of 10 "?n div 10"] by (simp add: abc)
    have o: "octet_label x = [dec_digit a, dec_digit b, dec_digit c]"
      using 3 by (simp add: octet_label_def Let_def abc)
    note digits = dec_digit[OF d(1)] dec_digit[OF d(2)] dec_digit[OF d(3)]
    have "parse_dec (octet_label x) = ?n" by (simp only: o parse_dec_def foldl.simps digits v) simp
    moreover have "list_all is_digit (octet_label x)" by (simp add: o digits)
    moreover have "(case octet_label x of c # r \<Rightarrow> if c = CHR ''+'' then r else octet_label x
        | [] \<Rightarrow> octet_label x) = octet_label x" by (simp only: o list.case digits if_False)
    moreover have "octet_label x \<noteq> []" by (simp only: o list.distinct) simp
    ultimately have "parse_uint 255 (octet_label x) = Some ?n"
      using n by (simp only: parse_uint_def Let_def) simp
    then show ?thesis using dec_digit[OF d(1)] dec_digit[OF d(2)] dec_digit[OF d(3)] d(4)
      by (simp add: o starts_with_def)
  qed
  then show "octet_label x \<noteq> []" "CHR ''.'' \<notin> set (octet_label x)"
    "1 < length (octet_label x) \<Longrightarrow> \<not> starts_with ''0'' (octet_label x)"
    "parse_u8 (octet_label x) = Some x"
    by (simp_all add: parse_u8_def)
qed

lemma nibble_label_facts:
  "list_all (\<lambda>n. nibble_label (of_nat n) \<noteq> ''.'' \<and>
     to_digit 16 (hd (nibble_label (of_nat n))) = Some n) [0..<16]"
  by code_simp

lemma nibble_label:
  assumes "unat x < 16"
  obtains c where "nibble_label x = [c]" "c \<noteq> CHR ''.''" "to_digit 16 c = Some (unat x)"
proof -
  have "nibble_label x \<noteq> ''.'' \<and> to_digit 16 (hd (nibble_label x)) = Some (unat x)"
    using nibble_label_facts assms unfolding list_all_iff
    by (auto dest!: bspec[of _ _ "unat x"])
  then show ?thesis using that by (auto simp: nibble_label_def Let_def)
qed

lemma v4_labels_names:
  "length acc + length xs \<le> 4 \<Longrightarrow> v4_labels acc (map octet_label xs) = Some (acc @ xs)"
  by (induction xs arbitrary: acc) (auto simp: octet_label)

lemma v6_labels_names:
  "length acc + length xs \<le> 32 \<Longrightarrow> \<forall>x\<in>set xs. unat x < 16 \<Longrightarrow>
    v6_labels acc (map nibble_label xs) = Some (acc @ xs)"
proof (induction xs arbitrary: acc)
  case (Cons x xs)
  obtain c where "nibble_label x = [c]" "to_digit 16 c = Some (unat x)"
    using nibble_label[of x] Cons.prems(2) by auto
  then show ?case using Cons by simp
qed simp

lemma parse_v4_zone:
  assumes "xs \<noteq> []" and "length xs \<le> 4"
  shows "parse_v4_reverse_prefix (join ''.'' (map octet_label xs)) =
    Some (zone_base 8 xs, of_nat (8 * length xs))"
  using assms
  by (simp add: parse_v4_reverse_prefix_def split_on_join octet_label v4_labels_names zone_base_def
      Let_def right_diff_distrib' del: of_nat_mult)

lemma parse_v6_zone:
  assumes "xs \<noteq> []" and "length xs \<le> 32" and "\<forall>x\<in>set xs. unat x < 16"
  shows "parse_v6_reverse_prefix (join ''.'' (map nibble_label xs)) =
    Some (zone_base 4 xs, of_nat (4 * length xs))"
proof -
  have "CHR ''.'' \<notin> set (nibble_label x)" if "x \<in> set xs" for x
    using nibble_label[of x] assms(3) that by (metis empty_iff empty_set insert_iff list.simps(15))
  then have "\<forall>x\<in>set (map nibble_label xs). CHR ''.'' \<notin> set x" by simp
  then have "split_on (CHR ''.'') (join ''.'' (map nibble_label xs)) = map nibble_label xs"
    using assms(1) by (intro split_on_join) simp_all
  moreover have e: "4 * (32 - length xs) = LENGTH(128) - 4 * length xs" by simp
  moreover have "v6_labels [] (map nibble_label xs) = Some xs"
    using v6_labels_names[of "[]" xs] assms(2,3) by simp
  ultimately show ?thesis
    using assms(1) e by (simp only: parse_v6_reverse_prefix_def zone_base_def Let_def option.case
      length_0_conv if_False)
qed

text \<open>Every address of the zone lies in a network of the table.\<close>

definition zone_covered :: "nat \<Rightarrow> ('a::len word \<times> u8) list \<Rightarrow> u8 list \<Rightarrow> bool" where
  "zone_covered w table xs = (\<forall>a. in_zone w xs a \<longrightarrow> table_covers table a)"

lemma minus_take: "x AND NOT (mask n) = x - take_bit n (x::'a::len word)"
proof -
  have "x = (x AND NOT (mask n)) OR take_bit n x" by (rule bit_eqI) (auto simp: bit_simps)
  also have "\<dots> = (x AND NOT (mask n)) + take_bit n x" by (rule disjunctive_add[symmetric]) (auto simp: bit_simps)
  finally show ?thesis by (metis add_diff_cancel_right')
qed

lemmas v4_table_simps = network_is_local_v4_def LOCAL_V4_NETWORKS_def mask_word_def minus_take

section \<open>Properties\<close>

lemma v4_suffix: "strip_suffix ''.in-addr.arpa'' (v4_zone_name xs) = Some (join ''.'' (map octet_label xs))"
  by (simp add: v4_zone_name_def strip_suffix_Some)

text \<open>C15. A reverse lookup under \<open>in-addr.arpa\<close>, of an address or of a zone, is answered
  locally exactly when every address of the zone lies in one of the local networks: no public
  address is cut off, and no name of a private zone leaves.\<close>

theorem v4_reverse_local:
  assumes "1 \<le> length xs" and "length xs \<le> 4"
  shows "is_local_reverse_name (v4_zone_name xs) \<longleftrightarrow>
    zone_covered 8 LOCAL_V4_NETWORKS xs"
proof -
  have "unat x < 2 ^ LENGTH(8)" for x :: u8 by (rule unsigned_less)
  then have byte: "\<forall>x\<in>set xs. unat x < 2 ^ 8" by simp
  have ne: "xs \<noteq> []" using assms(1) by auto
  have "is_local_reverse_name (v4_zone_name xs) \<longleftrightarrow>
      network_is_local_v4 (zone_base 8 xs) (of_nat (8 * length xs))"
    using assms(2) ne by (simp add: is_local_reverse_name_def v4_suffix parse_v4_zone del: of_nat_mult)
  then show ?thesis
    using v4.zone_covered_iff[OF byte ne] assms
    by (simp add: network_is_local_v4_def zone_covered_def del: of_nat_mult)
qed

theorem v4_reverse_local_witness:
  "zone_covered 8 LOCAL_V4_NETWORKS [168, 192] \<and>
   \<not> zone_covered 8 LOCAL_V4_NETWORKS [192]"
proof -
  have zone2: "parse_v4_reverse_prefix (join ''.'' (map octet_label [168, 192])) = Some (zone_base 8 [168, 192], 16)"
    and zone1: "parse_v4_reverse_prefix (join ''.'' (map octet_label [192])) = Some (zone_base 8 [192], 8)"
    using parse_v4_zone[of "[168, 192]"] parse_v4_zone[of "[192]"] by simp_all
  have "network_is_local_v4 (zone_base 8 [168, 192]) 16" "\<not> network_is_local_v4 (zone_base 8 [192]) 8"
    by (simp_all add: v4_table_simps zone_base_def shift_in_def)
  then have "is_local_reverse_name (v4_zone_name [168, 192])" "\<not> is_local_reverse_name (v4_zone_name [192])"
    using zone1 zone2 by (simp_all only: is_local_reverse_name_def v4_suffix option.case prod.case simp_thms)
  then show ?thesis
    using v4_reverse_local[of "[168, 192]"] v4_reverse_local[of "[192]"] by simp
qed

lemma v6_suffixes:
  "strip_suffix ''.in-addr.arpa'' (v6_zone_name xs) = None"
  "strip_suffix ''.ip6.arpa'' (v6_zone_name xs) = Some (join ''.'' (map nibble_label xs))"
proof -
  have "\<not> ends_with ''.in-addr.arpa'' (s @ ''.ip6.arpa'')" for s
  proof
    assume "ends_with ''.in-addr.arpa'' (s @ ''.ip6.arpa'')"
    then obtain r where "s @ ''.ip6.arpa'' = r @ ''.in-addr.arpa''" by (auto simp: ends_with_iff)
    then have "rev (s @ ''.ip6.arpa'') = rev (r @ ''.in-addr.arpa'')" by simp
    then show False by simp
  qed
  then show "strip_suffix ''.in-addr.arpa'' (v6_zone_name xs) = None"
    by (simp add: v6_zone_name_def strip_suffix_def)
  show "strip_suffix ''.ip6.arpa'' (v6_zone_name xs) = Some (join ''.'' (map nibble_label xs))"
    by (simp add: v6_zone_name_def strip_suffix_Some)
qed

lemma is_local_v6_zone:
  assumes "xs \<noteq> []" and "length xs \<le> 32" and "\<forall>x\<in>set xs. unat x < 16"
  shows "is_local_reverse_name (v6_zone_name xs) \<longleftrightarrow>
    network_is_local_v6 (zone_base 4 xs) (of_nat (4 * length xs))"
  using v6_suffixes parse_v6_zone[OF assms] by (simp add: is_local_reverse_name_def del: of_nat_mult)

text \<open>The same for the hexadecimal names under \<open>ip6.arpa\<close>.\<close>

theorem v6_reverse_local:
  assumes "1 \<le> length xs" and "length xs \<le> 32" and "\<forall>x\<in>set xs. unat x < 16"
  shows "is_local_reverse_name (v6_zone_name xs) \<longleftrightarrow>
    zone_covered 4 LOCAL_V6_NETWORKS xs"
proof -
  have ne: "xs \<noteq> []" using assms(1) by auto
  show ?thesis
    using is_local_v6_zone[OF ne assms(2,3)] v6.zone_covered_iff[of xs] assms ne
    by (simp add: network_is_local_v6_def zone_covered_def del: of_nat_mult)
qed

theorem v6_reverse_local_witness:
  "\<not> is_local_reverse_name (v6_zone_name [1]) \<and>
   \<not> zone_covered 4 LOCAL_V6_NETWORKS [1]"
proof -
  have "\<not> is_local_reverse_name (v6_zone_name [1])"
    using is_local_v6_zone[of "[1]"] by (simp add: network_is_local_v6_def LOCAL_V6_NETWORKS_def)
  then show ?thesis using v6_reverse_local[of "[1]"] by simp
qed

text \<open>A label with a plus sign is read as the number behind it, against the comment in
  \<open>parse_v4_reverse_prefix\<close>: a zone has more than one spelling.\<close>

lemma plus_sign_accepted: "is_local_reverse_name ''+10.in-addr.arpa''"
proof -
  have "strip_suffix ''.in-addr.arpa'' ''+10.in-addr.arpa'' = Some ''+10'' \<and>
      parse_v4_reverse_prefix ''+10'' = Some (0x0A000000, 8)" by code_simp
  then show ?thesis by (simp add: is_local_reverse_name_def v4_table_simps)
qed

end
