(* ===== verification/DnsWire.thy ===== *)
theory DnsWire
  imports NetAddr DomainName
begin

text \<open>
  \<open>dns/protocol.rs\<close>, the readers and the encoders of the DNS wire format:
  \<open>read_u16\<close>, \<open>skip_dns_name\<close>, \<open>read_dns_record\<close>, \<open>parse_question\<close>,
  \<open>parse_query\<close>, the EDNS option scan, and the encodings of names and of the
  record data of rewrite rules.  A rejected packet is \<open>Inl\<close> of the reason, or
  \<open>None\<close> where the source returns \<open>Option\<close>.
\<close>

section \<open>Constants\<close>

abbreviation (input) DNS_HEADER_LEN :: nat where "DNS_HEADER_LEN \<equiv> 12"
abbreviation (input) MAX_DNS_PACKET_SIZE :: nat where "MAX_DNS_PACKET_SIZE \<equiv> 65535"
abbreviation (input) TYPE_A :: u16 where "TYPE_A \<equiv> 1"
abbreviation (input) TYPE_NS :: u16 where "TYPE_NS \<equiv> 2"
abbreviation (input) TYPE_CNAME :: u16 where "TYPE_CNAME \<equiv> 5"
abbreviation (input) TYPE_SOA :: u16 where "TYPE_SOA \<equiv> 6"
abbreviation (input) TYPE_PTR :: u16 where "TYPE_PTR \<equiv> 12"
abbreviation (input) TYPE_MX :: u16 where "TYPE_MX \<equiv> 15"
abbreviation (input) TYPE_TXT :: u16 where "TYPE_TXT \<equiv> 16"
abbreviation (input) TYPE_AAAA :: u16 where "TYPE_AAAA \<equiv> 28"
abbreviation (input) TYPE_SRV :: u16 where "TYPE_SRV \<equiv> 33"
abbreviation (input) TYPE_OPT :: u16 where "TYPE_OPT \<equiv> 41"
abbreviation (input) TYPE_SVCB :: u16 where "TYPE_SVCB \<equiv> 64"
abbreviation (input) TYPE_HTTPS :: u16 where "TYPE_HTTPS \<equiv> 65"
abbreviation (input) TYPE_ANY :: u16 where "TYPE_ANY \<equiv> 255"
abbreviation (input) RCODE_NOERROR :: u8 where "RCODE_NOERROR \<equiv> 0"
abbreviation (input) RCODE_SERVFAIL :: u8 where "RCODE_SERVFAIL \<equiv> 2"
abbreviation (input) RCODE_NXDOMAIN :: u8 where "RCODE_NXDOMAIN \<equiv> 3"
abbreviation (input) RCODE_REFUSED :: u8 where "RCODE_REFUSED \<equiv> 5"

section \<open>Readers\<close>

definition read_u16 :: "packet \<Rightarrow> nat \<Rightarrow> u16 option" where
  "read_u16 bytes off = do {
     a \<leftarrow> get_at bytes off;
     b \<leftarrow> get_at bytes (off + 1);
     Some (from_be [a, b]) }"

definition read_u32 :: "packet \<Rightarrow> nat \<Rightarrow> u32 option" where
  "read_u32 bytes off = do {
     a \<leftarrow> get_at bytes off;
     b \<leftarrow> get_at bytes (off + 1);
     c \<leftarrow> get_at bytes (off + 2);
     d \<leftarrow> get_at bytes (off + 3);
     Some (from_be [a, b, c, d]) }"

definition write_u32_at :: "packet \<Rightarrow> nat \<Rightarrow> u32 \<Rightarrow> packet option" where
  "write_u32_at target off v =
     (case get_range target off (off + 4) of None \<Rightarrow> None
      | Some _ \<Rightarrow> Some (splice target off (be32 v)))"

text \<open>A length byte whose two high bits are 11 is a compression pointer.\<close>

function skip_dns_name :: "packet \<Rightarrow> nat \<Rightarrow> nat option" where
  "skip_dns_name p off =
     (case get_at p off of
        None \<Rightarrow> None
      | Some len \<Rightarrow>
          if len = 0 then Some (off + 1)
          else if len AND 0xC0 = 0xC0
          then (case get_at p (off + 1) of None \<Rightarrow> None | Some _ \<Rightarrow> Some (off + 1 + 1))
          else if len AND 0xC0 \<noteq> 0 then None
          else if length p < off + 1 + unat len then None
          else skip_dns_name p (off + 1 + unat len))"
  by pat_completeness auto
termination by (relation "measure (\<lambda>(p, off). length p - off)") (auto simp: get_at_Some)

declare skip_dns_name.simps [simp del]

record dns_record =
  record_type :: u16
  record_class :: u16
  ttl :: u32
  data_offset :: nat
  data_len :: nat
  next_offset :: nat

definition read_dns_record :: "packet \<Rightarrow> nat \<Rightarrow> dns_record option" where
  "read_dns_record p off = do {
     h \<leftarrow> skip_dns_name p off;
     if length p < h + 10 then None
     else do {
       rtype \<leftarrow> read_u16 p h;
       rclass \<leftarrow> read_u16 p (h + 2);
       rttl \<leftarrow> read_u32 p (h + 4);
       dlen \<leftarrow> read_u16 p (h + 8);
       let next = h + 10 + unat dlen;
       if length p < next then None
       else Some \<lparr>record_type = rtype, record_class = rclass, ttl = rttl,
              data_offset = h + 10, data_len = unat dlen, next_offset = next\<rparr> } }"

section \<open>Questions and queries\<close>

datatype dns_error =
    QueryTooShort
  | FlagsUnreadable
  | QrSet
  | BadOpcode u16
  | ReservedFlagSet
  | QuestionCountNotOne
  | NameOutOfBounds
  | NameCompressed
  | LabelTooLong
  | LabelOutOfBounds
  | LabelNotAscii
  | QuestionTruncated
  | BadRecord
  | BadAdditional
  | TrailingData
  | ResponseTooShort
  | IdMismatch
  | NotAResponse
  | QuestionMismatch

record question =
  domain :: string
  qtype :: u16
  qclass :: u16
  question_end :: nat

record parsed_query =
  pq_question :: question
  recursion_desired :: bool
  authentic_data :: bool
  checking_disabled :: bool
  dnssec_ok :: bool
  edns_udp_size :: "u16 option"
  cache_safe :: bool

definition is_ascii_byte :: "u8 \<Rightarrow> bool" where
  "is_ascii_byte b = (b < 128)"

definition push_ascii_lowercase :: "string \<Rightarrow> u8 list \<Rightarrow> dns_error + string" where
  "push_ascii_lowercase target bytes =
     (if \<not> list_all is_ascii_byte bytes then Inl LabelNotAscii
      else Inr (target @ to_lower (map char_at_byte bytes)))"

text \<open>The label loop of \<open>parse_question\<close>: the name and the offset behind it.\<close>

function parse_labels :: "packet \<Rightarrow> nat \<Rightarrow> string \<Rightarrow> dns_error + (string \<times> nat)" where
  "parse_labels p off nm =
     (if length p \<le> off then Inl NameOutOfBounds
      else let len = p ! off in
        if len = 0 then Inr (nm, off + 1)
        else if len AND 0xC0 = 0xC0 then Inl NameCompressed
        else if 63 < len then Inl LabelTooLong
        else if length p < off + 1 + unat len then Inl LabelOutOfBounds
        else (case push_ascii_lowercase (if nm = [] then nm else nm @ ''.'')
                     (slice p (off + 1) (off + 1 + unat len)) of
            Inl e \<Rightarrow> Inl e
          | Inr nm' \<Rightarrow> parse_labels p (off + 1 + unat len) nm'))"
  by pat_completeness auto
termination by (relation "measure (\<lambda>(p, off, nm). length p - off)") auto

declare parse_labels.simps [simp del]

definition parse_question :: "packet \<Rightarrow> dns_error + question" where
  "parse_question p =
     (if length p < DNS_HEADER_LEN then Inl QueryTooShort
      else if (case read_u16 p 4 of None \<Rightarrow> 0 | Some c \<Rightarrow> c) \<noteq> 1 then Inl QuestionCountNotOne
      else (case parse_labels p DNS_HEADER_LEN [] of
          Inl e \<Rightarrow> Inl e
        | Inr (nm, off) \<Rightarrow>
            if length p < off + 4 then Inl QuestionTruncated
            else (case (read_u16 p off, read_u16 p (off + 2)) of
                (Some t, Some c) \<Rightarrow>
                  Inr \<lparr>domain = nm, qtype = t, qclass = c, question_end = off + 4\<rparr>
              | _ \<Rightarrow> Inl QuestionTruncated)))"

fun edns_options_safe :: "u8 list \<Rightarrow> bool" where
  "edns_options_safe [] = True"
| "edns_options_safe (a # b # c # d # r) =
     (if length r < unat (from_be [c, d] :: u16) then False
      else if (from_be [a, b] :: u16) \<noteq> 11 \<and> (from_be [a, b] :: u16) \<noteq> 12 then False
      else edns_options_safe (drop (unat (from_be [c, d] :: u16)) r))"
| "edns_options_safe _ = False"

definition edns_options_are_cache_safe :: "packet \<Rightarrow> nat \<Rightarrow> nat \<Rightarrow> bool" where
  "edns_options_are_cache_safe p off len =
     (case get_range p off (off + len) of None \<Rightarrow> False | Some rest \<Rightarrow> edns_options_safe rest)"

fun skip_records :: "nat \<Rightarrow> packet \<Rightarrow> nat \<Rightarrow> nat option" where
  "skip_records 0 p off = Some off"
| "skip_records (Suc n) p off =
     (case read_dns_record p off of None \<Rightarrow> None | Some r \<Rightarrow> skip_records n p (next_offset r))"

text \<open>The loop over the additional section: offset, EDNS size, DO flag, cache safety.\<close>

fun scan_additional ::
  "nat \<Rightarrow> packet \<Rightarrow> nat \<Rightarrow> u16 option \<Rightarrow> bool \<Rightarrow> bool \<Rightarrow> (nat \<times> u16 option \<times> bool \<times> bool) option" where
  "scan_additional 0 p off udp dok safe = Some (off, udp, dok, safe)"
| "scan_additional (Suc n) p off udp dok safe =
     (case read_dns_record p off of
        None \<Rightarrow> None
      | Some r \<Rightarrow>
          if record_type r = TYPE_OPT \<and> udp = None \<and> get_at p off = Some 0
          then scan_additional n p (next_offset r)
                 (Some (max (record_class r) 512))
                 (ttl r AND 0x8000 \<noteq> 0)
                 (if ttl r AND 0xffff7fff \<noteq> 0 \<or>
                     \<not> edns_options_are_cache_safe p (data_offset r) (data_len r)
                  then False else safe)
          else scan_additional n p (next_offset r) udp dok False)"

definition parse_query :: "packet \<Rightarrow> dns_error + parsed_query" where
  "parse_query p =
     (if length p < DNS_HEADER_LEN then Inl QueryTooShort
      else (case read_u16 p 2 of
        None \<Rightarrow> Inl FlagsUnreadable
      | Some flags \<Rightarrow>
          if flags AND 0x8000 \<noteq> 0 then Inl QrSet
          else if flags AND 0x7800 \<noteq> 0 then Inl (BadOpcode (drop_bit 11 flags AND 0x0f))
          else if flags AND 0x0040 \<noteq> 0 then Inl ReservedFlagSet
          else (case parse_question p of
              Inl e \<Rightarrow> Inl e
            | Inr q \<Rightarrow>
                let an = (case read_u16 p 6 of None \<Rightarrow> 0 | Some c \<Rightarrow> c);
                    ns = (case read_u16 p 8 of None \<Rightarrow> 0 | Some c \<Rightarrow> c);
                    ar = (case read_u16 p 10 of None \<Rightarrow> 0 | Some c \<Rightarrow> c)
                in (case skip_records (unat (sat_add an ns)) p (question_end q) of
                      None \<Rightarrow> Inl BadRecord
                    | Some off \<Rightarrow>
                        (case scan_additional (unat ar) p off None False (an = 0 \<and> ns = 0) of
                           None \<Rightarrow> Inl BadAdditional
                         | Some (off', udp, dok, safe) \<Rightarrow>
                             if off' \<noteq> length p then Inl TrailingData
                             else Inr \<lparr>pq_question = q,
                                       recursion_desired = (flags AND 0x0100 \<noteq> 0),
                                       authentic_data = (flags AND 0x0020 \<noteq> 0),
                                       checking_disabled = (flags AND 0x0010 \<noteq> 0),
                                       dnssec_ok = dok, edns_udp_size = udp, cache_safe = safe\<rparr>)))))"

section \<open>Encoders\<close>

fun encode_labels :: "string list \<Rightarrow> u8 list option" where
  "encode_labels [] = Some []"
| "encode_labels (l # ls) =
     (if l = [] \<or> 63 < length l then None
      else map_option (\<lambda>r. of_nat (length l) # str_bytes l @ r) (encode_labels ls))"

definition encode_dns_name :: "string \<Rightarrow> u8 list option" where
  "encode_dns_name name0 =
     (if name0 = ''.'' then Some [0]
      else let name = trim_end_matches (CHR ''.'') name0 in
        if name = [] \<or> 253 < length name then None
        else map_option (\<lambda>e. e @ [0]) (encode_labels (split_on (CHR ''.'') name)))"

function chunks255 :: "u8 list \<Rightarrow> u8 list list" where
  "chunks255 bs = (if bs = [] then [] else take 255 bs # chunks255 (drop 255 bs))"
  by pat_completeness auto
termination by (relation "measure length") auto

declare chunks255.simps [simp del]

definition encode_txt :: "string \<Rightarrow> u8 list option" where
  "encode_txt value =
     (let bytes = str_bytes value
      in if 65535 < length bytes + (length bytes + 254) div 255 then None
         else Some (concat (map (\<lambda>c. of_nat (length c) # c) (chunks255 bytes))))"

definition encode_mx :: "string \<Rightarrow> u8 list option" where
  "encode_mx value = do {
     (preference, exchange) \<leftarrow> split_once_ws value;
     pr \<leftarrow> parse_u16 (trim preference);
     name \<leftarrow> encode_dns_name (trim exchange);
     Some (be16 pr @ name) }"

definition encode_srv :: "string \<Rightarrow> u8 list option" where
  "encode_srv value =
     (case split_whitespace value of
        [a, b, c, target] \<Rightarrow> do {
          priority \<leftarrow> parse_u16 a;
          weight \<leftarrow> parse_u16 b;
          port \<leftarrow> parse_u16 c;
          name \<leftarrow> encode_dns_name target;
          Some (be16 priority @ be16 weight @ be16 port @ name) }
      | _ \<Rightarrow> None)"

definition encode_rewrite_rdata :: "u16 \<Rightarrow> string \<Rightarrow> u16 \<Rightarrow> u8 list option" where
  "encode_rewrite_rdata rtype value qt =
     (if qt \<noteq> rtype \<and> qt \<noteq> TYPE_ANY then None
      else if rtype = TYPE_TXT then encode_txt value
      else if rtype = TYPE_PTR then encode_dns_name value
      else if rtype = TYPE_MX then encode_mx value
      else if rtype = TYPE_SRV then encode_srv value
      else None)"

section \<open>Bounds\<close>

lemma skip_dns_name_bounds: "skip_dns_name p off = Some o' \<Longrightarrow> off < o' \<and> o' \<le> length p"
proof (induction p off rule: skip_dns_name.induct)
  case (1 p off)
  then show ?case
    unfolding skip_dns_name.simps[of p off]
    by (fastforce simp: slice_simps split: option.splits if_splits)
qed

lemma read_u16_Some: "read_u16 p off = Some v \<longleftrightarrow> off + 1 < length p \<and> v = from_be [p ! off, p ! (off + 1)]"
  by (auto simp: read_u16_def get_at_def split: Option.bind_splits)

lemma read_u16_total: "off + 1 < length p \<Longrightarrow> read_u16 p off = Some (from_be [p ! off, p ! (off + 1)])"
  by (simp add: read_u16_Some)

lemma read_dns_record_bounds:
  assumes "read_dns_record p off = Some r"
  shows "off + 10 < data_offset r" and "data_offset r + data_len r = next_offset r"
    and "next_offset r \<le> length p"
  using assms skip_dns_name_bounds[of p off]
  by (auto simp: read_dns_record_def Let_def split: Option.bind_splits if_splits)

lemma skip_records_bounds:
  "skip_records n p off = Some o' \<Longrightarrow> off \<le> o' \<and> (off \<le> length p \<longrightarrow> o' \<le> length p)"
proof (induction n p off rule: skip_records.induct)
  case (2 n p off)
  then show ?case
    using read_dns_record_bounds by (fastforce split: option.splits)
qed simp

lemma parse_labels_bounds:
  "parse_labels p off nm = Inr (nm', off') \<Longrightarrow> off < off' \<and> off' \<le> length p"
proof (induction p off nm rule: parse_labels.induct)
  case (1 p off nm)
  then show ?case
    unfolding parse_labels.simps[of p off nm]
    by (fastforce simp: Let_def split: if_splits sum.splits)
qed

lemma parse_question_Inr:
  "parse_question p = Inr q \<Longrightarrow>
    12 \<le> length p \<and> read_u16 p 4 = Some 1 \<and>
    (\<exists>off. parse_labels p 12 [] = Inr (domain q, off) \<and> question_end q = off + 4 \<and>
       read_u16 p off = Some (qtype q) \<and> read_u16 p (off + 2) = Some (qclass q))"
  by (auto simp: parse_question_def split: if_splits sum.splits prod.splits option.splits)

lemma parse_question_bounds:
  "parse_question p = Inr q \<Longrightarrow> 16 < question_end q \<and> question_end q \<le> length p"
  using parse_labels_bounds by (fastforce dest!: parse_question_Inr simp: read_u16_Some)

section \<open>Round trip of names\<close>

lemma unat_byte_of [simp]: "unat (byte_of c) = of_char c"
proof -
  have "byte_of c = of_nat (of_char c)" by (simp add: byte_of_def of_nat_of_char)
  then show ?thesis by (simp add: unat_of_nat)
qed

lemma char_at_byte_of [simp]: "char_at_byte (byte_of c) = c"
  by (simp add: char_at_byte_def)

lemma length_str_bytes [simp]: "length (str_bytes s) = length s"
  by (simp add: str_bytes_def)

lemma small_byte_mask: "n < 64 \<Longrightarrow> (of_nat n :: u8) AND 0xC0 = 0"
proof -
  assume "n < 64"
  then have "(of_nat n :: u8) = of_nat (take_bit 6 n)" by (simp add: take_bit_nat_eq_self)
  then have n: "(of_nat n :: u8) = take_bit 6 (of_nat n)" by (simp add: take_bit_of_nat)
  have "(mask 6 :: u8) AND 0xC0 = 0" by (simp add: mask_eq_exp_minus_1)
  then have "of_nat n AND (mask 6 AND 0xC0) = (0 :: u8)" by simp
  then show ?thesis by (subst n) (simp add: take_bit_eq_mask and.assoc)
qed

definition ascii_str :: "string \<Rightarrow> bool" where
  "ascii_str s = list_all (\<lambda>c. of_char c < (128 :: nat)) s"

lemma join_split_on [simp]: "join [c] (split_on c s) = s"
proof (induction s)
  case (Cons x xs)
  then show ?case by (cases "split_on c xs"; cases "tl (split_on c xs)") (auto split: list.splits)
qed simp

lemma split_on_ne [simp]: "split_on c s \<noteq> []"
  by (induction s) (auto split: list.splits)

text \<open>What the label loop makes of a list of labels.\<close>

definition add_label :: "string \<Rightarrow> string \<Rightarrow> string" where
  "add_label nm l = (if nm = [] then nm else nm @ ''.'') @ to_lower l"

lemma fold_add_label:
  "nm \<noteq> [] \<Longrightarrow> foldl add_label nm ls = nm @ concat (map (\<lambda>l. ''.'' @ to_lower l) ls)"
  by (induction ls arbitrary: nm) (simp_all add: add_label_def)

lemma lower_join: "to_lower (join ''.'' (l # ls)) = to_lower l @ concat (map (\<lambda>l. ''.'' @ to_lower l) ls)"
proof (induction ls arbitrary: l)
  case (Cons v vs)
  have "lower_char (CHR ''.'') = CHR ''.''" by code_simp
  then show ?case using Cons[of v] by (simp add: to_lower_def)
qed (simp add: to_lower_def)

lemma fold_add_label_join: "\<forall>l \<in> set ls. l \<noteq> [] \<Longrightarrow> foldl add_label [] ls = to_lower (join ''.'' ls)"
proof (cases ls)
  case (Cons l ls')
  assume "\<forall>l \<in> set ls. l \<noteq> []"
  then have "to_lower l \<noteq> []" using Cons by (simp add: to_lower_def)
  then show ?thesis
    unfolding Cons lower_join by (simp add: add_label_def fold_add_label)
qed (simp add: to_lower_def)

lemma push_ascii: "ascii_str l \<Longrightarrow> push_ascii_lowercase t (str_bytes l) = Inr (t @ to_lower l)"
proof -
  have b: "byte_of c < 128" if "of_char c < (128 :: nat)" for c
    using that by (simp add: word_less_nat_alt)
  assume "ascii_str l"
  then have "list_all is_ascii_byte (str_bytes l)"
    by (auto simp: ascii_str_def str_bytes_def list_all_iff is_ascii_byte_def intro: b)
  then show ?thesis by (simp add: push_ascii_lowercase_def str_bytes_def comp_def)
qed

lemma slice_append [slice_simps]:
  "length pre = a \<Longrightarrow> slice (pre @ xs @ r) a (a + length xs) = xs"
  by (simp add: slice_def)

lemma parse_labels_encoded:
  assumes "encode_labels ls = Some e" and "\<forall>l \<in> set ls. ascii_str l"
  shows "parse_labels (pre @ e @ 0 # r) (length pre) nm =
    Inr (foldl add_label nm ls, length pre + length e + 1)"
  using assms
proof (induction ls arbitrary: pre nm e)
  case Nil
  then show ?case by (simp add: parse_labels.simps)
next
  case (Cons l ls)
  then obtain e' where e': "encode_labels ls = Some e'" and l: "l \<noteq> []" "length l \<le> 63"
    and e: "e = of_nat (length l) # str_bytes l @ e'"
    by (auto split: if_splits)
  let ?n = "of_nat (length l) :: u8"
  have n: "unat ?n = length l" using l(2) by (simp add: unat_of_nat)
  have n0: "?n \<noteq> 0" using n l(1) by auto
  have nm: "?n AND 0xC0 \<noteq> 0xC0" using small_byte_mask[of "length l"] l(2) by simp
  have n63: "\<not> 63 < ?n" using n l(2) by (simp add: word_less_nat_alt)
  have sl: "slice (pre @ e @ 0 # r) (length pre + 1) (length pre + 1 + length l) = str_bytes l"
    using slice_append[of "pre @ [?n]" "length pre + 1" "str_bytes l" "e' @ 0 # r"] by (simp add: e)
  have push: "push_ascii_lowercase (if nm = [] then nm else nm @ ''.'') (str_bytes l) = Inr (add_label nm l)"
    using Cons.prems(2) by (simp add: push_ascii add_label_def)
  have "parse_labels (pre @ e @ 0 # r) (length pre) nm =
      parse_labels (pre @ e @ 0 # r) (length pre + 1 + length l) (add_label nm l)"
    using n0 nm n63 sl push
    by (subst parse_labels.simps) (simp add: e nth_append n Let_def)
  also have "\<dots> = parse_labels ((pre @ ?n # str_bytes l) @ e' @ 0 # r)
      (length (pre @ ?n # str_bytes l)) (add_label nm l)"
    by (simp add: e)
  also have "\<dots> = Inr (foldl add_label (add_label nm l) ls, length pre + length e + 1)"
    using Cons.IH[OF e', of "pre @ ?n # str_bytes l" "add_label nm l"] Cons.prems(2)
    by (simp add: e)
  finally show ?case by simp
qed

lemma set_split_on: "l \<in> set (split_on c s) \<Longrightarrow> set l \<subseteq> set s"
  by (induction s arbitrary: l) (fastforce split: list.splits if_splits)+

lemma set_trim_end_matches: "set (trim_end_matches c s) \<subseteq> set s"
  by (auto simp: trim_end_matches_def dest: set_dropWhileD)

lemma encode_labels_ne: "encode_labels ls = Some e \<Longrightarrow> l \<in> set ls \<Longrightarrow> l \<noteq> [] \<and> length l \<le> 63"
  by (induction ls arbitrary: e) (auto split: if_splits)

lemma length_encode_labels: "encode_labels ls = Some e \<Longrightarrow> length e = sum_list (map length ls) + length ls"
  by (induction ls arbitrary: e) (auto split: if_splits)

lemma length_split_on: "sum_list (map length (split_on c s)) + length (split_on c s) = length s + 1"
proof (induction s)
  case (Cons x xs)
  then show ?case by (cases "split_on c xs") (auto split: list.splits)
qed simp

lemma length_encode_dns_name: "encode_dns_name name = Some e \<Longrightarrow> length e \<le> 255"
proof -
  assume "encode_dns_name name = Some e"
  moreover have "length (trim_end_matches (CHR ''.'') name) \<le> 253 \<Longrightarrow>
      encode_labels (split_on (CHR ''.'') (trim_end_matches (CHR ''.'') name)) = Some z \<Longrightarrow> length z \<le> 254" for z
    using length_split_on[of "CHR ''.''" "trim_end_matches (CHR ''.'') name"]
    by (simp add: length_encode_labels)
  ultimately show ?thesis
    by (fastforce simp: encode_dns_name_def Let_def split: if_splits)
qed

lemma read_u16_append:
  "off = length a \<Longrightarrow> read_u16 (a @ be16 v @ b) off = Some v"
  using from_be_be16[of v] by (simp add: read_u16_Some nth_append be16_def del: from_be_be16)

lemma read_u16_prefix: "off + 1 < length a \<Longrightarrow> read_u16 (a @ b) off = read_u16 a off"
  by (simp add: read_u16_def get_at_def nth_append)

lemma encoded_name_labels:
  assumes "encode_dns_name name = Some enc" and "ascii_str name"
  shows "parse_labels (pre @ enc @ r) (length pre) [] =
    Inr (to_lower (trim_end_matches (CHR ''.'') name), length pre + length enc)"
proof (cases "name = ''.''")
  case True
  then have enc: "enc = [0]" using assms(1) by (simp add: encode_dns_name_def)
  have "to_lower (trim_end_matches (CHR ''.'') ''.'') = []"
    by (simp add: trim_end_matches_def to_lower_def)
  moreover have "parse_labels (pre @ [0] @ r) (length pre) [] = Inr ([], length pre + 1)"
    by (subst parse_labels.simps) simp
  ultimately show ?thesis by (simp add: True enc)
next
  case False
  let ?name = "trim_end_matches (CHR ''.'') name"
  obtain e where e: "encode_labels (split_on (CHR ''.'') ?name) = Some e" and enc: "enc = e @ [0]"
    using assms(1) False by (auto simp: encode_dns_name_def Let_def split: if_splits)
  have asc: "\<forall>l \<in> set (split_on (CHR ''.'') ?name). ascii_str l"
    using assms(2) set_trim_end_matches[of "CHR ''.''" name]
    by (fastforce simp: ascii_str_def list_all_iff dest: set_split_on)
  have "parse_labels (pre @ e @ 0 # r) (length pre) [] =
      Inr (foldl add_label [] (split_on (CHR ''.'') ?name), length pre + length e + 1)"
    by (rule parse_labels_encoded[OF e asc])
  moreover have "foldl add_label [] (split_on (CHR ''.'') ?name) = to_lower ?name"
    using encode_labels_ne[OF e] by (subst fold_add_label_join) auto
  ultimately show ?thesis by (simp add: enc)
qed

lemma parse_question_encoded:
  assumes "encode_dns_name name = Some enc" and "ascii_str name"
    and "length hdr = 12" and "read_u16 hdr 4 = Some 1"
  shows "parse_question (hdr @ enc @ be16 t @ be16 c @ r) =
    Inr \<lparr>domain = to_lower (trim_end_matches (CHR ''.'') name), qtype = t, qclass = c,
         question_end = 16 + length enc\<rparr>"
proof -
  let ?p = "hdr @ enc @ be16 t @ be16 c @ r"
  have "parse_labels ?p 12 [] = Inr (to_lower (trim_end_matches (CHR ''.'') name), 12 + length enc)"
    using encoded_name_labels[OF assms(1,2), of hdr "be16 t @ be16 c @ r"] by (simp add: assms(3))
  moreover have "read_u16 ?p 4 = Some 1"
    using assms(3,4) by (simp add: read_u16_prefix)
  moreover have "read_u16 ?p (12 + length enc) = Some t"
    using read_u16_append[of "12 + length enc" "hdr @ enc" t "be16 c @ r"] by (simp add: assms(3))
  moreover have "read_u16 ?p (12 + length enc + 2) = Some c"
    using read_u16_append[of "12 + length enc + 2" "hdr @ enc @ be16 t" c r] by (simp add: assms(3))
  ultimately show ?thesis by (simp add: parse_question_def assms(3))
qed

end
