(* ===== verification/RuleText.thy ===== *)
theory RuleText
  imports DnsWire
begin

text \<open>
  \<open>dns/rules.rs\<close>, the text of the filter rules: the parsers of patterns,
  modifiers, \<open>$dnsrewrite\<close> values and hosts lines, the canonical spellings, the
  \<open>badfilter\<close> targets, and \<open>scan_rules_with_disabled\<close>, which turns a rule text
  into the events its callers handle.  The closure \<open>handle\<close> of the source is
  called once per event and in order, so the scan returns the list of events.
  The JSON decoder of the source markers (crate \<open>serde_json\<close>) is a parameter.
\<close>

section \<open>Rules\<close>

datatype simple_kind = SuffixKind | ExactPlain | HostsZero4 | HostsLocal4 | HostsZero6 | HostsLocal6

datatype rule_type = ExactRule | SuffixRule | HostsRule

datatype query_types = AnyType | IncludeTypes "u16 list" | ExcludeTypes "u16 list"

datatype dns_rewrite_action =
    RCode u8
  | Address ip_addr
  | Cname string
  | Record u16 string
  | Multiple "dns_rewrite_action list"

record rule_data =
  rd_domain :: string
  rd_include_subdomains :: bool
  rd_raw :: string
  rd_rule_type :: rule_type
  rd_important :: bool
  rd_query_types :: query_types
  rd_denyallow :: "string list"
  rd_dnsrewrite :: "dns_rewrite_action option"
  rd_canonical :: "simple_kind option"

datatype ignored_reason = IgnoredComment | IgnoredRegex | IgnoredUnsupported | IgnoredInvalid

datatype parsed_rule = Block rule_data | Allow rule_data | Ignored ignored_reason | Disable

record modifiers =
  m_important :: bool
  m_badfilter :: bool
  m_query_types :: query_types
  m_denyallow :: "string list"
  m_dnsrewrite :: "dns_rewrite_action option"

definition default_modifiers :: modifiers where
  "default_modifiers = \<lparr>m_important = False, m_badfilter = False, m_query_types = AnyType,
     m_denyallow = [], m_dnsrewrite = None\<rparr>"

section \<open>Query types\<close>

fun query_types_match :: "query_types \<Rightarrow> u16 \<Rightarrow> bool" where
  "query_types_match AnyType qt = True"
| "query_types_match (IncludeTypes ts) qt = (qt \<in> set ts)"
| "query_types_match (ExcludeTypes ts) qt = (qt \<notin> set ts)"

definition query_type_names :: "(string \<times> u16) list" where
  "query_type_names =
     [(''A'', 1), (''NS'', 2), (''CNAME'', 5), (''SOA'', 6), (''PTR'', 12), (''MX'', 15),
      (''TXT'', 16), (''AAAA'', 28), (''SRV'', 33), (''NAPTR'', 35), (''DS'', 43),
      (''RRSIG'', 46), (''NSEC'', 47), (''DNSKEY'', 48), (''TLSA'', 52), (''SVCB'', 64),
      (''HTTPS'', 65), (''CAA'', 257), (''ANY'', 255)]"

definition query_type_number :: "string \<Rightarrow> u16 option" where
  "query_type_number value =
     (let v = to_upper value
      in case map_of query_type_names v of
           Some n \<Rightarrow> Some n
         | None \<Rightarrow> (case parse_u16 v of None \<Rightarrow> None | Some n \<Rightarrow> if 0 < n then Some n else None))"

fun parse_types :: "bool \<Rightarrow> string list \<Rightarrow> u16 list option" where
  "parse_types excluded [] = Some []"
| "parse_types excluded (v # vs) =
     (if starts_with ''~'' v \<noteq> excluded then None
      else (case query_type_number (trim_start_matches (CHR ''~'') v) of
          None \<Rightarrow> None
        | Some n \<Rightarrow> map_option (\<lambda>ns. n # ns) (parse_types excluded vs)))"

definition parse_query_types :: "string \<Rightarrow> query_types option" where
  "parse_query_types raw =
     (let vs = split_on (CHR ''|'') raw;
          excluded = starts_with ''~'' (hd vs)
      in map_option (\<lambda>ts. if excluded then ExcludeTypes ts else IncludeTypes ts)
           (parse_types excluded vs))"

section \<open>Modifiers\<close>

definition rcode_number :: "string \<Rightarrow> u8 option" where
  "rcode_number value =
     map_of [(''NOERROR'', 0), (''FORMERR'', 1), (''SERVFAIL'', 2), (''NXDOMAIN'', 3),
             (''NOTIMP'', 4), (''REFUSED'', 5)] (to_upper value)"

definition parse_cname :: "string \<Rightarrow> dns_rewrite_action option" where
  "parse_cname value = do {
     d \<leftarrow> normalize_domain value;
     _ \<leftarrow> encode_dns_name d;
     Some (Cname d) }"

definition parse_dnsrewrite_short :: "string \<Rightarrow> dns_rewrite_action option" where
  "parse_dnsrewrite_short value =
     (case rcode_number value of
        Some rc \<Rightarrow> Some (RCode rc)
      | None \<Rightarrow> (case parse_ip value of Some a \<Rightarrow> Some (Address a) | None \<Rightarrow> parse_cname value))"

definition parse_dnsrewrite_record :: "u16 \<Rightarrow> string \<Rightarrow> dns_rewrite_action option" where
  "parse_dnsrewrite_record rtype value =
     (if rtype = TYPE_A then map_option (\<lambda>a. Address (IpV4 a)) (parse_ipv4 value)
      else if rtype = TYPE_AAAA then map_option (\<lambda>a. Address (IpV6 a)) (parse_ipv6 value)
      else if rtype = TYPE_CNAME then parse_cname value
      else if rtype \<in> {TYPE_PTR, TYPE_MX, TYPE_TXT, TYPE_SRV}
      then map_option (\<lambda>_. Record rtype value) (encode_rewrite_rdata rtype value rtype)
      else None)"

definition parse_dnsrewrite :: "string \<Rightarrow> dns_rewrite_action option" where
  "parse_dnsrewrite raw0 =
     (let raw = trim raw0; parts = split_on (CHR '';'') raw
      in if raw = [] then None
         else if length parts = 1 then parse_dnsrewrite_short (trim (parts ! 0))
         else (case rcode_number (trim (parts ! 0)) of
             None \<Rightarrow> None
           | Some rcode \<Rightarrow>
               let rt = trim (parts ! 1)
               in if rt = [] then Some (RCode rcode)
                  else if rcode \<noteq> 0 then None
                  else (let value = trim (join '';'' (drop 2 parts))
                        in if value = [] then None
                           else (case query_type_number rt of
                               None \<Rightarrow> None
                             | Some rtype \<Rightarrow> parse_dnsrewrite_record rtype value))))"

definition strip_prefix_ignore_ascii_case :: "string \<Rightarrow> string \<Rightarrow> string option" where
  "strip_prefix_ignore_ascii_case value pre =
     (if length pre \<le> length value \<and> eq_ignore_case (take (length pre) value) pre
      then Some (drop (length pre) value) else None)"

fun normalize_all :: "string list \<Rightarrow> string list option" where
  "normalize_all [] = Some []"
| "normalize_all (v # vs) =
     (case normalize_domain v of
        None \<Rightarrow> None
      | Some d \<Rightarrow> map_option (\<lambda>ds. d # ds) (normalize_all vs))"

definition parse_modifier :: "modifiers \<Rightarrow> string \<Rightarrow> modifiers option" where
  "parse_modifier m modifier =
     (case strip_prefix_ignore_ascii_case modifier ''dnsrewrite='' of
        Some value \<Rightarrow> map_option (\<lambda>a. m\<lparr>m_dnsrewrite := Some a\<rparr>) (parse_dnsrewrite value)
      | None \<Rightarrow>
          let lower = to_lower modifier
          in if lower = ''important'' then Some (m\<lparr>m_important := True\<rparr>)
             else if lower = ''badfilter'' then Some (m\<lparr>m_badfilter := True\<rparr>)
             else (case strip_prefix ''dnstype='' lower of
                 Some value \<Rightarrow> map_option (\<lambda>q. m\<lparr>m_query_types := q\<rparr>) (parse_query_types value)
               | None \<Rightarrow>
                   (case strip_prefix ''denyallow='' lower of
                      Some value \<Rightarrow>
                        (case normalize_all (split_on (CHR ''|'') value) of
                           None \<Rightarrow> None
                         | Some ds \<Rightarrow> if ds = [] then None else Some (m\<lparr>m_denyallow := ds\<rparr>))
                    | None \<Rightarrow> None)))"

fun parse_modifier_list :: "modifiers \<Rightarrow> string list \<Rightarrow> modifiers option" where
  "parse_modifier_list m [] = Some m"
| "parse_modifier_list m (x # xs) =
     (case parse_modifier m x of None \<Rightarrow> None | Some m' \<Rightarrow> parse_modifier_list m' xs)"

definition parse_modifiers :: "string \<Rightarrow> modifiers option" where
  "parse_modifiers raw =
     (if raw = [] then Some default_modifiers
      else parse_modifier_list default_modifiers (split_on (CHR '','') raw))"

section \<open>Patterns\<close>

definition is_regex_pattern :: "string \<Rightarrow> bool" where
  "is_regex_pattern pattern = (starts_with ''/'' pattern \<and> ends_with ''/'' pattern)"

definition new_rule :: "string \<Rightarrow> bool \<Rightarrow> rule_type \<Rightarrow> rule_data" where
  "new_rule d incl rt = \<lparr>rd_domain = d, rd_include_subdomains = incl, rd_raw = [],
     rd_rule_type = rt, rd_important = False, rd_query_types = AnyType, rd_denyallow = [],
     rd_dnsrewrite = None, rd_canonical = None\<rparr>"

definition parse_pattern :: "string \<Rightarrow> rule_data option" where
  "parse_pattern pattern =
     (if is_regex_pattern pattern then None
      else (case strip_prefix ''||'' pattern of
          Some rest \<Rightarrow>
            map_option (\<lambda>d. new_rule d True SuffixRule)
              (normalize_domain (trim_end_matches (CHR ''|'') (trim_end_matches (CHR ''^'') rest)))
        | None \<Rightarrow>
            let stripped = trim_end_matches (CHR ''^'') (trim_matches (CHR ''|'') pattern);
                incl = starts_with ''*.'' pattern;
                d = (case strip_prefix ''*.'' stripped of Some r \<Rightarrow> r | None \<Rightarrow> stripped)
            in map_option (\<lambda>d. new_rule d incl (if incl then SuffixRule else ExactRule))
                 (normalize_domain d)))"

definition ignored_pattern_reason :: "string \<Rightarrow> ignored_reason" where
  "ignored_pattern_reason pattern =
     (if is_regex_pattern pattern then IgnoredRegex else IgnoredInvalid)"

fun canonical_rule_text :: "simple_kind \<Rightarrow> string \<Rightarrow> bool \<Rightarrow> string" where
  "canonical_rule_text SuffixKind d allow = (if allow then ''@@'' else []) @ ''||'' @ d @ ''^''"
| "canonical_rule_text ExactPlain d allow = (if allow then ''@@'' else []) @ d"
| "canonical_rule_text HostsZero4 d allow = ''0.0.0.0 '' @ d"
| "canonical_rule_text HostsLocal4 d allow = ''127.0.0.1 '' @ d"
| "canonical_rule_text HostsZero6 d allow = '':: '' @ d"
| "canonical_rule_text HostsLocal6 d allow = ''::1 '' @ d"

fun canonical_rest :: "simple_kind \<Rightarrow> string \<Rightarrow> string \<Rightarrow> bool" where
  "canonical_rest SuffixKind rest d =
     (Option.bind (strip_prefix ''||'' rest) (strip_suffix ''^'') = Some d)"
| "canonical_rest ExactPlain rest d = (rest = d)"
| "canonical_rest HostsZero4 rest d = (strip_prefix ''0.0.0.0 '' rest = Some d)"
| "canonical_rest HostsLocal4 rest d = (strip_prefix ''127.0.0.1 '' rest = Some d)"
| "canonical_rest HostsZero6 rest d = (strip_prefix '':: '' rest = Some d)"
| "canonical_rest HostsLocal6 rest d = (strip_prefix ''::1 '' rest = Some d)"

definition is_canonical_rule_text :: "string \<Rightarrow> simple_kind \<Rightarrow> string \<Rightarrow> bool \<Rightarrow> bool" where
  "is_canonical_rule_text line kind d allow =
     (if allow
      then (case strip_prefix ''@@'' line of Some rest \<Rightarrow> canonical_rest kind rest d | None \<Rightarrow> False)
      else canonical_rest kind line d)"

section \<open>Lines\<close>

definition apply_modifiers :: "string \<Rightarrow> modifiers \<Rightarrow> rule_data \<Rightarrow> rule_data" where
  "apply_modifiers line m rule = rule\<lparr>rd_raw := line, rd_important := m_important m,
     rd_query_types := m_query_types m, rd_denyallow := m_denyallow m,
     rd_dnsrewrite := m_dnsrewrite m\<rparr>"

definition mark_canonical :: "string \<Rightarrow> bool \<Rightarrow> rule_data \<Rightarrow> rule_data" where
  "mark_canonical line allow rule =
     (if \<not> rd_important rule \<and> rd_query_types rule = AnyType \<and> rd_denyallow rule = [] \<and>
         rd_dnsrewrite rule = None
      then (let kind = (case rd_rule_type rule of SuffixRule \<Rightarrow> SuffixKind | _ \<Rightarrow> ExactPlain)
            in rule\<lparr>rd_canonical :=
                 if is_canonical_rule_text line kind (rd_domain rule) allow then Some kind else None\<rparr>)
      else rule)"

definition parse_filter_rule :: "string \<Rightarrow> parsed_rule" where
  "parse_filter_rule line =
     (let (allow, rest) = (case strip_prefix ''@@'' line of Some v \<Rightarrow> (True, v) | None \<Rightarrow> (False, line));
          (pattern, mods) = (case split_once (CHR ''$'') rest of Some pm \<Rightarrow> pm | None \<Rightarrow> (rest, []))
      in case parse_modifiers mods of
           None \<Rightarrow> Ignored IgnoredUnsupported
         | Some m \<Rightarrow>
             if m_badfilter m then Disable
             else (case parse_pattern (trim pattern) of
                 None \<Rightarrow> Ignored (ignored_pattern_reason (trim pattern))
               | Some rule0 \<Rightarrow>
                   let rule = apply_modifiers line m rule0
                   in if allow \<and> rd_dnsrewrite rule \<noteq> None then Ignored IgnoredUnsupported
                      else if allow then Allow (mark_canonical line allow rule)
                      else Block (mark_canonical line allow rule)))"

definition is_comment :: "string \<Rightarrow> bool" where
  "is_comment trimmed = (trimmed = [] \<or> starts_with ''#'' trimmed \<or> starts_with ''!'' trimmed)"

definition parse_rule :: "string \<Rightarrow> parsed_rule" where
  "parse_rule line =
     (let trimmed = trim line
      in if is_comment trimmed then Ignored IgnoredComment else parse_filter_rule trimmed)"

definition hosts_kind :: "string \<Rightarrow> simple_kind option" where
  "hosts_kind ip =
     (if ip = ''0.0.0.0'' then Some HostsZero4
      else if ip = ''127.0.0.1'' then Some HostsLocal4
      else if ip = ''::'' then Some HostsZero6
      else if ip = ''::1'' then Some HostsLocal6
      else None)"

definition parse_hosts_rules :: "string \<Rightarrow> (simple_kind \<times> string option list) option" where
  "parse_hosts_rules line =
     (case split_whitespace line of
        [] \<Rightarrow> None
      | ip # parts \<Rightarrow>
          (case hosts_kind ip of
             None \<Rightarrow> None
           | Some kind \<Rightarrow>
               let ds = map normalize_domain
                     (takeWhile (\<lambda>t. \<not> starts_with ''#'' t \<and> \<not> starts_with ''!'' t) parts)
               in Some (kind, if ds = [] then [None] else ds)))"

definition badfilter_target :: "string \<Rightarrow> string option" where
  "badfilter_target line =
     (case split_once (CHR ''$'') (trim line) of
        None \<Rightarrow> None
      | Some (pattern, mods) \<Rightarrow>
          let remaining = filter (\<lambda>m. \<not> eq_ignore_case m ''badfilter'') (split_on (CHR '','') mods)
          in if length remaining = length (split_on (CHR '','') mods) then None
             else if remaining = [] then Some pattern
             else Some (pattern @ ''$'' @ join '','' remaining))"

section \<open>The scan\<close>

definition SOURCE_MARKER_PREFIX :: string where
  "SOURCE_MARKER_PREFIX = ''! dnsblackhole-source:''"

datatype scan_event = SourceEvent string | RuleEvent parsed_rule

definition hosts_rule :: "string \<Rightarrow> simple_kind \<Rightarrow> bool \<Rightarrow> string option \<Rightarrow> parsed_rule" where
  "hosts_rule trimmed kind single d0 =
     (case d0 of
        None \<Rightarrow> Ignored IgnoredInvalid
      | Some d \<Rightarrow> Block \<lparr>rd_domain = d, rd_include_subdomains = False, rd_raw = trimmed,
          rd_rule_type = HostsRule, rd_important = False, rd_query_types = AnyType,
          rd_denyallow = [], rd_dnsrewrite = None,
          rd_canonical =
            (if single \<and> is_canonical_rule_text trimmed kind d False then Some kind else None)\<rparr>)"

definition scan_line :: "(string \<Rightarrow> string option) \<Rightarrow> string set \<Rightarrow> string \<Rightarrow> scan_event list" where
  "scan_line json disabled line =
     (let trimmed = trim line
      in case strip_prefix SOURCE_MARKER_PREFIX trimmed of
           Some encoded \<Rightarrow> (case json encoded of Some v \<Rightarrow> [SourceEvent v] | None \<Rightarrow> [])
         | None \<Rightarrow>
             if trimmed \<in> disabled then []
             else (case parse_hosts_rules trimmed of
                 Some (kind, ds) \<Rightarrow>
                   map (\<lambda>d. RuleEvent (hosts_rule trimmed kind (length ds = 1) d)) ds
               | None \<Rightarrow> [RuleEvent (parse_rule line)]))"

definition disabled_targets :: "string \<Rightarrow> string set" where
  "disabled_targets raw = set (List.map_filter badfilter_target (str_lines raw))"

definition scan_rules_with_disabled ::
  "(string \<Rightarrow> string option) \<Rightarrow> string \<Rightarrow> string set \<Rightarrow> scan_event list \<times> string set" where
  "scan_rules_with_disabled json raw extra =
     (let disabled = disabled_targets raw
      in (concat (map (scan_line json (disabled \<union> extra)) (str_lines raw)), disabled))"

definition scan_rules :: "(string \<Rightarrow> string option) \<Rightarrow> string \<Rightarrow> scan_event list" where
  "scan_rules json raw = fst (scan_rules_with_disabled json raw {})"

section \<open>Summaries\<close>

record rule_summary =
  block_rules :: nat
  allow_rules :: nat
  ignored_rules :: nat
  ignored_comment_rules :: nat
  ignored_regex_rules :: nat
  ignored_unsupported_rules :: nat
  ignored_invalid_rules :: nat

definition default_summary :: rule_summary where
  "default_summary = \<lparr>block_rules = 0, allow_rules = 0, ignored_rules = 0, ignored_comment_rules = 0,
     ignored_regex_rules = 0, ignored_unsupported_rules = 0, ignored_invalid_rules = 0\<rparr>"

fun count_rule :: "rule_summary \<Rightarrow> parsed_rule \<Rightarrow> rule_summary" where
  "count_rule s (Block _) = s\<lparr>block_rules := block_rules s + 1\<rparr>"
| "count_rule s (Allow _) = s\<lparr>allow_rules := allow_rules s + 1\<rparr>"
| "count_rule s (Ignored reason) =
     (let t = s\<lparr>ignored_rules := ignored_rules s + 1\<rparr>
      in case reason of
           IgnoredComment \<Rightarrow> t\<lparr>ignored_comment_rules := ignored_comment_rules t + 1\<rparr>
         | IgnoredRegex \<Rightarrow> t\<lparr>ignored_regex_rules := ignored_regex_rules t + 1\<rparr>
         | IgnoredUnsupported \<Rightarrow> t\<lparr>ignored_unsupported_rules := ignored_unsupported_rules t + 1\<rparr>
         | IgnoredInvalid \<Rightarrow> t\<lparr>ignored_invalid_rules := ignored_invalid_rules t + 1\<rparr>)"
| "count_rule s Disable = s"

definition count_event :: "rule_summary \<Rightarrow> scan_event \<Rightarrow> rule_summary" where
  "count_event s e = (case e of RuleEvent p \<Rightarrow> count_rule s p | SourceEvent _ \<Rightarrow> s)"

definition summarize_rules :: "(string \<Rightarrow> string option) \<Rightarrow> string \<Rightarrow> rule_summary" where
  "summarize_rules json raw = foldl count_event default_summary (scan_rules json raw)"

definition combined_summary :: "rule_summary \<Rightarrow> rule_summary \<Rightarrow> rule_summary" where
  "combined_summary b v =
     \<lparr>block_rules = block_rules b + block_rules v,
      allow_rules = allow_rules b + allow_rules v,
      ignored_rules = ignored_rules b + ignored_rules v,
      ignored_comment_rules = ignored_comment_rules b + ignored_comment_rules v,
      ignored_regex_rules = ignored_regex_rules b + ignored_regex_rules v,
      ignored_unsupported_rules = ignored_unsupported_rules b + ignored_unsupported_rules v,
      ignored_invalid_rules = ignored_invalid_rules b + ignored_invalid_rules v\<rparr>"

datatype severity = Warning | Error

record rule_line_diagnostic =
  diag_line :: nat
  diag_severity :: severity
  diag_reason :: ignored_reason

record rule_analysis =
  an_summary :: rule_summary
  an_disabled_rules :: nat
  an_diagnostics :: "rule_line_diagnostic list"

definition line_diagnostic ::
  "(string \<Rightarrow> string option) \<Rightarrow> nat \<times> string \<Rightarrow> rule_line_diagnostic option" where
  "line_diagnostic json il =
     (let s = summarize_rules json (snd il);
          mk = (\<lambda>sev r. Some \<lparr>diag_line = fst il + 1, diag_severity = sev, diag_reason = r\<rparr>)
      in if 0 < ignored_regex_rules s then mk Warning IgnoredRegex
         else if 0 < ignored_unsupported_rules s then mk Warning IgnoredUnsupported
         else if 0 < ignored_invalid_rules s then mk Error IgnoredInvalid
         else None)"

definition analyze_rules :: "(string \<Rightarrow> string option) \<Rightarrow> string \<Rightarrow> rule_analysis" where
  "analyze_rules json raw =
     \<lparr>an_summary = summarize_rules json raw,
      an_disabled_rules = length (filter (\<lambda>l. badfilter_target l \<noteq> None) (str_lines raw)),
      an_diagnostics = List.map_filter (line_diagnostic json)
        (zip [0..<length (str_lines raw)] (str_lines raw))\<rparr>"

definition custom_rules_have_badfilter :: "string \<Rightarrow> bool" where
  "custom_rules_have_badfilter raw = list_ex (\<lambda>l. badfilter_target l \<noteq> None) (str_lines raw)"

end
