(* ===== verification/Rewrites.thy ===== *)
theory Rewrites
  imports NetAddr DomainName
begin

text \<open>
  \<open>dns/rewrites.rs\<close>: the local rewrite table, its compilation from the configured
  lines, the merge of the system hosts file, and \<open>DomainSet\<close> of \<open>dns/rules.rs\<close>
  (the names whose queries are not logged).  Both tables walk from a name to its
  parents and are interpreted as \<open>suffix_table\<close>.  Reading the hosts file is I/O;
  its contents are the argument of \<open>merge_hosts_file\<close>.
\<close>

section \<open>The table\<close>

record rewrite_target =
  rt_ipv4 :: "u32 option"
  rt_ipv6 :: "u128 option"

definition default_target :: rewrite_target where
  "default_target = \<lparr>rt_ipv4 = None, rt_ipv6 = None\<rparr>"

record compiled_rewrites =
  rw_exact :: "string \<rightharpoonup> rewrite_target"
  rw_wildcard :: "string \<rightharpoonup> rewrite_target"

definition default_rewrites :: compiled_rewrites where
  "default_rewrites = \<lparr>rw_exact = Map.empty, rw_wildcard = Map.empty\<rparr>"

definition rewrites_lookup :: "compiled_rewrites \<Rightarrow> string \<Rightarrow> rewrite_target option" where
  "rewrites_lookup t d =
     (case rw_exact t d of
        Some target \<Rightarrow> Some target
      | None \<Rightarrow>
          (case rw_wildcard t d of
             Some target \<Rightarrow> Some target
           | None \<Rightarrow> first_parent (rw_wildcard t) d))"

definition set_slot :: "rewrite_target \<Rightarrow> ip_addr \<Rightarrow> rewrite_target" where
  "set_slot target ip =
     (case ip of
        IpV4 a \<Rightarrow> target\<lparr>rt_ipv4 := Some a\<rparr>
      | IpV6 a \<Rightarrow> target\<lparr>rt_ipv6 := Some a\<rparr>)"

definition table_set :: "(string \<rightharpoonup> rewrite_target) \<Rightarrow> string \<Rightarrow> ip_addr \<Rightarrow> (string \<rightharpoonup> rewrite_target)" where
  "table_set m d ip =
     m(d \<mapsto> set_slot (case m d of Some target \<Rightarrow> target | None \<Rightarrow> default_target) ip)"

text \<open>One line of the configuration; a line that is skipped leaves the table alone.\<close>

definition rewrite_line :: "compiled_rewrites \<Rightarrow> string \<Rightarrow> compiled_rewrites" where
  "rewrite_line t line =
     (let trimmed = trim line
      in if trimmed = [] \<or> starts_with ''#'' trimmed \<or> starts_with ''!'' trimmed then t
         else (case split_whitespace trimmed of
             pattern # ip # _ \<Rightarrow>
               (case parse_ip ip of
                  None \<Rightarrow> t
                | Some a \<Rightarrow>
                    let (d0, wildcard) =
                          (case strip_prefix ''*.'' pattern of
                             Some rest \<Rightarrow> (rest, True) | None \<Rightarrow> (pattern, False));
                        d = to_lower (trim_end_matches (CHR ''.'') d0)
                    in if d = [] then t
                       else if wildcard then t\<lparr>rw_wildcard := table_set (rw_wildcard t) d a\<rparr>
                       else t\<lparr>rw_exact := table_set (rw_exact t) d a\<rparr>)
           | _ \<Rightarrow> t))"

definition compile_rewrites :: "string \<Rightarrow> compiled_rewrites" where
  "compile_rewrites raw = foldl rewrite_line default_rewrites (str_lines raw)"

section \<open>The hosts file\<close>

definition is_valid_hostname :: "string \<Rightarrow> bool" where
  "is_valid_hostname value =
     (value \<noteq> [] \<and> length value \<le> 253 \<and>
      list_all (\<lambda>l. l \<noteq> [] \<and> length l \<le> 63) (split_on (CHR ''.'') value) \<and>
      list_all domain_char value)"

definition fill_slot :: "rewrite_target \<Rightarrow> ip_addr \<Rightarrow> rewrite_target" where
  "fill_slot target ip =
     (case ip of
        IpV4 a \<Rightarrow> (if rt_ipv4 target = None then target\<lparr>rt_ipv4 := Some a\<rparr> else target)
      | IpV6 a \<Rightarrow> (if rt_ipv6 target = None then target\<lparr>rt_ipv6 := Some a\<rparr> else target))"

definition merge_host :: "ip_addr \<Rightarrow> compiled_rewrites \<Rightarrow> string \<Rightarrow> compiled_rewrites" where
  "merge_host ip t host0 =
     (let host = to_lower (trim_end_matches (CHR ''.'') host0)
      in if host = [] \<or> \<not> is_valid_hostname host then t
         else (let inherited = (case rewrites_lookup t host of Some x \<Rightarrow> x | None \<Rightarrow> default_target);
                   target = (case rw_exact t host of Some x \<Rightarrow> x | None \<Rightarrow> inherited)
               in t\<lparr>rw_exact := (rw_exact t)(host \<mapsto> fill_slot target ip)\<rparr>))"

definition merge_hosts_line :: "compiled_rewrites \<Rightarrow> string \<Rightarrow> compiled_rewrites" where
  "merge_hosts_line t line0 =
     (let line = trim (hd (split_on (CHR ''#'') line0))
      in if line = [] then t
         else (case split_whitespace line of
             [] \<Rightarrow> t
           | ip # hosts \<Rightarrow>
               (case parse_ip ip of None \<Rightarrow> t | Some a \<Rightarrow> foldl (merge_host a) t hosts)))"

definition merge_hosts_file :: "compiled_rewrites \<Rightarrow> string \<Rightarrow> compiled_rewrites" where
  "merge_hosts_file t contents = foldl merge_hosts_line t (str_lines contents)"

section \<open>Sets of names\<close>

definition domain_set_contains :: "string set \<Rightarrow> string \<Rightarrow> bool" where
  "domain_set_contains domains d =
     (if domains = {} then False
      else if d \<in> domains then True
      else first_parent (\<lambda>k. if k \<in> domains then Some () else None) d \<noteq> None)"

definition domain_set_line :: "string \<Rightarrow> string option" where
  "domain_set_line line =
     (let trimmed = trim line
      in if trimmed = [] \<or> starts_with ''#'' trimmed \<or> starts_with ''!'' trimmed then None
         else normalize_domain
           (case strip_prefix ''*.'' trimmed of Some rest \<Rightarrow> rest | None \<Rightarrow> trimmed))"

definition compile_domain_set :: "string \<Rightarrow> string set" where
  "compile_domain_set raw = set (List.map_filter domain_set_line (str_lines raw))"

section \<open>Lookups\<close>

interpretation wildcards: suffix_table rw_wildcard
    "\<lambda>t d. (case rw_wildcard t d of Some v \<Rightarrow> Some v | None \<Rightarrow> first_parent (rw_wildcard t) d)"
  by unfold_locales simp

lemma domain_set_walk:
  "(if domain_set_contains ds d then Some () else None) =
    (case (if d \<in> ds then Some () else None) of Some v \<Rightarrow> Some v
     | None \<Rightarrow> first_parent (\<lambda>k. if k \<in> ds then Some () else None) d)"
proof (cases "ds = {}")
  case True
  then have "first_parent (\<lambda>k. if k \<in> ds then Some () else None) d = None"
    by (simp add: first_parent_None)
  then show ?thesis using True by (simp add: domain_set_contains_def)
next
  case False
  then show ?thesis
    by (cases "first_parent (\<lambda>k. if k \<in> ds then Some () else None) d")
      (simp_all add: domain_set_contains_def)
qed

interpretation names: suffix_table "\<lambda>domains k. if k \<in> domains then Some () else None"
    "\<lambda>domains d. if domain_set_contains domains d then Some () else None"
  by unfold_locales (rule domain_set_walk)

lemma domain_set_contains_iff:
  "domain_set_contains domains d \<longleftrightarrow> (\<exists>s \<in> domains. domain_matches d s)"
  using names.walk_None_iff[of domains d] by (auto simp: domain_matches_iff split: if_splits)

lemma lookup_exact: "rw_exact t d = Some x \<Longrightarrow> rewrites_lookup t d = Some x"
  by (simp add: rewrites_lookup_def)

lemma lookup_wildcard:
  "rw_exact t d = None \<Longrightarrow> rewrites_lookup t d =
    (case rw_wildcard t d of Some v \<Rightarrow> Some v | None \<Rightarrow> first_parent (rw_wildcard t) d)"
  by (simp add: rewrites_lookup_def)

lemma rewrites_lookup_None:
  "rewrites_lookup t d = None \<longleftrightarrow>
    rw_exact t d = None \<and> (\<forall>s. domain_matches d s \<longrightarrow> rw_wildcard t s = None)"
  using wildcards.walk_None_iff[of t d]
  by (auto simp: rewrites_lookup_def domain_matches_iff split: option.splits)

text \<open>A table answers at least what another one does: every filled slot keeps its address.\<close>

definition target_le :: "rewrite_target \<Rightarrow> rewrite_target \<Rightarrow> bool" where
  "target_le x y \<longleftrightarrow>
     (rt_ipv4 x \<noteq> None \<longrightarrow> rt_ipv4 y = rt_ipv4 x) \<and> (rt_ipv6 x \<noteq> None \<longrightarrow> rt_ipv6 y = rt_ipv6 x)"

definition rewrites_le :: "compiled_rewrites \<Rightarrow> compiled_rewrites \<Rightarrow> bool" where
  "rewrites_le s t \<longleftrightarrow>
     (\<forall>d x. rewrites_lookup s d = Some x \<longrightarrow> (\<exists>y. rewrites_lookup t d = Some y \<and> target_le x y))"

lemma target_le_trans: "target_le x y \<Longrightarrow> target_le y z \<Longrightarrow> target_le x z"
  by (auto simp: target_le_def)

lemma rewrites_le_refl [simp]: "rewrites_le t t"
  by (auto simp: rewrites_le_def target_le_def)

lemma rewrites_le_trans: "rewrites_le s t \<Longrightarrow> rewrites_le t u \<Longrightarrow> rewrites_le s u"
  unfolding rewrites_le_def by (meson target_le_trans)

lemma rewrites_le_foldl: "(\<And>t x. rewrites_le t (f t x)) \<Longrightarrow> rewrites_le t (foldl f t xs)"
  by (induction xs arbitrary: t) (auto intro: rewrites_le_trans)

lemma fill_slot_le: "target_le x (fill_slot x ip)"
  by (auto simp: fill_slot_def target_le_def split: ip_addr.splits)

lemma merge_host_lookup:
  assumes "host = to_lower (trim_end_matches (CHR ''.'') h)" and "host \<noteq> []" and "is_valid_hostname host"
  shows "rewrites_lookup (merge_host ip t h) d =
    (if d = host
     then Some (fill_slot (case rewrites_lookup t host of Some x \<Rightarrow> x | None \<Rightarrow> default_target) ip)
     else rewrites_lookup t d)"
  using assms
  by (auto simp: merge_host_def Let_def rewrites_lookup_def split: option.splits)

lemma merge_host_le: "rewrites_le t (merge_host ip t h)"
proof (cases "to_lower (trim_end_matches (CHR ''.'') h) = [] \<or>
    \<not> is_valid_hostname (to_lower (trim_end_matches (CHR ''.'') h))")
  case True
  then show ?thesis by (simp add: merge_host_def Let_def)
next
  case False
  then show ?thesis
    using fill_slot_le by (auto simp: rewrites_le_def merge_host_lookup target_le_def)
qed

lemma merge_hosts_line_le: "rewrites_le t (merge_hosts_line t line)"
  by (auto simp: merge_hosts_line_def Let_def intro: rewrites_le_foldl merge_host_le
      split: list.splits option.splits)

section \<open>Properties\<close>

text \<open>The system hosts file never overrides a configured rewrite: every address the table
  answers before the merge, through an exact or through a wildcard entry, is answered after it.\<close>

theorem hosts_file_keeps_rewrites:
  "rewrites_le t (merge_hosts_file t contents)"
  unfolding merge_hosts_file_def by (rule rewrites_le_foldl[OF merge_hosts_line_le])

text \<open>A name is in a compiled set of names exactly when the name, or one of its parents, is a
  line of the set.\<close>

lemma domain_set_matches:
  "domain_set_contains (compile_domain_set raw) d \<longleftrightarrow>
    (\<exists>line s. line \<in> set (str_lines raw) \<and> domain_set_line line = Some s \<and> domain_matches d s)"
  by (auto simp: domain_set_contains_iff compile_domain_set_def List.map_filter_def)

end
