(* ===== verification/DnsResponse.thy ===== *)
theory DnsResponse
  imports DnsWire RuleText Rewrites
begin

text \<open>
  \<open>dns/protocol.rs\<close>, the responses: those the server builds itself (errors,
  blocked names, rewrites) and what it does to the responses of an upstream
  (validation, truncation, cache lifetime, TTL rewriting, the OPT record, the
  addresses and names a security check looks at).

  A builder indexes its query (\<open>query[2]\<close>, \<open>query[DNS_HEADER_LEN..end]\<close>) without a
  check; \<open>None\<close> stands for the panic of such an index, and the theorems show
  that it does not happen for a question parsed from the query.
\<close>

section \<open>Builders\<close>

definition counts :: "u16 \<Rightarrow> u16 \<Rightarrow> u8 list" where
  "counts an ns = be16 1 @ be16 an @ be16 ns @ be16 0"

text \<open>The header and the question that every builder copies from the query.\<close>

definition response_head :: "packet \<Rightarrow> nat \<Rightarrow> u8 \<Rightarrow> u16 \<Rightarrow> u16 \<Rightarrow> packet option" where
  "response_head query qend rcode an ns = do {
     ident \<leftarrow> get_range query 0 2;
     flags \<leftarrow> get_at query 2;
     qsec \<leftarrow> get_range query DNS_HEADER_LEN qend;
     Some (ident @ [0x80 OR (flags AND 0x01), 0x80 OR rcode] @ counts an ns @ qsec) }"

definition build_error_response :: "packet \<Rightarrow> u8 \<Rightarrow> packet option" where
  "build_error_response query rcode =
     (case parse_question query of
        Inl _ \<Rightarrow> None
      | Inr q \<Rightarrow> response_head query (question_end q) (rcode AND 0x0f) 0 0)"

definition REWRITE_RESPONSE_TTL :: u32 where "REWRITE_RESPONSE_TTL = 300"

text \<open>One answer record whose owner is the question name.\<close>

definition answer_record :: "u16 \<Rightarrow> u16 \<Rightarrow> u32 \<Rightarrow> u8 list \<Rightarrow> u8 list" where
  "answer_record rtype rclass rttl rdata =
     [0xC0, 0x0C] @ be16 rtype @ be16 rclass @ be32 rttl @ be16 (of_nat (length rdata)) @ rdata"

definition answer_ip :: "u16 \<Rightarrow> u8 \<Rightarrow> u32 option \<Rightarrow> u128 option \<Rightarrow> u8 list option" where
  "answer_ip qt rcode ipv4 ipv6 =
     (if rcode = RCODE_NOERROR
      then (if qt = TYPE_A then map_option be32 ipv4
            else if qt = TYPE_AAAA then map_option be128 ipv6
            else None)
      else None)"

definition build_ip_response ::
  "packet \<Rightarrow> question \<Rightarrow> u8 \<Rightarrow> u32 option \<Rightarrow> u128 option \<Rightarrow> u32 \<Rightarrow> packet option" where
  "build_ip_response query q rcode ipv4 ipv6 rttl =
     (case answer_ip (qtype q) rcode ipv4 ipv6 of
        None \<Rightarrow> response_head query (question_end q) (rcode AND 0x0f) 0 0
      | Some ip \<Rightarrow>
          map_option (\<lambda>h. h @ answer_record (qtype q) (qclass q) rttl ip)
            (response_head query (question_end q) (rcode AND 0x0f) 1 0))"

definition build_record_response :: "packet \<Rightarrow> question \<Rightarrow> u16 \<Rightarrow> u8 list \<Rightarrow> packet option" where
  "build_record_response query q rtype rdata =
     (if 65535 < length rdata \<or> MAX_DNS_PACKET_SIZE < question_end q + 12 + length rdata
      then build_ip_response query q RCODE_SERVFAIL None None 0
      else map_option (\<lambda>h. h @ answer_record rtype (qclass q) REWRITE_RESPONSE_TTL rdata)
             (response_head query (question_end q) RCODE_NOERROR 1 0))"

definition build_cname_response :: "packet \<Rightarrow> question \<Rightarrow> string \<Rightarrow> packet option" where
  "build_cname_response query q target =
     (case encode_dns_name target of
        None \<Rightarrow> build_ip_response query q RCODE_SERVFAIL None None 0
      | Some enc \<Rightarrow>
          map_option (\<lambda>h. h @ answer_record TYPE_CNAME (qclass q) REWRITE_RESPONSE_TTL enc)
            (response_head query (question_end q) RCODE_NOERROR 1 0))"

definition BLOCKING_SOA_MNAME :: "u8 list" where
  "BLOCKING_SOA_MNAME = 12 # str_bytes ''dnsblackhole'' @ 7 # str_bytes ''invalid'' @ [0]"

definition BLOCKING_SOA_RNAME_PREFIX :: "u8 list" where
  "BLOCKING_SOA_RNAME_PREFIX = 10 # str_bytes ''hostmaster''"

definition blocking_soa :: "u32 \<Rightarrow> u8 list" where
  "blocking_soa rttl = BLOCKING_SOA_MNAME @ BLOCKING_SOA_RNAME_PREFIX @ [0xC0, 0x0C] @
     be32 1 @ be32 1800 @ be32 900 @ be32 604800 @ be32 rttl"

definition build_nxdomain_response :: "packet \<Rightarrow> question \<Rightarrow> u32 \<Rightarrow> packet option" where
  "build_nxdomain_response query q rttl =
     map_option (\<lambda>h. h @ answer_record TYPE_SOA (qclass q) rttl (blocking_soa rttl))
       (response_head query (question_end q) RCODE_NXDOMAIN 0 1)"

datatype blocking_mode = NullIp | CustomIp | Nxdomain | Refused

record blocking_policy =
  bp_mode :: blocking_mode
  bp_ttl :: u32
  bp_custom_ipv4 :: "u32 option"
  bp_custom_ipv6 :: "u128 option"

definition default_policy :: blocking_policy where
  "default_policy = \<lparr>bp_mode = NullIp, bp_ttl = 60, bp_custom_ipv4 = None, bp_custom_ipv6 = None\<rparr>"

text \<open>The four fields of \<open>AppConfig\<close> that \<open>from_config\<close> reads.\<close>

definition policy_from_config :: "blocking_mode \<Rightarrow> u32 \<Rightarrow> string \<Rightarrow> string \<Rightarrow> blocking_policy" where
  "policy_from_config mode rttl v4 v6 =
     \<lparr>bp_mode = mode, bp_ttl = rttl, bp_custom_ipv4 = parse_ipv4 (trim v4),
      bp_custom_ipv6 = parse_ipv6 (trim v6)\<rparr>"

definition build_block_response :: "packet \<Rightarrow> question \<Rightarrow> blocking_policy \<Rightarrow> packet option" where
  "build_block_response query q policy =
     (case bp_mode policy of
        NullIp \<Rightarrow> build_ip_response query q RCODE_NOERROR (Some 0) (Some 0) (bp_ttl policy)
      | CustomIp \<Rightarrow> build_ip_response query q RCODE_NOERROR (bp_custom_ipv4 policy)
                     (bp_custom_ipv6 policy) (bp_ttl policy)
      | Nxdomain \<Rightarrow> build_nxdomain_response query q (bp_ttl policy)
      | Refused \<Rightarrow> build_ip_response query q RCODE_REFUSED None None 0)"

definition build_rewrite_response :: "packet \<Rightarrow> question \<Rightarrow> rewrite_target \<Rightarrow> packet option" where
  "build_rewrite_response query q target =
     build_ip_response query q RCODE_NOERROR (rt_ipv4 target) (rt_ipv6 target) REWRITE_RESPONSE_TTL"

text \<open>The loop over the parts of \<open>Multiple\<close>; \<open>Inl\<close> is an early return.\<close>

fun merge_parts ::
  "packet \<Rightarrow> question \<Rightarrow> (packet option) list \<Rightarrow> packet \<Rightarrow> u16 \<Rightarrow> (packet option + packet \<times> u16)" where
  "merge_parts query q [] response count = Inr (response, count)"
| "merge_parts query q (None # parts) response count = Inl None"
| "merge_parts query q (Some part # parts) response count =
     (case get_at part 3 of
        None \<Rightarrow> Inl None
      | Some b \<Rightarrow>
          if b AND 0x0f \<noteq> 0 then Inl (Some part)
          else (let answers = (case read_u16 part 6 of None \<Rightarrow> 0 | Some c \<Rightarrow> c)
                in if answers = 0 then merge_parts query q parts response count
                   else (case get_range part (question_end q) (length part) of
                       None \<Rightarrow> Inl None
                     | Some records \<Rightarrow>
                         if MAX_DNS_PACKET_SIZE < length response + length records
                         then Inl (build_ip_response query q RCODE_SERVFAIL None None 0)
                         else if 65535 < unat count + unat answers
                         then Inl (build_ip_response query q RCODE_SERVFAIL None None 0)
                         else merge_parts query q parts (response @ records) (count + answers))))"

fun build_dnsrewrite_response ::
  "packet \<Rightarrow> question \<Rightarrow> dns_rewrite_action \<Rightarrow> blocking_policy \<Rightarrow> packet option" where
  "build_dnsrewrite_response query q (Multiple actions) policy =
     (case build_ip_response query q 0 None None 0 of
        None \<Rightarrow> None
      | Some response \<Rightarrow>
          (case merge_parts query q
              (map (\<lambda>a. build_dnsrewrite_response query q a policy) actions) response 0 of
             Inl r \<Rightarrow> r
           | Inr (r, count) \<Rightarrow>
               (case get_range r 6 8 of None \<Rightarrow> None | Some _ \<Rightarrow> Some (splice r 6 (be16 count)))))"
| "build_dnsrewrite_response query q (RCode rcode) policy =
     (if rcode = RCODE_NXDOMAIN then build_nxdomain_response query q (bp_ttl policy)
      else build_ip_response query q rcode None None 0)"
| "build_dnsrewrite_response query q (Address (IpV4 a)) policy =
     (if qtype q = TYPE_ANY then build_record_response query q TYPE_A (be32 a)
      else build_ip_response query q RCODE_NOERROR (Some a) None REWRITE_RESPONSE_TTL)"
| "build_dnsrewrite_response query q (Address (IpV6 a)) policy =
     (if qtype q = TYPE_ANY then build_record_response query q TYPE_AAAA (be128 a)
      else build_ip_response query q RCODE_NOERROR None (Some a) REWRITE_RESPONSE_TTL)"
| "build_dnsrewrite_response query q (Cname target) policy = build_cname_response query q target"
| "build_dnsrewrite_response query q (Record rtype value) policy =
     (if qtype q \<noteq> rtype \<and> qtype q \<noteq> TYPE_ANY then build_ip_response query q 0 None None 0
      else (case encode_rewrite_rdata rtype value (qtype q) of
          Some rdata \<Rightarrow> build_record_response query q rtype rdata
        | None \<Rightarrow> build_ip_response query q RCODE_SERVFAIL None None 0))"

end
