(* ===== verification/AppConfig.thy ===== *)
theory AppConfig
  imports DnsResponse
begin

text \<open>
  \<open>config.rs\<close>: the configuration record and its defaults.  The fields are those of
  the struct, in its order, with the prefix \<open>ac\<close>; the attributes of the
  serialisation library, which pick a default for an absent field, are not modelled.
  A string with characters outside ASCII is the list of its UTF-8 bytes.
\<close>

datatype upstream_mode = LoadBalance | ParallelRequests | FastestAddr

datatype filter_proxy_mode = SystemProxy | DirectProxy | CustomProxy

record filter_subscription =
  fs_id :: string
  fs_name :: string
  fs_url :: string
  fs_enabled :: bool
  fs_rule_count :: nat
  fs_block_rule_count :: nat
  fs_allow_rule_count :: nat
  fs_ignored_rule_count :: nat
  fs_ignored_comment_count :: nat
  fs_ignored_regex_count :: nat
  fs_ignored_unsupported_count :: nat
  fs_ignored_invalid_count :: nat
  fs_last_updated :: "u64 option"
  fs_last_error :: "string option"

record app_config =
  ac_schema_version :: u32
  ac_enabled :: bool
  ac_use_filters :: bool
  ac_listen_host :: string
  ac_listen_port :: u16
  ac_listen_ipv6 :: bool
  ac_listen_ipv6_host :: string
  ac_upstream_dns :: string
  ac_fallback_dns :: string
  ac_bootstrap_dns :: string
  ac_upstream_mode :: upstream_mode
  ac_dnssec_enabled :: bool
  ac_domain_upstream_rules :: string
  ac_client_upstream_rules :: string
  ac_client_filtering_rules :: string
  ac_client_policy_groups :: string
  ac_family_safe_search :: bool
  ac_family_blocked_services :: string
  ac_allowed_clients :: string
  ac_blocked_clients :: string
  ac_rate_limit_per_second :: u32
  ac_refuse_any :: bool
  ac_filter_update_interval_hours :: u32
  ac_filter_max_size_mb :: u32
  ac_filter_proxy_mode :: filter_proxy_mode
  ac_filter_proxy_url :: string
  ac_filter_system_proxy_url :: string
  ac_allow_insecure_http :: bool
  ac_query_log_enabled :: bool
  ac_anonymize_client_ip :: bool
  ac_launch_at_startup :: bool
  ac_query_log_retention_hours :: u32
  ac_statistics_enabled :: bool
  ac_statistics_retention_hours :: u32
  ac_security_event_retention_hours :: u32
  ac_system_hosts_enabled :: bool
  ac_dns_cache_enabled :: bool
  ac_dns_cache_size :: nat
  ac_dns_cache_min_ttl :: u32
  ac_dns_cache_max_ttl :: u32
  ac_dns_cache_optimistic :: bool
  ac_dns_cache_optimistic_max_stale_seconds :: u32
  ac_dns_cache_prefetch_enabled :: bool
  ac_dns_cache_prefetch_hit_threshold :: u32
  ac_runtime_watchdog_enabled :: bool
  ac_runtime_watchdog_interval_seconds :: u64
  ac_monitoring_api_enabled :: bool
  ac_monitoring_api_listen_host :: string
  ac_monitoring_api_port :: u16
  ac_monitoring_api_token :: string
  ac_web_admin_session_idle_minutes :: u32
  ac_web_admin_secure_cookie :: bool
  ac_blocking_mode :: blocking_mode
  ac_blocking_response_ttl :: u32
  ac_blocking_custom_ipv4 :: string
  ac_blocking_custom_ipv6 :: string
  ac_rebinding_protection_enabled :: bool
  ac_rebinding_allowed_domains :: string
  ac_cname_cloaking_enabled :: bool
  ac_private_reverse_dns_enabled :: bool
  ac_dns_rewrites :: string
  ac_client_names :: string
  ac_query_log_ignored_domains :: string
  ac_statistics_ignored_domains :: string
  ac_filters :: "filter_subscription list"
  ac_blacklist :: string

definition CURRENT_CONFIG_SCHEMA_VERSION :: u32 where "CURRENT_CONFIG_SCHEMA_VERSION = 19"

definition DEFAULT_ADGUARD_DNS_FILTER_URL :: string where
  "DEFAULT_ADGUARD_DNS_FILTER_URL =
     ''https://adguardteam.github.io/HostlistsRegistry/assets/filter_1.txt''"

definition DEFAULT_ADBLOCK_DNS_FILTER_URL :: string where
  "DEFAULT_ADBLOCK_DNS_FILTER_URL =
     ''https://raw.githubusercontent.com/217heidai/adblockfilters/main/rules/adblockdns.txt''"

definition DEFAULT_HAGEZI_TIF_URL :: string where
  "DEFAULT_HAGEZI_TIF_URL =
     ''https://raw.githubusercontent.com/hagezi/dns-blocklists/main/adblock/tif.txt''"

definition DEFAULT_HAGEZI_NSFW_URL :: string where
  "DEFAULT_HAGEZI_NSFW_URL =
     ''https://raw.githubusercontent.com/hagezi/dns-blocklists/main/adblock/nsfw.txt''"

definition DEFAULT_HAGEZI_GAMBLING_URL :: string where
  "DEFAULT_HAGEZI_GAMBLING_URL =
     ''https://raw.githubusercontent.com/hagezi/dns-blocklists/main/adblock/gambling.txt''"

definition default_use_filters :: bool where "default_use_filters = True"

definition default_listen_host :: string where "default_listen_host = ''0.0.0.0''"

definition default_listen_port :: u16 where "default_listen_port = 53"

definition default_listen_ipv6 :: bool where "default_listen_ipv6 = True"

definition default_listen_ipv6_host :: string where "default_listen_ipv6_host = ''::''"

definition default_filter_update_interval_hours :: u32 where
  "default_filter_update_interval_hours =
     12"

definition default_filter_max_size_mb :: u32 where "default_filter_max_size_mb = 200"

definition default_query_log_enabled :: bool where "default_query_log_enabled = True"

definition default_family_safe_search :: bool where "default_family_safe_search = True"

definition default_family_blocked_services :: string where
  "default_family_blocked_services =
     ''youtube,tiktok,instagram,facebook,x,reddit,twitch,discord,steam,epic,roblox''"

definition default_monitoring_api_listen_host :: string where
  "default_monitoring_api_listen_host =
     ''127.0.0.1''"

definition default_web_admin_session_idle_minutes :: u32 where
  "default_web_admin_session_idle_minutes =
     60"

definition default_monitoring_api_port :: u16 where "default_monitoring_api_port = 9095"

definition default_launch_at_startup :: bool where "default_launch_at_startup = False"

definition default_query_log_retention_hours :: u32 where
  "default_query_log_retention_hours =
     90 * 24"

definition default_statistics_enabled :: bool where "default_statistics_enabled = True"

definition default_statistics_retention_hours :: u32 where
  "default_statistics_retention_hours =
     30 * 24"

definition default_security_event_retention_hours :: u32 where
  "default_security_event_retention_hours =
     30 * 24"

definition default_dns_cache_enabled :: bool where "default_dns_cache_enabled = True"

definition default_dns_cache_size :: nat where "default_dns_cache_size = 16 * 1024 * 1024"

definition default_dns_cache_min_ttl :: u32 where "default_dns_cache_min_ttl = 60"

definition default_dns_cache_max_ttl :: u32 where "default_dns_cache_max_ttl = 24 * 3600"

definition default_dns_cache_optimistic :: bool where "default_dns_cache_optimistic = True"

definition default_dns_cache_optimistic_max_stale_seconds :: u32 where
  "default_dns_cache_optimistic_max_stale_seconds =
     12 * 3600"

definition default_dns_cache_prefetch_enabled :: bool where
  "default_dns_cache_prefetch_enabled =
     True"

definition default_dns_cache_prefetch_hit_threshold :: u32 where
  "default_dns_cache_prefetch_hit_threshold =
     10"

definition default_blocking_response_ttl :: u32 where "default_blocking_response_ttl = 60"

definition default_rebinding_protection_enabled :: bool where
  "default_rebinding_protection_enabled =
     True"

definition default_rebinding_allowed_domains :: string where
  "default_rebinding_allowed_domains =
     join [newline]
     [''localhost'', ''local'', ''lan'', ''home.arpa'']"

definition default_cname_cloaking_enabled :: bool where "default_cname_cloaking_enabled = True"

definition default_private_reverse_dns_enabled :: bool where
  "default_private_reverse_dns_enabled =
     True"

definition default_upstream_dns :: string where
  "default_upstream_dns =
     join [newline]
     [''https://dns.alidns.com/dns-query'', ''https://doh.pub/dns-query'', ''223.5.5.5'', ''119.29.29.29'']"

definition default_fallback_dns :: string where
  "default_fallback_dns =
     join [newline]
     [''114.114.114.114'', ''180.76.76.76'']"

definition default_bootstrap_dns :: string where
  "default_bootstrap_dns =
     join [newline]
     [''223.5.5.5'', ''119.29.29.29'']"

definition default_allowed_clients :: string where
  "default_allowed_clients =
     join [newline]
     [''127.0.0.0/8'', ''::1/128'', ''10.0.0.0/8'', ''172.16.0.0/12'', ''192.168.0.0/16'', ''fc00::/7'', ''fe80::/10'']"

definition default_rate_limit_per_second :: u32 where "default_rate_limit_per_second = 2000"

definition default_refuse_any :: bool where "default_refuse_any = True"

definition default_runtime_watchdog_enabled :: bool where
  "default_runtime_watchdog_enabled =
     True"

definition default_runtime_watchdog_interval_seconds :: u64 where
  "default_runtime_watchdog_interval_seconds =
     30"

definition default_custom_rules :: string where
  "default_custom_rules = ''! '' @ map char_of
     [232 :: nat, 135, 170, 229, 174, 154, 228, 185, 137, 232, 167, 132, 229, 136, 153, 228, 188, 154,
      229, 146, 140, 229, 144, 175, 231, 148, 168, 231, 154, 132, 232, 191, 156, 231, 168, 139,
      230, 184, 133, 229, 141, 149, 228, 184, 128, 232, 181, 183, 231, 148, 159, 230, 149, 136] @
     newline # ''||example-blocked.local^''"

definition default_subscription :: filter_subscription where
  "default_subscription =
     \<lparr>fs_id = [], fs_name = [], fs_url = [], fs_enabled = True, fs_rule_count = 0,
      fs_block_rule_count = 0, fs_allow_rule_count = 0, fs_ignored_rule_count = 0,
      fs_ignored_comment_count = 0, fs_ignored_regex_count = 0, fs_ignored_unsupported_count = 0,
      fs_ignored_invalid_count = 0, fs_last_updated = None, fs_last_error = None\<rparr>"

definition default_filters :: "filter_subscription list" where
  "default_filters =
     [default_subscription\<lparr>fs_id := ''adguard-dns-filter'', fs_name := ''AdGuard DNS filter'',
        fs_url := DEFAULT_ADGUARD_DNS_FILTER_URL\<rparr>,
      default_subscription\<lparr>fs_id := ''adblock-dns-filters'', fs_name := ''AdBlock DNS Filters'',
        fs_url := DEFAULT_ADBLOCK_DNS_FILTER_URL\<rparr>,
      default_subscription\<lparr>fs_id := ''hagezi-tif'', fs_name := ''HaGeZi Threat Intelligence Feeds'',
        fs_url := DEFAULT_HAGEZI_TIF_URL\<rparr>,
      default_subscription\<lparr>fs_id := ''hagezi-nsfw'', fs_name := ''HaGeZi NSFW'',
        fs_url := DEFAULT_HAGEZI_NSFW_URL\<rparr>,
      default_subscription\<lparr>fs_id := ''hagezi-gambling'', fs_name := ''HaGeZi Gambling'',
        fs_url := DEFAULT_HAGEZI_GAMBLING_URL\<rparr>]"

definition default_config :: app_config where
  "default_config =
     \<lparr>ac_schema_version = CURRENT_CONFIG_SCHEMA_VERSION,
      ac_enabled = True,
      ac_use_filters = default_use_filters,
      ac_listen_host = default_listen_host,
      ac_listen_port = default_listen_port,
      ac_listen_ipv6 = default_listen_ipv6,
      ac_listen_ipv6_host = default_listen_ipv6_host,
      ac_upstream_dns = default_upstream_dns,
      ac_fallback_dns = default_fallback_dns,
      ac_bootstrap_dns = default_bootstrap_dns,
      ac_upstream_mode = LoadBalance,
      ac_dnssec_enabled = False,
      ac_domain_upstream_rules = [],
      ac_client_upstream_rules = [],
      ac_client_filtering_rules = [],
      ac_client_policy_groups = [],
      ac_family_safe_search = default_family_safe_search,
      ac_family_blocked_services = default_family_blocked_services,
      ac_allowed_clients = default_allowed_clients,
      ac_blocked_clients = [],
      ac_rate_limit_per_second = default_rate_limit_per_second,
      ac_refuse_any = default_refuse_any,
      ac_filter_update_interval_hours = default_filter_update_interval_hours,
      ac_filter_max_size_mb = default_filter_max_size_mb,
      ac_filter_proxy_mode = SystemProxy,
      ac_filter_proxy_url = [],
      ac_filter_system_proxy_url = [],
      ac_allow_insecure_http = False,
      ac_query_log_enabled = default_query_log_enabled,
      ac_anonymize_client_ip = False,
      ac_launch_at_startup = default_launch_at_startup,
      ac_query_log_retention_hours = default_query_log_retention_hours,
      ac_statistics_enabled = default_statistics_enabled,
      ac_statistics_retention_hours = default_statistics_retention_hours,
      ac_security_event_retention_hours = default_security_event_retention_hours,
      ac_system_hosts_enabled = False,
      ac_dns_cache_enabled = default_dns_cache_enabled,
      ac_dns_cache_size = default_dns_cache_size,
      ac_dns_cache_min_ttl = default_dns_cache_min_ttl,
      ac_dns_cache_max_ttl = default_dns_cache_max_ttl,
      ac_dns_cache_optimistic = default_dns_cache_optimistic,
      ac_dns_cache_optimistic_max_stale_seconds = default_dns_cache_optimistic_max_stale_seconds,
      ac_dns_cache_prefetch_enabled = default_dns_cache_prefetch_enabled,
      ac_dns_cache_prefetch_hit_threshold = default_dns_cache_prefetch_hit_threshold,
      ac_runtime_watchdog_enabled = default_runtime_watchdog_enabled,
      ac_runtime_watchdog_interval_seconds = default_runtime_watchdog_interval_seconds,
      ac_monitoring_api_enabled = False,
      ac_monitoring_api_listen_host = default_monitoring_api_listen_host,
      ac_monitoring_api_port = default_monitoring_api_port,
      ac_monitoring_api_token = [],
      ac_web_admin_session_idle_minutes = default_web_admin_session_idle_minutes,
      ac_web_admin_secure_cookie = False,
      ac_blocking_mode = NullIp,
      ac_blocking_response_ttl = default_blocking_response_ttl,
      ac_blocking_custom_ipv4 = [],
      ac_blocking_custom_ipv6 = [],
      ac_rebinding_protection_enabled = default_rebinding_protection_enabled,
      ac_rebinding_allowed_domains = default_rebinding_allowed_domains,
      ac_cname_cloaking_enabled = default_cname_cloaking_enabled,
      ac_private_reverse_dns_enabled = default_private_reverse_dns_enabled,
      ac_dns_rewrites = [],
      ac_client_names = [],
      ac_query_log_ignored_domains = [],
      ac_statistics_ignored_domains = [],
      ac_filters = default_filters,
      ac_blacklist = default_custom_rules\<rparr>"

end
