(* ===== verification/Selection.thy ===== *)
theory Selection
  imports Prelude
begin

text \<open>
  Iterator methods of the standard library that the configuration parsers and the
  policies share: \<open>max_by_key\<close>, which returns the last of several maximal elements,
  and \<open>collect\<close> into a \<open>Result\<close>, which stops at the first error.
\<close>

fun max_by_key :: "('a \<Rightarrow> 'k::linorder) \<Rightarrow> 'a list \<Rightarrow> 'a option" where
  "max_by_key key [] = None"
| "max_by_key key (x # xs) =
     (case max_by_key key xs of
        None \<Rightarrow> Some x
      | Some y \<Rightarrow> if key x \<le> key y then Some y else Some x)"

fun collect_results :: "('e + 'a) list \<Rightarrow> 'e + 'a list" where
  "collect_results [] = Inr []"
| "collect_results (r # rs) =
     (case r of
        Inl e \<Rightarrow> Inl e
      | Inr x \<Rightarrow> (case collect_results rs of Inl e \<Rightarrow> Inl e | Inr xs \<Rightarrow> Inr (x # xs)))"

lemma max_by_key_None [simp]: "max_by_key key xs = None \<longleftrightarrow> xs = []"
  by (cases xs) (auto split: option.splits)

lemma max_by_key_Some:
  "max_by_key key xs = Some y \<Longrightarrow>
    \<exists>as bs. xs = as @ y # bs \<and> (\<forall>x\<in>set xs. key x \<le> key y) \<and> (\<forall>x\<in>set bs. key x < key y)"
proof (induction xs arbitrary: y)
  case (Cons x xs)
  show ?case
  proof (cases "max_by_key key xs")
    case None
    then show ?thesis using Cons.prems by (intro exI[of _ "[]"]) auto
  next
    case (Some z)
    then obtain as bs where z: "xs = as @ z # bs" "\<forall>x\<in>set xs. key x \<le> key z" "\<forall>x\<in>set bs. key x < key z"
      using Cons.IH[of z] by blast
    show ?thesis
    proof (cases "key x \<le> key z")
      case True
      then have "y = z" using Cons.prems Some by simp
      then show ?thesis using z True by (intro exI[of _ "x # as"] exI[of _ bs]) auto
    next
      case False
      then have "y = x" using Cons.prems Some by simp
      then show ?thesis using z(2) False
        by (intro exI[of _ "[]"] exI[of _ xs]) (auto dest: le_less_trans)
    qed
  qed
qed simp

lemma max_by_key_mem: "max_by_key key xs = Some y \<Longrightarrow> y \<in> set xs"
  using max_by_key_Some by fastforce

lemma max_by_key_max: "max_by_key key xs = Some y \<Longrightarrow> x \<in> set xs \<Longrightarrow> key x \<le> key y"
  using max_by_key_Some by fastforce

lemma collect_results_map_Inr [simp]: "collect_results (map Inr xs) = Inr xs"
  by (induction xs) simp_all

lemma collect_results_Inr:
  "collect_results rs = Inr xs \<longleftrightarrow> rs = map Inr xs"
proof
  show "collect_results rs = Inr xs \<Longrightarrow> rs = map Inr xs"
    by (induction rs arbitrary: xs) (auto split: sum.splits)
qed simp

end
