(* ===== verification/PolicyText.thy ===== *)
theory PolicyText
  imports Selection NetAddr "HOL-Library.List_Lexorder" "HOL-Library.Char_ord" "HOL-Library.While_Combinator"
begin

text \<open>
  \<open>config.rs\<close>: the texts of the client policies.  Schedules, filtering rules and policy
  groups are parsed line by line; an error names the line (counted from one) and its
  cause in place of the message.  The weekday loop of the sources runs until it meets
  the last day, so it is a \<open>while\<close>; that it ends for the indices that occur is a lemma.
\<close>

section \<open>Lines\<close>

definition skip_line :: "string \<Rightarrow> bool" where
  "skip_line l = (l = [] \<or> starts_with ''#'' l \<or> starts_with ''!'' l)"

text \<open>The numbered lines that hold an entry, trimmed.\<close>

definition entry_lines :: "string \<Rightarrow> (nat \<times> string) list" where
  "entry_lines value = filter (\<lambda>(i, l). \<not> skip_line l) (map (\<lambda>(i, l). (i, trim l)) (enumerate 1 (str_lines value)))"

fun split_once_str :: "string \<Rightarrow> string \<Rightarrow> (string \<times> string) option" where
  "split_once_str pat [] = (if pat = [] then Some ([], []) else None)"
| "split_once_str pat (c # s) =
     (if starts_with pat (c # s) then Some ([], drop (length pat) (c # s))
      else map_option (\<lambda>(a, b). (c # a, b)) (split_once_str pat s))"

definition validate_ip_or_cidr :: "string \<Rightarrow> bool" where
  "validate_ip_or_cidr value =
     (parse_ip value \<noteq> None \<or>
      (case split_once (CHR ''/'') value of
         None \<Rightarrow> False
       | Some (ip, plen) \<Rightarrow>
           (case parse_ip ip of
              None \<Rightarrow> False
            | Some a \<Rightarrow>
                (case parse_u8 plen of
                   None \<Rightarrow> False
                 | Some p \<Rightarrow> (case a of IpV4 _ \<Rightarrow> p \<le> 32 | IpV6 _ \<Rightarrow> p \<le> 128)))))"

section \<open>Schedules\<close>

datatype schedule_error =
    MissingDays | MissingTime | ExtraParts | UnknownDay string | NoDaySelected
  | MissingDash | StartTime | EndTime

record client_schedule =
  sch_weekdays :: "bool list"
  sch_start :: u16
  sch_end :: u16

definition weekday_index :: "string \<Rightarrow> nat option" where
  "weekday_index value =
     (let d = trim value
      in if d = ''mon'' then Some 0
         else if d = ''tue'' then Some 1
         else if d = ''wed'' then Some 2
         else if d = ''thu'' then Some 3
         else if d = ''fri'' then Some 4
         else if d = ''sat'' then Some 5
         else if d = ''sun'' then Some 6
         else None)"

text \<open>\<open>loop { weekdays[current] = true; if current == end { break; } current = (current + 1) % 7; }\<close>\<close>

definition mark_days :: "bool list \<Rightarrow> nat \<Rightarrow> nat \<Rightarrow> bool list" where
  "mark_days weekdays start final =
     fst (while (\<lambda>(ws, current). current \<noteq> final)
            (\<lambda>(ws, current). let next = (current + 1) mod 7 in (ws[next := True], next))
            (weekdays[start := True], start))"

fun mark_parts :: "bool list \<Rightarrow> string list \<Rightarrow> schedule_error + bool list" where
  "mark_parts weekdays [] = Inr weekdays"
| "mark_parts weekdays (part # parts) =
     (case (case split_once (CHR ''-'') part of Some se \<Rightarrow> se | None \<Rightarrow> (part, part)) of
        (s, e) \<Rightarrow>
          (case weekday_index s of
             None \<Rightarrow> Inl (UnknownDay s)
           | Some start \<Rightarrow>
               (case weekday_index e of
                  None \<Rightarrow> Inl (UnknownDay e)
                | Some final \<Rightarrow> mark_parts (mark_days weekdays start final) parts)))"

definition parse_schedule_weekdays :: "string \<Rightarrow> schedule_error + bool list" where
  "parse_schedule_weekdays value =
     (if eq_ignore_case value ''daily'' then Inr (replicate 7 True)
      else (case mark_parts (replicate 7 False) (split_on (CHR '','') (to_lower value)) of
          Inl e \<Rightarrow> Inl e
        | Inr weekdays \<Rightarrow> if list_all Not weekdays then Inl NoDaySelected else Inr weekdays))"

definition parse_schedule_time :: "string \<Rightarrow> u16 option" where
  "parse_schedule_time value =
     (case split_once (CHR '':'') (trim value) of
        None \<Rightarrow> None
      | Some (h, m) \<Rightarrow>
          (case parse_u16 h of
             None \<Rightarrow> None
           | Some hour \<Rightarrow>
               (case parse_u16 m of
                  None \<Rightarrow> None
                | Some minute \<Rightarrow>
                    if 23 < hour \<or> 59 < minute then None else Some (hour * 60 + minute))))"

definition parse_client_schedule :: "string \<Rightarrow> schedule_error + client_schedule" where
  "parse_client_schedule value =
     (case split_whitespace value of
        [] \<Rightarrow> Inl MissingDays
      | [days] \<Rightarrow> Inl MissingTime
      | days # time # extra \<Rightarrow>
          if extra \<noteq> [] then Inl ExtraParts
          else (case parse_schedule_weekdays days of
              Inl e \<Rightarrow> Inl e
            | Inr weekdays \<Rightarrow>
                (case split_once (CHR ''-'') time of
                   None \<Rightarrow> Inl MissingDash
                 | Some (s, e) \<Rightarrow>
                     (case parse_schedule_time s of
                        None \<Rightarrow> Inl StartTime
                      | Some start \<Rightarrow>
                          (case parse_schedule_time e of
                             None \<Rightarrow> Inl EndTime
                           | Some final \<Rightarrow>
                               Inr \<lparr>sch_weekdays = weekdays, sch_start = start, sch_end = final\<rparr>)))))"

section \<open>Filtering rules\<close>

datatype policy_error =
    RuleFormat nat | RuleNetwork nat string | RuleSchedule nat schedule_error | RuleProfile nat
  | GroupFormat nat | GroupName nat | GroupDuplicate string | GroupMode nat | GroupOption nat string
  | UnknownService string | TooManyGroups | UndefinedProfile string | TooManyRules

record filtering_rule_spec =
  fr_network :: string
  fr_profile :: string
  fr_schedule :: "client_schedule option"

definition policy_name_char :: "char \<Rightarrow> bool" where
  "policy_name_char c = (is_alnum c \<or> c = CHR ''_'' \<or> c = CHR ''-'')"

definition valid_policy_name :: "string \<Rightarrow> bool" where
  "valid_policy_name value = (value \<noteq> [] \<and> length value \<le> 32 \<and> list_all policy_name_char value)"

fun parse_filtering_rule :: "nat \<times> string \<Rightarrow> policy_error + filtering_rule_spec" where
  "parse_filtering_rule (i, line) =
     (case split_once_str ''=>'' line of
        None \<Rightarrow> Inl (RuleFormat i)
      | Some (n, policy) \<Rightarrow>
          (let network = trim n
           in if \<not> validate_ip_or_cidr network then Inl (RuleNetwork i network)
              else (case (case split_once (CHR ''@'') policy of
                            Some (p, s) \<Rightarrow>
                              (case parse_client_schedule (trim s) of
                                 Inl e \<Rightarrow> Inl (RuleSchedule i e)
                               | Inr sch \<Rightarrow> Inr (trim p, Some sch))
                          | None \<Rightarrow> Inr (trim policy, None)) of
                  Inl e \<Rightarrow> Inl e
                | Inr (p, schedule) \<Rightarrow>
                    (let profile = to_lower p
                     in if \<not> valid_policy_name profile then Inl (RuleProfile i)
                        else Inr \<lparr>fr_network = network, fr_profile = profile, fr_schedule = schedule\<rparr>))))"

definition parse_client_filtering_rules :: "string \<Rightarrow> policy_error + filtering_rule_spec list" where
  "parse_client_filtering_rules value = collect_results (map parse_filtering_rule (entry_lines value))"

section \<open>Policy groups\<close>

definition BLOCKED_SERVICE_KEYS :: "string list" where
  "BLOCKED_SERVICE_KEYS =
     [''youtube'', ''tiktok'', ''instagram'', ''facebook'', ''x'', ''reddit'', ''twitch'', ''discord'',
      ''steam'', ''epic'', ''roblox'']"

text \<open>The pieces between commas and white space; the empty ones are dropped.\<close>

definition service_words :: "string \<Rightarrow> string list" where
  "service_words value = concat (map split_whitespace (split_on (CHR '','') value))"

definition sort_dedup :: "string list \<Rightarrow> string list" where
  "sort_dedup xs = remdups_adj (sort xs)"

fun check_services :: "string list \<Rightarrow> policy_error + string list" where
  "check_services [] = Inr []"
| "check_services (w # ws) =
     (let service = to_lower w
      in if service \<notin> set BLOCKED_SERVICE_KEYS then Inl (UnknownService service)
         else (case check_services ws of Inl e \<Rightarrow> Inl e | Inr ss \<Rightarrow> Inr (service # ss)))"

definition parse_blocked_services :: "string \<Rightarrow> policy_error + string list" where
  "parse_blocked_services value =
     (case check_services (service_words value) of Inl e \<Rightarrow> Inl e | Inr ss \<Rightarrow> Inr (sort_dedup ss))"

record policy_group_spec =
  pg_name :: string
  pg_bypass :: bool
  pg_safe_search :: bool
  pg_blocked_services :: "string list"

text \<open>The flag says whether the filtering mode was given already.\<close>

fun group_options :: "nat \<Rightarrow> bool \<Rightarrow> policy_group_spec \<Rightarrow> string list \<Rightarrow> policy_error + policy_group_spec" where
  "group_options i mode_seen g [] = Inr g"
| "group_options i mode_seen g (option # options) =
     (let normalized = to_lower option
      in if normalized = ''filter''
         then (if mode_seen then Inl (GroupMode i) else group_options i True g options)
         else if normalized = ''bypass''
         then (if mode_seen then Inl (GroupMode i)
               else group_options i True (g\<lparr>pg_bypass := True\<rparr>) options)
         else if normalized = ''safe_search''
         then group_options i mode_seen (g\<lparr>pg_safe_search := True\<rparr>) options
         else (case strip_prefix ''block:'' normalized of
             None \<Rightarrow> Inl (GroupOption i option)
           | Some services \<Rightarrow>
               (case parse_blocked_services (map (\<lambda>c. if c = CHR ''|'' then CHR '','' else c) services) of
                  Inl e \<Rightarrow> Inl e
                | Inr ss \<Rightarrow>
                    group_options i mode_seen
                      (g\<lparr>pg_blocked_services := pg_blocked_services g @ ss\<rparr>) options)))"

definition RESERVED_PROFILES :: "string list" where
  "RESERVED_PROFILES = [''filter'', ''bypass'', ''family'']"

fun group_lines :: "string set \<Rightarrow> (nat \<times> string) list \<Rightarrow> policy_error + policy_group_spec list" where
  "group_lines names [] = Inr []"
| "group_lines names ((i, line) # lines) =
     (case split_once_str ''=>'' line of
        None \<Rightarrow> Inl (GroupFormat i)
      | Some (n, options) \<Rightarrow>
          (let name = to_lower (trim n)
           in if \<not> valid_policy_name name \<or> name \<in> set RESERVED_PROFILES then Inl (GroupName i)
              else if name \<in> names then Inl (GroupDuplicate name)
              else (case group_options i False
                      \<lparr>pg_name = name, pg_bypass = False, pg_safe_search = False, pg_blocked_services = []\<rparr>
                      (filter (\<lambda>v. v \<noteq> []) (map trim (split_on (CHR '','') options))) of
                  Inl e \<Rightarrow> Inl e
                | Inr g \<Rightarrow>
                    (case group_lines (insert name names) lines of
                       Inl e \<Rightarrow> Inl e
                     | Inr gs \<Rightarrow>
                         Inr (g\<lparr>pg_blocked_services := sort_dedup (pg_blocked_services g)\<rparr> # gs)))))"

definition parse_client_policy_groups :: "string \<Rightarrow> policy_error + policy_group_spec list" where
  "parse_client_policy_groups value =
     (case group_lines {} (entry_lines value) of
        Inl e \<Rightarrow> Inl e
      | Inr groups \<Rightarrow> if 64 < length groups then Inl TooManyGroups else Inr groups)"

definition validate_client_policy_profiles ::
  "filtering_rule_spec list \<Rightarrow> policy_group_spec list \<Rightarrow> policy_error option" where
  "validate_client_policy_profiles rules groups =
     (case find (\<lambda>r. fr_profile r \<notin> set RESERVED_PROFILES \<and> fr_profile r \<notin> set (map pg_name groups)) rules of
        Some r \<Rightarrow> Some (UndefinedProfile (fr_profile r))
      | None \<Rightarrow> if 4096 < length rules then Some TooManyRules else None)"

section \<open>Facts about the parsed texts\<close>

lemma mark_days_unfold:
  "mark_days ws a b =
    (if a = b then ws[a := True] else mark_days (ws[a := True]) ((a + 1) mod 7) b)"
  unfolding mark_days_def by (subst while_unfold) (simp add: Let_def)

text \<open>The days from \<open>a\<close> on, in the order of the week, up to \<open>b\<close>.\<close>

definition day_range :: "nat \<Rightarrow> nat \<Rightarrow> nat \<Rightarrow> bool" where
  "day_range a b d = ((d + 7 - a) mod 7 \<le> (b + 7 - a) mod 7)"

lemma day_range_table:
  "list_all (\<lambda>a. list_all (\<lambda>b. list_all (\<lambda>d.
     day_range a a d = (d = a) \<and> (a = b \<or> (b + 7 - a) mod 7 = Suc ((b + 7 - (a + 1) mod 7) mod 7) \<and>
       (day_range a b d = (d = a \<or> day_range ((a + 1) mod 7) b d)))) [0..<7]) [0..<7]) [0..<7]"
  by code_simp

lemma list_all_uptD: "list_all P [0..<n] \<Longrightarrow> i < n \<Longrightarrow> P i"
  by (simp add: list_all_iff)

lemma day_range_facts:
  assumes "a < 7" and "b < 7" and "d < 7"
  shows "day_range a a d = (d = a) \<and> (a = b \<or> (b + 7 - a) mod 7 = Suc ((b + 7 - (a + 1) mod 7) mod 7) \<and>
    (day_range a b d = (d = a \<or> day_range ((a + 1) mod 7) b d)))"
  by (rule list_all_uptD[OF list_all_uptD[OF list_all_uptD[OF day_range_table assms(1)] assms(2)] assms(3)])

lemma mark_days_nth:
  assumes "a < 7" and "b < 7" and "length ws = 7"
  shows "length (mark_days ws a b) = 7 \<and>
    (\<forall>d<7. mark_days ws a b ! d \<longleftrightarrow> ws ! d \<or> day_range a b d)"
  using assms
proof (induction "(b + 7 - a) mod 7" arbitrary: a ws)
  case 0
  then have ab: "a = b" using day_range_facts[OF 0(2,3), of 0] by (metis nat.distinct(1) zero_less_numeral)
  then have m: "mark_days ws a b = ws[a := True]" by (subst mark_days_unfold) simp
  show ?case using 0 ab day_range_facts[OF _ _ _, of a a] m by (auto simp: nth_list_update)
next
  case (Suc n)
  then have ne: "a \<noteq> b" by auto
  let ?a = "(a + 1) mod 7"
  have n: "n = (b + 7 - ?a) mod 7" using Suc.hyps(2) day_range_facts[OF Suc.prems(1,2), of 0] ne by simp
  have IH: "length (mark_days (ws[a := True]) ?a b) = 7 \<and>
    (\<forall>d<7. mark_days (ws[a := True]) ?a b ! d \<longleftrightarrow> ws[a := True] ! d \<or> day_range ?a b d)"
    using Suc.prems by (intro Suc.hyps(1)[OF n]) simp_all
  have "day_range a b d \<longleftrightarrow> d = a \<or> day_range ?a b d" if "d < 7" for d
    using day_range_facts[OF Suc.prems(1,2) that] ne by blast
  moreover have "mark_days ws a b = mark_days (ws[a := True]) ?a b"
    using ne by (subst mark_days_unfold) simp
  ultimately show ?case using IH Suc.prems by (auto simp: nth_list_update)
qed

lemma weekday_index_less: "weekday_index s = Some d \<Longrightarrow> d < 7"
  by (auto simp: weekday_index_def Let_def split: if_splits)

lemma mark_parts_length: "length ws = 7 \<Longrightarrow> mark_parts ws ps = Inr ws' \<Longrightarrow> length ws' = 7"
  by (induction ws ps rule: mark_parts.induct)
    (auto split: option.splits prod.splits dest!: weekday_index_less simp: mark_days_nth)

lemma parse_weekdays_length: "parse_schedule_weekdays s = Inr ws \<Longrightarrow> length ws = 7"
  using mark_parts_length[of "replicate 7 False"]
  by (auto simp: parse_schedule_weekdays_def split: if_splits sum.splits)

lemma parse_schedule_time_less: "parse_schedule_time s = Some t \<Longrightarrow> unat t < 1440"
proof -
  assume "parse_schedule_time s = Some t"
  then obtain h m :: u16 where t: "t = h * 60 + m" "\<not> 23 < h" "\<not> 59 < m"
    by (auto simp: parse_schedule_time_def split: option.splits if_splits prod.splits)
  then have "unat h \<le> 23" "unat m \<le> 59" by (simp_all add: not_less word_le_nat_alt)
  then show "unat t < 1440" using t(1) by (simp add: unat_word_ariths)
qed

end
