(* ===== verification/ClientPolicy.thy ===== *)
theory ClientPolicy
  imports AppConfig PolicyText IpNetwork
begin

text \<open>
  \<open>dns/client_policy.rs\<close>: which filtering a client gets.  The profiles are built from the
  policy groups of the configuration, a rule ties a network (and possibly a weekly
  schedule) to a profile, and the decision takes the longest network among the active
  rules.  The weekday and the minute of the day, which the code reads from the local
  clock, are arguments.
\<close>

section \<open>Profiles\<close>

datatype filtering_mode = FilterClient | BypassClient

record policy_profile =
  pf_name :: string
  pf_mode :: filtering_mode
  pf_safe_search :: bool
  pf_blocked_services :: "string list"

definition profile_from_spec :: "policy_group_spec \<Rightarrow> policy_profile" where
  "profile_from_spec spec =
     \<lparr>pf_name = pg_name spec, pf_mode = (if pg_bypass spec then BypassClient else FilterClient),
      pf_safe_search = pg_safe_search spec, pf_blocked_services = pg_blocked_services spec\<rparr>"

definition default_filter_profile :: policy_profile where
  "default_filter_profile =
     \<lparr>pf_name = ''filter'', pf_mode = FilterClient, pf_safe_search = False, pf_blocked_services = []\<rparr>"

record filtering_rule =
  cr_network :: ip_network
  cr_source :: string
  cr_profile :: policy_profile
  cr_schedule :: "client_schedule option"

record filtering_policies =
  fp_rules :: "filtering_rule list"
  fp_default :: policy_profile

datatype policies_error = BadPolicyText policy_error | NoProfile string | BadNetwork network_error

definition build_profiles :: "policy_group_spec list \<Rightarrow> bool \<Rightarrow> string list \<Rightarrow> string \<rightharpoonup> policy_profile" where
  "build_profiles groups safe services =
     (foldl (\<lambda>m p. m(pf_name p \<mapsto> p)) Map.empty (map profile_from_spec groups))
       (''family'' \<mapsto> \<lparr>pf_name = ''family'', pf_mode = FilterClient, pf_safe_search = safe,
                       pf_blocked_services = services\<rparr>,
        ''filter'' \<mapsto> default_filter_profile,
        ''bypass'' \<mapsto> \<lparr>pf_name = ''bypass'', pf_mode = BypassClient, pf_safe_search = False,
                       pf_blocked_services = []\<rparr>)"

definition build_rule ::
  "(string \<rightharpoonup> policy_profile) \<Rightarrow> filtering_rule_spec \<Rightarrow> policies_error + filtering_rule" where
  "build_rule profiles spec =
     (case profiles (fr_profile spec) of
        None \<Rightarrow> Inl (NoProfile (fr_profile spec))
      | Some profile \<Rightarrow>
          (case parse_network (fr_network spec) ''client policy'' of
             Inl e \<Rightarrow> Inl (BadNetwork e)
           | Inr n \<Rightarrow> Inr \<lparr>cr_network = n, cr_source = fr_network spec, cr_profile = profile,
                            cr_schedule = fr_schedule spec\<rparr>))"

definition policies_from_config :: "app_config \<Rightarrow> policies_error + filtering_policies" where
  "policies_from_config config =
     (case parse_client_policy_groups (ac_client_policy_groups config) of
        Inl e \<Rightarrow> Inl (BadPolicyText e)
      | Inr groups \<Rightarrow>
          (case parse_blocked_services (ac_family_blocked_services config) of
             Inl e \<Rightarrow> Inl (BadPolicyText e)
           | Inr services \<Rightarrow>
               (case parse_client_filtering_rules (ac_client_filtering_rules config) of
                  Inl e \<Rightarrow> Inl (BadPolicyText e)
                | Inr specs \<Rightarrow>
                    (case collect_results
                       (map (build_rule (build_profiles groups (ac_family_safe_search config) services)) specs) of
                       Inl e \<Rightarrow> Inl e
                     | Inr rules \<Rightarrow> Inr \<lparr>fp_rules = rules, fp_default = default_filter_profile\<rparr>))))"

section \<open>The decision\<close>

definition schedule_is_active :: "client_schedule \<Rightarrow> nat \<Rightarrow> u16 \<Rightarrow> bool" where
  "schedule_is_active s weekday minute =
     (if sch_start s = sch_end s then sch_weekdays s ! weekday
      else if sch_start s < sch_end s
      then sch_weekdays s ! weekday \<and> sch_start s \<le> minute \<and> minute < sch_end s
      else if sch_start s \<le> minute then sch_weekdays s ! weekday
      else if minute < sch_end s then sch_weekdays s ! ((weekday + 6) mod 7)
      else False)"

record filtering_decision =
  fd_mode :: filtering_mode
  fd_source :: "string option"
  fd_profile :: string
  fd_profile_data :: policy_profile

definition rule_applies :: "ip_addr \<Rightarrow> nat \<Rightarrow> u16 \<Rightarrow> filtering_rule \<Rightarrow> bool" where
  "rule_applies client weekday minute r =
     (network_contains (cr_network r) client \<and>
      (case cr_schedule r of None \<Rightarrow> True | Some s \<Rightarrow> schedule_is_active s weekday minute))"

definition decision_at :: "filtering_policies \<Rightarrow> ip_addr \<Rightarrow> nat \<Rightarrow> u16 \<Rightarrow> filtering_decision" where
  "decision_at p client weekday minute =
     (let matched = max_by_key (\<lambda>r. prefix_len (cr_network r))
            (filter (rule_applies client weekday minute) (fp_rules p));
          profile = (case matched of None \<Rightarrow> fp_default p | Some r \<Rightarrow> cr_profile r)
      in \<lparr>fd_mode = pf_mode profile, fd_source = map_option cr_source matched,
          fd_profile = pf_name profile, fd_profile_data = profile\<rparr>)"

section \<open>What a profile does to a name\<close>

definition SAFE_SEARCH_TARGETS :: "(string list \<times> string) list" where
  "SAFE_SEARCH_TARGETS =
     [([''google.com'', ''www.google.com'', ''google.com.hk'', ''www.google.com.hk''],
       ''forcesafesearch.google.com''),
      ([''bing.com'', ''www.bing.com''], ''strict.bing.com''),
      ([''duckduckgo.com'', ''www.duckduckgo.com''], ''safe.duckduckgo.com''),
      ([''youtube.com'', ''www.youtube.com'', ''m.youtube.com'', ''youtubei.googleapis.com'',
        ''youtube.googleapis.com'', ''youtube-nocookie.com'', ''www.youtube-nocookie.com''],
       ''restrictmoderate.youtube.com'')]"

definition safe_search_target :: "string \<Rightarrow> string option" where
  "safe_search_target name =
     map_option snd
       (find (\<lambda>(domains, target). \<not> eq_ignore_case name target \<and>
                list_ex (\<lambda>candidate. eq_ignore_case name candidate) domains) SAFE_SEARCH_TARGETS)"

definition decision_safe_search_target :: "filtering_decision \<Rightarrow> string \<Rightarrow> string option" where
  "decision_safe_search_target d name =
     (if pf_safe_search (fd_profile_data d) then safe_search_target name else None)"

definition service_domains :: "string \<Rightarrow> string list" where
  "service_domains service =
     (if service = ''youtube'' then
        [''youtube.com'', ''youtu.be'', ''youtube-nocookie.com'', ''googlevideo.com'', ''ytimg.com'',
         ''youtubei.googleapis.com'']
      else if service = ''tiktok'' then [''tiktok.com'', ''tiktokcdn.com'', ''tiktokv.com'', ''musical.ly'']
      else if service = ''instagram'' then [''instagram.com'', ''cdninstagram.com'']
      else if service = ''facebook'' then
        [''facebook.com'', ''facebook.net'', ''fb.com'', ''fbcdn.net'', ''messenger.com'']
      else if service = ''x'' then [''x.com'', ''twitter.com'', ''t.co'', ''twimg.com'']
      else if service = ''reddit'' then
        [''reddit.com'', ''redd.it'', ''redditmedia.com'', ''redditstatic.com'']
      else if service = ''twitch'' then [''twitch.tv'', ''twitchcdn.net'']
      else if service = ''discord'' then
        [''discord.com'', ''discord.gg'', ''discordapp.com'', ''discordapp.net'']
      else if service = ''steam'' then
        [''steampowered.com'', ''steamcommunity.com'', ''steamstatic.com'', ''steamcontent.com'']
      else if service = ''epic'' then [''epicgames.com'', ''epicgames.dev'']
      else if service = ''roblox'' then [''roblox.com'', ''rbxcdn.com'']
      else [])"

definition service_domain_matches :: "string \<Rightarrow> string \<Rightarrow> bool" where
  "service_domain_matches name base =
     (eq_ignore_case name base \<or>
      (case strip_suffix base name of None \<Rightarrow> False | Some pre \<Rightarrow> ends_with ''.'' pre))"

definition decision_blocked_service :: "filtering_decision \<Rightarrow> string \<Rightarrow> string option" where
  "decision_blocked_service d name =
     find (\<lambda>service. list_ex (\<lambda>base. service_domain_matches name base) (service_domains service))
       (pf_blocked_services (fd_profile_data d))"

section \<open>Schedules as windows of the week\<close>

text \<open>
  The meaning of a schedule: from a selected day on, the window opens at the start time and
  stays open for the duration, over midnight and over the end of the week.  Equal times mean
  the whole calendar day.
\<close>

definition week_minutes :: nat where "week_minutes = 7 * 1440"

definition window_open :: "client_schedule \<Rightarrow> nat" where
  "window_open s = (if sch_start s = sch_end s then 0 else unat (sch_start s))"

definition window_length :: "client_schedule \<Rightarrow> nat" where
  "window_length s =
     (if sch_start s = sch_end s then 1440
      else (unat (sch_end s) + 1440 - unat (sch_start s)) mod 1440)"

definition in_window :: "client_schedule \<Rightarrow> nat \<Rightarrow> nat \<Rightarrow> nat \<Rightarrow> bool" where
  "in_window s day weekday minute =
     ((weekday * 1440 + minute + week_minutes - (day * 1440 + window_open s)) mod week_minutes
        < window_length s)"

definition valid_schedule :: "client_schedule \<Rightarrow> bool" where
  "valid_schedule s =
     (length (sch_weekdays s) = 7 \<and> unat (sch_start s) < 1440 \<and> unat (sch_end s) < 1440)"

lemma parsed_schedule_valid: "parse_client_schedule text = Inr s \<Longrightarrow> valid_schedule s"
  by (auto simp: parse_client_schedule_def valid_schedule_def
      intro: parse_weekdays_length parse_schedule_time_less
      split: list.splits if_splits sum.splits option.splits prod.splits)

lemma week_elapsed:
  fixes d w m b :: nat
  assumes "d < 7" and "w < 7" and "m < 1440" and "b < 1440" and "len \<le> 1440"
  shows "(w * 1440 + m + 10080 - (d * 1440 + b)) mod 10080 < len \<longleftrightarrow>
    (d = w \<and> b \<le> m \<and> m - b < len) \<or> (d = (w + 6) mod 7 \<and> m < b \<and> m + 1440 - b < len)"
proof -
  let ?x = "w * 1440 + m + 10080 - (d * 1440 + b)"
  have e: "?x mod 10080 = (if 10080 \<le> ?x then ?x - 10080 else ?x)"
    using assms by (simp add: mod_if)
  have p: "(w + 6) mod 7 = (if w = 0 then 6 else w - 1)"
    using assms(2) by (cases w) (simp_all add: mod_if)
  consider "d = w" | "Suc d = w" | "d = 6" "w = 0" | "w < d" "d - w < 6" | "Suc d < w"
    using assms(1,2) by linarith
  then show ?thesis
  proof cases
    case 1
    then show ?thesis using assms unfolding e p by auto
  next
    case 2
    then show ?thesis using assms unfolding e p by auto
  next
    case 3
    then show ?thesis using assms unfolding e p by auto
  next
    case 4
    then have "1440 \<le> ?x" "?x < 10080" using assms by linarith+
    then show ?thesis using assms 4 unfolding e p by auto
  next
    case 5
    then have "10080 + 1440 \<le> ?x" using assms by linarith
    then show ?thesis using assms 5 unfolding e p by auto
  qed
qed

text \<open>C16. A schedule is active exactly inside the windows of its selected days, also when a window
  runs over midnight or from Sunday into Monday.\<close>

theorem schedule_windows:
  assumes "parse_client_schedule text = Inr s" and "weekday < 7" and "minute < 1440"
  shows "schedule_is_active s weekday (of_nat minute) \<longleftrightarrow>
    (\<exists>day<7. sch_weekdays s ! day \<and> in_window s day weekday minute)"
proof -
  have v: "length (sch_weekdays s) = 7" "unat (sch_start s) < 1440" "unat (sch_end s) < 1440"
    using parsed_schedule_valid[OF assms(1)] by (simp_all add: valid_schedule_def)
  have m: "unat (of_nat minute :: u16) = minute"
    using assms(3) by (subst unsigned_of_nat) (simp add: take_bit_nat_eq_self)
  have len: "window_length s \<le> 1440" "window_open s < 1440"
    using v by (auto simp: window_length_def window_open_def)
  have "in_window s day weekday minute \<longleftrightarrow>
      (day = weekday \<and> window_open s \<le> minute \<and> minute - window_open s < window_length s) \<or>
      (day = (weekday + 6) mod 7 \<and> minute < window_open s \<and>
        minute + 1440 - window_open s < window_length s)" if "day < 7" for day
    unfolding in_window_def week_minutes_def
    using week_elapsed[OF that assms(2,3) len(2,1)] by simp
  then have "(\<exists>day<7. sch_weekdays s ! day \<and> in_window s day weekday minute) \<longleftrightarrow>
      (sch_weekdays s ! weekday \<and> window_open s \<le> minute \<and> minute - window_open s < window_length s) \<or>
      (sch_weekdays s ! ((weekday + 6) mod 7) \<and> minute < window_open s \<and>
        minute + 1440 - window_open s < window_length s)"
    using assms(2) mod_less_divisor[of 7 "weekday + 6"] by (metis zero_less_numeral)
  also have "\<dots> \<longleftrightarrow> schedule_is_active s weekday (of_nat minute)"
  proof -
    let ?s = "unat (sch_start s)" and ?e = "unat (sch_end s)"
    consider "?s = ?e" | "?s < ?e" | "?e < ?s" by linarith
    then show ?thesis
    proof cases
      case 1
      then show ?thesis
        using assms(3) by (simp add: schedule_is_active_def window_open_def window_length_def word_unat_eq_iff)
    next
      case 2
      then have "(?e + 1440 - ?s) mod 1440 = ?e - ?s" using v by (simp add: mod_if)
      then show ?thesis using 2 v assms(3)
        by (auto simp: schedule_is_active_def window_open_def window_length_def word_unat_eq_iff
            word_less_nat_alt word_le_nat_alt m)
    next
      case 3
      then have "(?e + 1440 - ?s) mod 1440 = ?e + 1440 - ?s" using v by (simp add: mod_if)
      then show ?thesis using 3 v assms(3)
        by (auto simp: schedule_is_active_def window_open_def window_length_def word_unat_eq_iff
            word_less_nat_alt word_le_nat_alt m)
    qed
  qed
  finally show ?thesis by simp
qed

theorem schedule_windows_witness:
  "\<exists>s. parse_client_schedule ''sun 22:00-06:30'' = Inr s \<and> schedule_is_active s 0 (of_nat 389) \<and>
     (\<exists>day<7. sch_weekdays s ! day \<and> in_window s day 0 389)"
proof -
  have s: "parse_client_schedule ''sun 22:00-06:30'' =
      Inr \<lparr>sch_weekdays = [False, False, False, False, False, False, True], sch_start = 1320, sch_end = 390\<rparr>"
    by code_simp
  have "schedule_is_active \<lparr>sch_weekdays = [False, False, False, False, False, False, True],
      sch_start = 1320, sch_end = 390\<rparr> 0 (of_nat 389)"
    by (simp add: schedule_is_active_def)
  then show ?thesis using s schedule_windows[OF s, of 0 389] by auto
qed

section \<open>The most specific rule decides\<close>

lemma policies_rules_wf:
  assumes "policies_from_config config = Inr p" and "r \<in> set (fp_rules p)"
  shows "wf_network (cr_network r)"
proof -
  obtain profiles specs where "collect_results (map (build_rule profiles) specs) = Inr (fp_rules p)"
    using assms(1) by (auto simp: policies_from_config_def split: sum.splits)
  then have "map (build_rule profiles) specs = map Inr (fp_rules p)"
    by (simp add: collect_results_Inr)
  then obtain spec where "build_rule profiles spec = Inr r"
    using assms(2) by (metis (no_types, lifting) imageE image_eqI list.set_map)
  then show ?thesis
    by (auto simp: build_rule_def split: option.splits sum.splits intro: parse_network_wf)
qed

text \<open>C17. When rules apply to a client, the decision is that of an applying rule whose network lies
  inside the network of every applying rule.\<close>

theorem most_specific_policy:
  assumes "policies_from_config config = Inr p"
    and "r \<in> set (fp_rules p)" and "rule_applies client weekday minute r"
  shows "\<exists>r'\<in>set (fp_rules p). rule_applies client weekday minute r' \<and>
    fd_profile_data (decision_at p client weekday minute) = cr_profile r' \<and>
    fd_source (decision_at p client weekday minute) = Some (cr_source r') \<and>
    (\<forall>ip. network_contains (cr_network r') ip \<longrightarrow> network_contains (cr_network r) ip)"
proof -
  let ?rules = "filter (rule_applies client weekday minute) (fp_rules p)"
  have "?rules \<noteq> []" using assms(2,3) by (auto simp: filter_empty_conv)
  then obtain r' where r': "max_by_key (\<lambda>r. prefix_len (cr_network r)) ?rules = Some r'"
    by (cases "max_by_key (\<lambda>r. prefix_len (cr_network r)) ?rules") simp_all
  have mem: "r' \<in> set (fp_rules p)" "rule_applies client weekday minute r'"
    using max_by_key_mem[OF r'] by simp_all
  have "prefix_len (cr_network r) \<le> prefix_len (cr_network r')"
    using max_by_key_max[OF r', of r] assms(2,3) by simp
  then have "network_contains (cr_network r') ip \<Longrightarrow> network_contains (cr_network r) ip" for ip
    using cidr.nested[OF policies_rules_wf[OF assms(1,2)] policies_rules_wf[OF assms(1) mem(1)], of client ip]
      assms(3) mem(2) by (simp add: rule_applies_def word_le_nat_alt)
  then show ?thesis
    using r' mem by (auto simp: decision_at_def Let_def)
qed

theorem most_specific_policy_witness:
  "\<exists>p. policies_from_config (default_config\<lparr>ac_client_filtering_rules := ''10.0.0.7 => bypass''\<rparr>) = Inr p \<and>
     fd_source (decision_at p (IpV4 0x0A000007) 0 0) = Some ''10.0.0.7''"
proof -
  let ?config = "default_config\<lparr>ac_client_filtering_rules := ''10.0.0.7 => bypass''\<rparr>"
  have parts: "parse_client_policy_groups [] = Inr []"
    "parse_client_filtering_rules ''10.0.0.7 => bypass'' =
      Inr [\<lparr>fr_network = ''10.0.0.7'', fr_profile = ''bypass'', fr_schedule = None\<rparr>]"
    "parse_blocked_services default_family_blocked_services =
      Inr [''discord'', ''epic'', ''facebook'', ''instagram'', ''reddit'', ''roblox'', ''steam'', ''tiktok'',
           ''twitch'', ''x'', ''youtube'']"
    "split_once (CHR ''/'') ''10.0.0.7'' = None" "parse_ip ''10.0.0.7'' = Some (IpV4 0x0A000007)"
    by code_simp+
  obtain pr where pr: "build_profiles [] default_family_safe_search [''discord'', ''epic'', ''facebook'',
      ''instagram'', ''reddit'', ''roblox'', ''steam'', ''tiktok'', ''twitch'', ''x'', ''youtube''] ''bypass'' = Some pr"
    by (simp add: build_profiles_def)
  define n where "n = \<lparr>family = FamV4, network = prefix_network (ucast (0x0A000007 :: u32)) 32 32, prefix_len = 32\<rparr>"
  define r where "r = \<lparr>cr_network = n, cr_source = ''10.0.0.7'', cr_profile = pr, cr_schedule = None\<rparr>"
  have "parse_network ''10.0.0.7'' ''client policy'' = Inr n"
    using parts(4,5) by (simp add: parse_network_def n_def)
  then have p: "policies_from_config ?config = Inr \<lparr>fp_rules = [r], fp_default = default_filter_profile\<rparr>"
    using parts(1-3) pr by (simp add: policies_from_config_def default_config_def build_rule_def r_def)
  have "rule_applies (IpV4 0x0A000007) 0 0 r"
    by (simp add: rule_applies_def r_def n_def network_contains_def)
  then show ?thesis
    using most_specific_policy[OF p, of r] p by (auto simp: r_def)
qed

section \<open>Safe search and blocked services\<close>

text \<open>The safe-search redirection never redirects its own targets, so a redirected name is final.\<close>

theorem safe_search_final:
  assumes "safe_search_target name = Some target"
  shows "safe_search_target target = None"
proof -
  have all: "list_all (\<lambda>(_, t). safe_search_target t = None) SAFE_SEARCH_TARGETS" by code_simp
  obtain ds where "(ds, target) \<in> set SAFE_SEARCH_TARGETS"
    using assms by (fastforce simp: safe_search_target_def find_Some_iff dest: nth_mem)
  then show ?thesis using all by (auto simp: list_all_iff)
qed

theorem safe_search_final_witness:
  "safe_search_target ''WWW.Bing.com'' = Some ''strict.bing.com'' \<and> safe_search_target ''strict.bing.com'' = None"
proof -
  have "safe_search_target ''WWW.Bing.com'' = Some ''strict.bing.com''" by code_simp
  then show ?thesis using safe_search_final by blast
qed

end
