(* ===== verification/RuleIndex.thy ===== *)
theory RuleIndex
  imports RuleText
begin

text \<open>
  \<open>dns/rules.rs\<close>, the compiled rules: \<open>RuleSet\<close> with its exact and suffix
  tables, entries that are compressed (\<open>Simple\<close>) as long as the rule text can be
  rebuilt from the domain, \<open>compile_rules\<close> and the custom layer of
  \<open>with_custom_layer\<close>.  A \<open>HashMap\<close> is a map: the sources only look keys up,
  insert and update them.  The capacities passed to \<open>with_capacity\<close> have no effect
  on what a map holds and are left out.
\<close>

section \<open>Entries\<close>

record complex_rule =
  cr_raw :: string
  cr_source_id :: u16
  cr_rule_type :: rule_type
  cr_important :: bool
  cr_query_types :: query_types
  cr_denyallow :: "string list"
  cr_dnsrewrite :: "dns_rewrite_action option"

record simple_rule =
  sr_source_id :: u16
  sr_kind :: simple_kind

datatype rule_entry = Simple simple_rule | Complex "complex_rule list"

record rule_set =
  rs_exact :: "string \<rightharpoonup> rule_entry"
  rs_suffix :: "string \<rightharpoonup> rule_entry"

definition empty_rule_set :: rule_set where
  "empty_rule_set = \<lparr>rs_exact = Map.empty, rs_suffix = Map.empty\<rparr>"

fun kind_rule_type :: "simple_kind \<Rightarrow> rule_type" where
  "kind_rule_type SuffixKind = SuffixRule"
| "kind_rule_type ExactPlain = ExactRule"
| "kind_rule_type _ = HostsRule"

definition to_complex :: "simple_rule \<Rightarrow> string \<Rightarrow> bool \<Rightarrow> complex_rule" where
  "to_complex r d allow =
     \<lparr>cr_raw = canonical_rule_text (sr_kind r) d allow, cr_source_id = sr_source_id r,
      cr_rule_type = kind_rule_type (sr_kind r), cr_important = False,
      cr_query_types = AnyType, cr_denyallow = [], cr_dnsrewrite = None\<rparr>"

definition complex_of :: "rule_data \<Rightarrow> u16 \<Rightarrow> complex_rule" where
  "complex_of r source_id =
     \<lparr>cr_raw = rd_raw r, cr_source_id = source_id, cr_rule_type = rd_rule_type r,
      cr_important = rd_important r, cr_query_types = rd_query_types r,
      cr_denyallow = rd_denyallow r, cr_dnsrewrite = rd_dnsrewrite r\<rparr>"

definition complex_matches :: "complex_rule \<Rightarrow> string \<Rightarrow> u16 \<Rightarrow> bool \<Rightarrow> bool" where
  "complex_matches r d qt important =
     (cr_important r = important \<and> query_types_match (cr_query_types r) qt \<and>
      \<not> list_ex (domain_matches d) (cr_denyallow r))"

fun covers_semantics ::
  "rule_entry \<Rightarrow> bool \<Rightarrow> query_types \<Rightarrow> string list \<Rightarrow> dns_rewrite_action option \<Rightarrow> bool" where
  "covers_semantics (Simple _) important qts deny rw =
     (\<not> important \<and> qts = AnyType \<and> deny = [] \<and> rw = None)"
| "covers_semantics (Complex rules) important qts deny rw =
     list_ex (\<lambda>r. cr_important r = important \<and> cr_query_types r = qts \<and>
                  cr_denyallow r = deny \<and> cr_dnsrewrite r = rw) rules"

fun push_entry :: "rule_entry \<Rightarrow> string \<Rightarrow> bool \<Rightarrow> complex_rule \<Rightarrow> rule_entry" where
  "push_entry (Simple s) d allow r = Complex [to_complex s d allow, r]"
| "push_entry (Complex rules) d allow r = Complex (rules @ [r])"

section \<open>Inserting\<close>

definition insert_entry ::
  "(string \<rightharpoonup> rule_entry) \<Rightarrow> rule_data \<Rightarrow> u16 \<Rightarrow> bool \<Rightarrow> (string \<rightharpoonup> rule_entry)" where
  "insert_entry m r source_id allow =
     (case m (rd_domain r) of
        Some entry \<Rightarrow>
          if covers_semantics entry (rd_important r) (rd_query_types r) (rd_denyallow r) (rd_dnsrewrite r)
          then m
          else m(rd_domain r \<mapsto> push_entry entry (rd_domain r) allow (complex_of r source_id))
      | None \<Rightarrow>
          m(rd_domain r \<mapsto>
            (case rd_canonical r of
               Some kind \<Rightarrow> Simple \<lparr>sr_source_id = source_id, sr_kind = kind\<rparr>
             | None \<Rightarrow> Complex [complex_of r source_id])))"

definition rule_set_insert :: "rule_set \<Rightarrow> rule_data \<Rightarrow> u16 \<Rightarrow> bool \<Rightarrow> rule_set" where
  "rule_set_insert rs r source_id allow =
     (if rd_include_subdomains r
      then rs\<lparr>rs_suffix := insert_entry (rs_suffix rs) r source_id allow\<rparr>
      else rs\<lparr>rs_exact := insert_entry (rs_exact rs) r source_id allow\<rparr>)"

section \<open>Looking up\<close>

datatype matched_raw = StoredRaw string | CanonicalRaw simple_kind

record matched_rule =
  mr_domain :: string
  mr_source_id :: u16
  mr_rule_type :: rule_type
  mr_raw :: matched_raw
  mr_dnsrewrite :: "dns_rewrite_action option"

definition raw_text :: "matched_rule \<Rightarrow> bool \<Rightarrow> string" where
  "raw_text m allow =
     (case mr_raw m of
        StoredRaw raw \<Rightarrow> raw
      | CanonicalRaw kind \<Rightarrow> canonical_rule_text kind (mr_domain m) allow)"

definition lookup_entry ::
  "(string \<rightharpoonup> rule_entry) \<Rightarrow> string \<Rightarrow> string \<Rightarrow> u16 \<Rightarrow> bool \<Rightarrow> matched_rule option" where
  "lookup_entry m key query_domain qt important =
     (case m key of
        None \<Rightarrow> None
      | Some (Simple r) \<Rightarrow>
          if important then None
          else Some \<lparr>mr_domain = key, mr_source_id = sr_source_id r,
                 mr_rule_type = kind_rule_type (sr_kind r), mr_raw = CanonicalRaw (sr_kind r),
                 mr_dnsrewrite = None\<rparr>
      | Some (Complex rules) \<Rightarrow>
          map_option (\<lambda>r. \<lparr>mr_domain = key, mr_source_id = cr_source_id r,
                 mr_rule_type = cr_rule_type r, mr_raw = StoredRaw (cr_raw r),
                 mr_dnsrewrite = cr_dnsrewrite r\<rparr>)
            (find (\<lambda>r. cr_dnsrewrite r = None \<and> complex_matches r query_domain qt important) rules))"

section \<open>Compiling\<close>

definition DEFAULT_SOURCE :: string where
  "DEFAULT_SOURCE = map char_of [0xE8, 0x87, 0xAA, 0xE5, 0xAE, 0x9A, 0xE4, 0xB9, 0x89, 0xE8, 0xA7,
     0x84, 0xE5, 0x88, 0x99 :: nat]"

fun position :: "string \<Rightarrow> string list \<Rightarrow> nat option" where
  "position x [] = None"
| "position x (y # ys) = (if y = x then Some 0 else map_option Suc (position x ys))"

definition intern_source :: "string list \<Rightarrow> string \<Rightarrow> string list \<times> u16" where
  "intern_source sources name =
     (case position name sources of
        Some i \<Rightarrow> (sources, of_nat i)
      | None \<Rightarrow>
          if 65535 < length sources then (sources, 0)
          else (sources @ [name], of_nat (length sources)))"

record compiled_layer =
  blocks :: rule_set
  allows :: rule_set
  sources :: "string list"
  summary :: rule_summary
  has_dnsrewrites :: bool
  disabled :: "string set"

record compiled_rules = compiled_layer +
  base :: "compiled_layer option"

text \<open>The variables the closure of \<open>compile_rules_with_disabled\<close> updates.\<close>

record compile_state =
  cs_blocks :: rule_set
  cs_allows :: rule_set
  cs_sources :: "string list"
  cs_summary :: rule_summary
  cs_has_dnsrewrites :: bool
  cs_source_id :: u16

fun compile_event :: "compile_state \<Rightarrow> scan_event \<Rightarrow> compile_state" where
  "compile_event s (SourceEvent name) =
     (case intern_source (cs_sources s) name of
        (srcs, i) \<Rightarrow> s\<lparr>cs_sources := srcs, cs_source_id := i\<rparr>)"
| "compile_event s (RuleEvent p) =
     (let t = s\<lparr>cs_summary := count_rule (cs_summary s) p\<rparr>
      in case p of
           Block r \<Rightarrow> t\<lparr>cs_has_dnsrewrites := (cs_has_dnsrewrites t \<or> rd_dnsrewrite r \<noteq> None),
                        cs_blocks := rule_set_insert (cs_blocks t) r (cs_source_id t) False\<rparr>
         | Allow r \<Rightarrow> t\<lparr>cs_allows := rule_set_insert (cs_allows t) r (cs_source_id t) True\<rparr>
         | Ignored _ \<Rightarrow> t
         | Disable \<Rightarrow> t)"

definition init_compile_state :: compile_state where
  "init_compile_state = \<lparr>cs_blocks = empty_rule_set, cs_allows = empty_rule_set,
     cs_sources = [DEFAULT_SOURCE], cs_summary = default_summary, cs_has_dnsrewrites = False,
     cs_source_id = 0\<rparr>"

definition compile_rules_with_disabled ::
  "(string \<Rightarrow> string option) \<Rightarrow> string \<Rightarrow> string set \<Rightarrow> compiled_rules" where
  "compile_rules_with_disabled json raw extra =
     (let (events, own) = scan_rules_with_disabled json raw extra;
          s = foldl compile_event init_compile_state events
      in \<lparr>blocks = cs_blocks s, allows = cs_allows s, sources = cs_sources s,
          summary = cs_summary s, has_dnsrewrites = cs_has_dnsrewrites s,
          disabled = extra \<union> own, base = None\<rparr>)"

definition compile_rules :: "(string \<Rightarrow> string option) \<Rightarrow> string \<Rightarrow> compiled_rules" where
  "compile_rules json raw = compile_rules_with_disabled json raw {}"

definition with_custom_layer ::
  "(string \<Rightarrow> string option) \<Rightarrow> compiled_rules \<Rightarrow> string \<Rightarrow> compiled_rules" where
  "with_custom_layer json b custom =
     (let overlay = compile_rules_with_disabled json custom (disabled b)
      in overlay\<lparr>summary := combined_summary (summary b) (summary overlay),
                 base := Some (compiled_layer.truncate b)\<rparr>)"

definition merge_custom_rules ::
  "(string \<Rightarrow> string option) \<Rightarrow> compiled_rules \<Rightarrow> string \<Rightarrow> compiled_rules" where
  "merge_custom_rules json c custom =
     (let (srcs, default_id) = intern_source (sources c) DEFAULT_SOURCE;
          s0 = \<lparr>cs_blocks = blocks c, cs_allows = allows c, cs_sources = srcs,
                cs_summary = summary c, cs_has_dnsrewrites = has_dnsrewrites c,
                cs_source_id = default_id\<rparr>;
          s = foldl compile_event s0 (fst (scan_rules_with_disabled json custom (disabled c)))
      in c\<lparr>blocks := cs_blocks s, allows := cs_allows s, sources := cs_sources s,
           summary := cs_summary s, has_dnsrewrites := cs_has_dnsrewrites s\<rparr>)"

definition source_name :: "compiled_layer \<Rightarrow> u16 \<Rightarrow> string" where
  "source_name c source_id =
     (case get_at (sources c) (unat source_id) of Some n \<Rightarrow> n | None \<Rightarrow> DEFAULT_SOURCE)"

end
