(* ===== verification/RuleMatch.thy ===== *)
theory RuleMatch
  imports RuleIndex
begin

text \<open>
  \<open>dns/rules.rs\<close>, matching: the layered lookups (remote lists first, then the
  custom layer), the order of the four passes (important allow, important block,
  allow, block) and the collection of \<open>$dnsrewrite\<close> rules.
\<close>

record block_match =
  bm_rule :: string
  bm_source :: string
  bm_rule_type :: string
  bm_important_overrode :: bool
  bm_allowlist_rule :: "string option"
  bm_dnsrewrite :: "dns_rewrite_action option"

record rule_candidate =
  rc_raw :: string
  rc_source :: string
  rc_rule_type :: rule_type
  rc_dnsrewrite :: "dns_rewrite_action option"

fun rule_type_text :: "rule_type \<Rightarrow> string" where
  "rule_type_text ExactRule = ''exact''"
| "rule_type_text SuffixRule = ''suffix''"
| "rule_type_text HostsRule = ''hosts''"

definition layer_table :: "compiled_layer \<Rightarrow> bool \<Rightarrow> bool \<Rightarrow> (string \<rightharpoonup> rule_entry)" where
  "layer_table layer allow exact =
     (let rs = (if allow then allows layer else blocks layer)
      in if exact then rs_exact rs else rs_suffix rs)"

fun lookup_layers ::
  "compiled_layer list \<Rightarrow> string \<Rightarrow> string \<Rightarrow> u16 \<Rightarrow> bool \<Rightarrow> bool \<Rightarrow> bool \<Rightarrow> rule_candidate option" where
  "lookup_layers [] key d qt important allow exact = None"
| "lookup_layers (layer # layers) key d qt important allow exact =
     (case lookup_entry (layer_table layer allow exact) key d qt important of
        Some m \<Rightarrow> Some \<lparr>rc_raw = raw_text m allow, rc_source = source_name layer (mr_source_id m),
                        rc_rule_type = mr_rule_type m, rc_dnsrewrite = mr_dnsrewrite m\<rparr>
      | None \<Rightarrow> lookup_layers layers key d qt important allow exact)"

definition find_layered_match ::
  "compiled_layer list \<Rightarrow> string \<Rightarrow> u16 \<Rightarrow> bool \<Rightarrow> bool \<Rightarrow> rule_candidate option" where
  "find_layered_match layers d qt important allow =
     (case lookup_layers layers d d qt important allow True of
        Some c \<Rightarrow> Some c
      | None \<Rightarrow>
          (case lookup_layers layers d d qt important allow False of
             Some c \<Rightarrow> Some c
           | None \<Rightarrow> first_parent (\<lambda>key. lookup_layers layers key d qt important allow False) d))"

text \<open>The rewrite rules that apply, collected over the names and the layers in order.\<close>

definition layer_rewrites ::
  "compiled_layer \<Rightarrow> bool \<Rightarrow> string \<Rightarrow> string \<Rightarrow> u16 \<Rightarrow> (compiled_layer \<times> complex_rule) list" where
  "layer_rewrites layer exact name d qt =
     (case layer_table layer False exact name of
        Some (Complex rules) \<Rightarrow>
          map (\<lambda>r. (layer, r))
            (filter (\<lambda>r. cr_dnsrewrite r \<noteq> None \<and> complex_matches r d qt (cr_important r)) rules)
      | _ \<Rightarrow> [])"

definition name_rewrites ::
  "compiled_layer list \<Rightarrow> string \<Rightarrow> string \<Rightarrow> u16 \<Rightarrow> (compiled_layer \<times> complex_rule) list" where
  "name_rewrites layers name d qt =
     concat (map (\<lambda>exact.
       if exact \<and> name \<noteq> d then []
       else concat (map (\<lambda>layer. layer_rewrites layer exact name d qt)
              (filter has_dnsrewrites layers))) [True, False])"

function collect_rewrites ::
  "compiled_layer list \<Rightarrow> string \<Rightarrow> string \<Rightarrow> u16 \<Rightarrow> (compiled_layer \<times> complex_rule) list" where
  "collect_rewrites layers name d qt =
     name_rewrites layers name d qt @
     (case split_once (CHR ''.'') name of
        None \<Rightarrow> []
      | Some (_, r) \<Rightarrow> collect_rewrites layers r d qt)"
  by pat_completeness auto
termination
  by (relation "measure (\<lambda>(layers, name, d, qt). length name)") (auto dest: split_once_length)

declare collect_rewrites.simps [simp del]

fun rewrite_priority :: "dns_rewrite_action \<Rightarrow> nat" where
  "rewrite_priority (RCode _) = 0"
| "rewrite_priority (Cname _) = 1"
| "rewrite_priority _ = 2"

definition rule_priority :: "compiled_layer \<times> complex_rule \<Rightarrow> nat" where
  "rule_priority lr = rewrite_priority (the (cr_dnsrewrite (snd lr)))"

definition keep_important ::
  "(compiled_layer \<times> complex_rule) list \<Rightarrow> (compiled_layer \<times> complex_rule) list" where
  "keep_important ms =
     (if list_ex (\<lambda>(_, r). cr_important r) ms then filter (\<lambda>(_, r). cr_important r) ms else ms)"

fun distinct_actions :: "dns_rewrite_action list \<Rightarrow> dns_rewrite_action list \<Rightarrow> dns_rewrite_action list" where
  "distinct_actions acc [] = acc"
| "distinct_actions acc (a # as) = distinct_actions (if a \<in> set acc then acc else acc @ [a]) as"

definition merged_action :: "dns_rewrite_action list \<Rightarrow> dns_rewrite_action" where
  "merged_action actions =
     (let as = distinct_actions [] actions
      in if length as = 1 then hd as else Multiple as)"

definition rewrite_match_layers ::
  "compiled_layer list \<Rightarrow> string \<Rightarrow> u16 \<Rightarrow> block_match option" where
  "rewrite_match_layers layers d qt =
     (if \<not> list_ex has_dnsrewrites layers then None
      else (let ms = keep_important (collect_rewrites layers d d qt)
            in if ms = [] then None
               else (let best = Min (set (map rule_priority ms));
                         ms1 = filter (\<lambda>m. rule_priority m = best) ms;
                         ms2 = (if best < 2 then take 1 ms1 else ms1);
                         (layer, first) = hd ms2;
                         allow = find_layered_match layers d qt False True
                     in Some \<lparr>bm_rule = join [newline] (map (\<lambda>(_, r). cr_raw r) ms2),
                              bm_source = source_name layer (cr_source_id first),
                              bm_rule_type = rule_type_text (cr_rule_type first) @ '' rewrite'',
                              bm_important_overrode = (cr_important first \<and> allow \<noteq> None),
                              bm_allowlist_rule = map_option rc_raw allow,
                              bm_dnsrewrite =
                                Some (merged_action (map (\<lambda>(_, r). the (cr_dnsrewrite r)) ms2))\<rparr>)))"

definition build_block_match ::
  "rule_candidate \<Rightarrow> rule_candidate option \<Rightarrow> bool \<Rightarrow> block_match" where
  "build_block_match b allow important_overrode =
     \<lparr>bm_rule = rc_raw b, bm_source = rc_source b,
      bm_rule_type = rule_type_text (rc_rule_type b) @ '' block'',
      bm_important_overrode = important_overrode, bm_allowlist_rule = map_option rc_raw allow,
      bm_dnsrewrite = rc_dnsrewrite b\<rparr>"

definition blocking_match_layers ::
  "compiled_layer list \<Rightarrow> string \<Rightarrow> u16 \<Rightarrow> block_match option" where
  "blocking_match_layers layers d qt =
     (case rewrite_match_layers layers d qt of
        Some rw \<Rightarrow> Some rw
      | None \<Rightarrow>
          if find_layered_match layers d qt True True \<noteq> None then None
          else (case find_layered_match layers d qt True False of
              Some b \<Rightarrow>
                let allow = find_layered_match layers d qt False True
                in Some (build_block_match b allow (allow \<noteq> None))
            | None \<Rightarrow>
                if find_layered_match layers d qt False True \<noteq> None then None
                else map_option (\<lambda>b. build_block_match b None False)
                       (find_layered_match layers d qt False False)))"

definition layers_of :: "compiled_rules \<Rightarrow> compiled_layer list" where
  "layers_of c =
     (case base c of
        Some b \<Rightarrow> [b, compiled_layer.truncate c]
      | None \<Rightarrow> [compiled_layer.truncate c])"

definition blocking_match :: "compiled_rules \<Rightarrow> string \<Rightarrow> u16 \<Rightarrow> block_match option" where
  "blocking_match c d qt = blocking_match_layers (layers_of c) d qt"

definition is_blocked :: "compiled_rules \<Rightarrow> string \<Rightarrow> u16 \<Rightarrow> bool" where
  "is_blocked c d qt = (blocking_match c d qt \<noteq> None)"

end
