(* ===== verification/RuleSpec.thy ===== *)
theory RuleSpec
  imports RuleMatch
begin

text \<open>
  The rule index against the list of rules it was built from.  The contract of one
  table is the locale \<open>rule_table\<close>: looking a name up yields the inserted rules
  of that name, in order, less those whose conditions an earlier one already has.
  The tables of \<open>RuleSet\<close> provide it, so that compression, deduplication and
  hashing disappear from every later argument.
\<close>

section \<open>The contract of a table\<close>

definition rule_sem :: "complex_rule \<Rightarrow> bool \<times> query_types \<times> string list \<times> dns_rewrite_action option" where
  "rule_sem r = (cr_important r, cr_query_types r, cr_denyallow r, cr_dnsrewrite r)"

definition add_rule :: "complex_rule list \<Rightarrow> complex_rule \<Rightarrow> complex_rule list" where
  "add_rule rs r = (if rule_sem r \<in> rule_sem ` set rs then rs else rs @ [r])"

definition wf_rule :: "bool \<Rightarrow> rule_data \<Rightarrow> bool" where
  "wf_rule allow r = (\<forall>kind. rd_canonical r = Some kind \<longrightarrow>
     canonical_rule_text kind (rd_domain r) allow = rd_raw r \<and>
     kind_rule_type kind = rd_rule_type r \<and> \<not> rd_important r \<and> rd_query_types r = AnyType \<and>
     rd_denyallow r = [] \<and> rd_dnsrewrite r = None)"

definition at_name :: "string \<Rightarrow> (rule_data \<times> u16) list \<Rightarrow> complex_rule list" where
  "at_name k rs = map (\<lambda>(r, i). complex_of r i) (filter (\<lambda>(r, i). rd_domain r = k) rs)"

lemma at_name_simps [simp]:
  "at_name k [] = []"
  "at_name k (x # xs) = (if rd_domain (fst x) = k then [complex_of (fst x) (snd x)] else []) @ at_name k xs"
  by (auto simp: at_name_def split: prod.splits)

lemma at_name_append [simp]: "at_name k (xs @ ys) = at_name k xs @ at_name k ys"
  by (simp add: at_name_def)

lemma sem_foldl_add_rule: "rule_sem ` set (foldl add_rule acc rs) = rule_sem ` (set acc \<union> set rs)"
  by (induction rs arbitrary: acc) (auto simp: add_rule_def image_Un)

lemma find_append: "find P (xs @ ys) = (case find P xs of Some x \<Rightarrow> Some x | None \<Rightarrow> find P ys)"
  by (induction xs) auto

lemma find_foldl_add_rule:
  assumes "\<And>r r'. rule_sem r = rule_sem r' \<Longrightarrow> P r = P r'"
  shows "find P (foldl add_rule acc rs) = find P (acc @ rs)"
proof (induction rs arbitrary: acc)
  case (Cons r rs)
  have "find P (add_rule acc r) = find P (acc @ [r])"
  proof (cases "\<exists>r' \<in> set acc. rule_sem r' = rule_sem r")
    case True
    then obtain r' where "r' \<in> set acc" and "P r' = P r" using assms by blast
    then have "find P acc = None \<Longrightarrow> \<not> P r" by (metis find_None_iff)
    moreover have "rule_sem r \<in> rule_sem ` set acc" using True by (metis image_eqI)
    ultimately show ?thesis
      by (cases "find P acc") (simp_all add: add_rule_def find_append)
  next
    case False
    then have "rule_sem r \<notin> rule_sem ` set acc" by force
    then show ?thesis by (simp add: add_rule_def)
  qed
  moreover have "find P (foldl add_rule acc (r # rs)) = find P (add_rule acc r @ rs)"
    using Cons[of "add_rule acc r"] by simp
  ultimately show ?case
    using find_append[of P "acc @ [r]" rs] find_append[of P "add_rule acc r" rs] by simp
qed simp

locale rule_table =
  fixes empty_table :: 't
    and insert_rule :: "'t \<Rightarrow> rule_data \<Rightarrow> u16 \<Rightarrow> 't"
    and rules :: "'t \<Rightarrow> string \<Rightarrow> complex_rule list"
    and wf :: "rule_data \<Rightarrow> bool"
  assumes rules_empty: "rules empty_table k = []"
    and rules_insert: "wf r \<Longrightarrow> rules (insert_rule t r i) k =
      (if rd_domain r = k then add_rule (rules t k) (complex_of r i) else rules t k)"
begin

definition insert_all :: "'t \<Rightarrow> (rule_data \<times> u16) list \<Rightarrow> 't" where
  "insert_all t rs = foldl (\<lambda>t (r, i). insert_rule t r i) t rs"

lemma insert_all_simps [simp]:
  "insert_all t [] = t"
  "insert_all t (x # xs) = insert_all (insert_rule t (fst x) (snd x)) xs"
  by (auto simp: insert_all_def split: prod.splits)

lemma rules_insert_all:
  "\<forall>x \<in> set rs. wf (fst x) \<Longrightarrow> rules (insert_all t rs) k = foldl add_rule (rules t k) (at_name k rs)"
proof (induction rs arbitrary: t)
  case (Cons x rs)
  then show ?case by (cases "rd_domain (fst x) = k") (simp_all add: rules_insert)
qed simp

lemma find_insert_all:
  assumes "\<forall>x \<in> set rs. wf (fst x)" and "\<And>r r'. rule_sem r = rule_sem r' \<Longrightarrow> P r = P r'"
  shows "find P (rules (insert_all t rs) k) = find P (rules t k @ at_name k rs)"
  by (simp only: rules_insert_all[OF assms(1)] find_foldl_add_rule[OF assms(2)])

end

fun entry_rules :: "bool \<Rightarrow> string \<Rightarrow> rule_entry option \<Rightarrow> complex_rule list" where
  "entry_rules allow k None = []"
| "entry_rules allow k (Some (Simple s)) = [to_complex s k allow]"
| "entry_rules allow k (Some (Complex rs)) = rs"

lemma covers_iff:
  "covers_semantics e imp qts deny rw \<longleftrightarrow>
    (imp, qts, deny, rw) \<in> rule_sem ` set (entry_rules allow k (Some e))"
  by (cases e) (auto simp: rule_sem_def to_complex_def list_ex_iff image_iff)

lemma entry_rules_push:
  "entry_rules allow k (Some (push_entry e k allow r)) = entry_rules allow k (Some e) @ [r]"
  by (cases e) auto

lemma sem_complex_of:
  "rule_sem (complex_of r i) = (rd_important r, rd_query_types r, rd_denyallow r, rd_dnsrewrite r)"
  by (simp add: rule_sem_def complex_of_def)

lemma entry_rules_insert:
  assumes "wf_rule allow r"
  shows "entry_rules allow k (insert_entry m r i allow k) =
    (if rd_domain r = k then add_rule (entry_rules allow k (m k)) (complex_of r i)
     else entry_rules allow k (m k))"
proof (cases "rd_domain r = k")
  case True
  show ?thesis
  proof (cases "m k")
    case None
    then show ?thesis
      using True assms
      by (auto simp: insert_entry_def add_rule_def wf_rule_def to_complex_def complex_of_def
          split: option.splits)
  next
    case (Some e)
    show ?thesis
      using Some True
      by (auto simp: insert_entry_def add_rule_def sem_complex_of covers_iff[of e _ _ _ _ allow k]
          entry_rules_push)
  qed
next
  case False
  then show ?thesis
    by (auto simp: insert_entry_def split: option.splits)
qed

interpretation blk: rule_table Map.empty "\<lambda>m r i. insert_entry m r i False"
    "\<lambda>m k. entry_rules False k (m k)" "wf_rule False"
  by unfold_locales (simp_all add: entry_rules_insert)

interpretation alw: rule_table Map.empty "\<lambda>m r i. insert_entry m r i True"
    "\<lambda>m k. entry_rules True k (m k)" "wf_rule True"
  by unfold_locales (simp_all add: entry_rules_insert)

section \<open>Lookups in terms of the rules\<close>

definition plain_match :: "string \<Rightarrow> u16 \<Rightarrow> bool \<Rightarrow> complex_rule \<Rightarrow> bool" where
  "plain_match d qt important r = (cr_dnsrewrite r = None \<and> complex_matches r d qt important)"

lemma plain_match_sem: "rule_sem r = rule_sem r' \<Longrightarrow> plain_match d qt imp r = plain_match d qt imp r'"
  by (simp add: plain_match_def complex_matches_def rule_sem_def)

definition rules_at :: "compiled_layer \<Rightarrow> bool \<Rightarrow> bool \<Rightarrow> string \<Rightarrow> complex_rule list" where
  "rules_at layer allow exact key = entry_rules allow key (layer_table layer allow exact key)"

definition candidate_of :: "compiled_layer \<Rightarrow> complex_rule \<Rightarrow> rule_candidate" where
  "candidate_of layer r = \<lparr>rc_raw = cr_raw r, rc_source = source_name layer (cr_source_id r),
     rc_rule_type = cr_rule_type r, rc_dnsrewrite = cr_dnsrewrite r\<rparr>"

lemma lookup_layers_Cons:
  "lookup_layers (l # ls) key d qt imp allow exact =
     (case find (plain_match d qt imp) (rules_at l allow exact key) of
        Some r \<Rightarrow> Some (candidate_of l r)
      | None \<Rightarrow> lookup_layers ls key d qt imp allow exact)"
proof (cases "layer_table l allow exact key")
  case None
  then show ?thesis by (simp add: rules_at_def lookup_entry_def)
next
  case (Some e)
  have pm: "(\<lambda>r. cr_dnsrewrite r = None \<and> complex_matches r d qt imp) = plain_match d qt imp"
    by (simp add: fun_eq_iff plain_match_def)
  show ?thesis
  proof (cases e)
    case (Simple s)
    then show ?thesis
      by (simp add: Some rules_at_def lookup_entry_def candidate_of_def raw_text_def plain_match_def
          to_complex_def complex_matches_def)
  next
    case (Complex rs)
    then show ?thesis
      by (auto simp: Some rules_at_def lookup_entry_def candidate_of_def raw_text_def pm
          split: option.splits)
  qed
qed

declare lookup_layers.simps(2) [simp del]

section \<open>From rule texts to rule lists\<close>

text \<open>The rules a list of events contributes, with the source each one is attributed to.\<close>

fun event_rules :: "string list \<Rightarrow> u16 \<Rightarrow> scan_event list \<Rightarrow> (bool \<times> rule_data \<times> u16) list" where
  "event_rules srcs i [] = []"
| "event_rules srcs i (SourceEvent n # es) =
     (case intern_source srcs n of (srcs', i') \<Rightarrow> event_rules srcs' i' es)"
| "event_rules srcs i (RuleEvent (Block r) # es) = (False, r, i) # event_rules srcs i es"
| "event_rules srcs i (RuleEvent (Allow r) # es) = (True, r, i) # event_rules srcs i es"
| "event_rules srcs i (RuleEvent (Ignored x) # es) = event_rules srcs i es"
| "event_rules srcs i (RuleEvent Disable # es) = event_rules srcs i es"

definition side_rules :: "bool \<Rightarrow> bool \<Rightarrow> (bool \<times> rule_data \<times> u16) list \<Rightarrow> (rule_data \<times> u16) list" where
  "side_rules allow incl rs =
     map snd (filter (\<lambda>(a, r, i). a = allow \<and> rd_include_subdomains r = incl) rs)"

lemma side_rules_simps [simp]:
  "side_rules allow incl [] = []"
  "side_rules allow incl ((a, r, i) # rs) =
    (if a = allow \<and> rd_include_subdomains r = incl then [(r, i)] else []) @ side_rules allow incl rs"
  by (simp_all add: side_rules_def)

lemma side_rules_append [simp]:
  "side_rules allow incl (xs @ ys) = side_rules allow incl xs @ side_rules allow incl ys"
  by (simp add: side_rules_def)

definition any_rewrite :: "(bool \<times> rule_data \<times> u16) list \<Rightarrow> bool" where
  "any_rewrite rs = list_ex (\<lambda>(a, r, i). \<not> a \<and> rd_dnsrewrite r \<noteq> None) rs"

lemma compile_fold:
  fixes s es
  defines "rs \<equiv> event_rules (cs_sources s) (cs_source_id s) es"
  shows "rs_exact (cs_blocks (foldl compile_event s es)) =
      blk.insert_all (rs_exact (cs_blocks s)) (side_rules False False rs)"
    and "rs_suffix (cs_blocks (foldl compile_event s es)) =
      blk.insert_all (rs_suffix (cs_blocks s)) (side_rules False True rs)"
    and "rs_exact (cs_allows (foldl compile_event s es)) =
      alw.insert_all (rs_exact (cs_allows s)) (side_rules True False rs)"
    and "rs_suffix (cs_allows (foldl compile_event s es)) =
      alw.insert_all (rs_suffix (cs_allows s)) (side_rules True True rs)"
    and "cs_has_dnsrewrites (foldl compile_event s es) = (cs_has_dnsrewrites s \<or> any_rewrite rs)"
  unfolding rs_def
proof (induction es arbitrary: s)
  case (Cons e es)
  { case 1 show ?case using Cons.IH(1)[of "compile_event s e"]
      by (cases "(cs_sources s, cs_source_id s, e # es)" rule: event_rules.cases)
        (auto simp: rule_set_insert_def Let_def split: prod.splits) }
  { case 2 show ?case using Cons.IH(2)[of "compile_event s e"]
      by (cases "(cs_sources s, cs_source_id s, e # es)" rule: event_rules.cases)
        (auto simp: rule_set_insert_def Let_def split: prod.splits) }
  { case 3 show ?case using Cons.IH(3)[of "compile_event s e"]
      by (cases "(cs_sources s, cs_source_id s, e # es)" rule: event_rules.cases)
        (auto simp: rule_set_insert_def Let_def split: prod.splits) }
  { case 4 show ?case using Cons.IH(4)[of "compile_event s e"]
      by (cases "(cs_sources s, cs_source_id s, e # es)" rule: event_rules.cases)
        (auto simp: rule_set_insert_def Let_def split: prod.splits) }
  { case 5 show ?case using Cons.IH(5)[of "compile_event s e"]
      by (cases "(cs_sources s, cs_source_id s, e # es)" rule: event_rules.cases)
        (auto simp: any_rewrite_def Let_def split: prod.splits) }
qed (simp_all add: any_rewrite_def)

section \<open>Parsed rules are well formed\<close>

lemma canonical_text_iff:
  "kind \<in> {SuffixKind, ExactPlain} \<or> \<not> allow \<Longrightarrow>
    is_canonical_rule_text line kind d allow \<longleftrightarrow> canonical_rule_text kind d allow = line"
  by (cases kind)
    (auto simp: is_canonical_rule_text_def strip_prefix_Some strip_suffix_Some strip_prefix_None
      bind_eq_Some_conv split: option.splits)

definition wf_event :: "string \<Rightarrow> scan_event \<Rightarrow> bool" where
  "wf_event line e =
     (case e of
        RuleEvent (Block r) \<Rightarrow> wf_rule False r \<and> rd_raw r = trim line
      | RuleEvent (Allow r) \<Rightarrow> wf_rule True r \<and> rd_raw r = trim line
      | _ \<Rightarrow> True)"

lemma parse_pattern_shape:
  "parse_pattern p = Some r \<Longrightarrow> \<exists>d incl. r = new_rule d incl (if incl then SuffixRule else ExactRule)"
  by (auto simp: parse_pattern_def Let_def split: if_splits option.splits)

lemma wf_mark_canonical:
  assumes "r = apply_modifiers line m (new_rule d incl (if incl then SuffixRule else ExactRule))"
  shows "wf_rule allow (mark_canonical line allow r)" and "rd_raw (mark_canonical line allow r) = line"
  using assms
  by (auto simp: wf_rule_def mark_canonical_def apply_modifiers_def new_rule_def Let_def
      canonical_text_iff split: if_splits)

lemma parse_filter_rule_wf: "wf_event line (RuleEvent (parse_filter_rule (trim line)))"
proof -
  have "wf_event line (RuleEvent (Block (mark_canonical (trim line) False (apply_modifiers (trim line) m r))))"
    "wf_event line (RuleEvent (Allow (mark_canonical (trim line) True (apply_modifiers (trim line) m r))))"
    if "parse_pattern p = Some r" for m r p
    using parse_pattern_shape[OF that] by (auto simp: wf_event_def wf_mark_canonical)
  then show ?thesis
    by (auto simp: parse_filter_rule_def Let_def wf_event_def split: prod.splits option.splits)
qed

lemma hosts_rule_wf: "wf_event line (RuleEvent (hosts_rule (trim line) kind single d))"
  if "kind \<in> {HostsZero4, HostsLocal4, HostsZero6, HostsLocal6}"
  using that
  by (auto simp: wf_event_def hosts_rule_def wf_rule_def canonical_text_iff split: option.splits if_splits)

lemma scan_line_wf: "e \<in> set (scan_line json dis line) \<Longrightarrow> wf_event line e"
proof -
  assume e: "e \<in> set (scan_line json dis line)"
  have "wf_event line (RuleEvent (parse_rule line))"
    using parse_filter_rule_wf[of line] by (auto simp: parse_rule_def Let_def wf_event_def)
  moreover have "wf_event line (RuleEvent (hosts_rule (trim line) kind single d))"
    if "parse_hosts_rules (trim line) = Some (kind, ds)" for kind ds single d
    using that
    by (intro hosts_rule_wf) (auto simp: parse_hosts_rules_def hosts_kind_def Let_def split: list.splits if_splits)
  ultimately show ?thesis
    using e by (auto simp: scan_line_def Let_def wf_event_def[of _ "SourceEvent _"] split: option.splits if_splits)
qed

end
