(* ===== verification/RuleRoundTrip.thy ===== *)
theory RuleRoundTrip
  imports RuleSpec
begin

text \<open>
  Reading rule texts back: normal names are fixed points of \<open>normalize_domain\<close>, and
  a line in one of the canonical spellings, the ones the index stores without
  their text, scans to the one rule the index rebuilds it from.
\<close>

section \<open>Printable text\<close>

definition graph_char :: "char \<Rightarrow> bool" where
  "graph_char = in_code 33 126"

lemma ws_len_graph: "graph_char c \<Longrightarrow> ws_len (c # s) = 0 \<and> ws_len_rev (c # s) = 0"
  by (cases s; cases "tl s")
    (auto simp: graph_char_def in_code_def is_ws1_def is_ws2_def is_ws3_def)

lemma trim_start_graph: "s \<noteq> [] \<Longrightarrow> graph_char (hd s) \<Longrightarrow> trim_start s = s"
  using ws_len_graph[of "hd s" "tl s"] by (simp add: trim_start.simps[of s])

lemma trim_rev_graph: "s \<noteq> [] \<Longrightarrow> graph_char (hd s) \<Longrightarrow> trim_rev s = s"
  using ws_len_graph[of "hd s" "tl s"] by (simp add: trim_rev.simps[of s])

lemma trim_graph: "s \<noteq> [] \<Longrightarrow> graph_char (hd s) \<Longrightarrow> graph_char (last s) \<Longrightarrow> trim s = s"
  using trim_rev_graph[of "rev s"] by (simp add: trim_def trim_start_graph trim_end_def hd_rev)

lemma split_ws_word:
  "list_all graph_char w \<Longrightarrow> cur @ w \<noteq> [] \<Longrightarrow> split_ws_aux cur w = [cur @ w]"
proof (induction w arbitrary: cur)
  case (Cons c w)
  then show ?case using ws_len_graph[of c w] by (simp add: split_ws_aux.simps[of cur "c # w"])
qed (simp add: split_ws_aux.simps[of _ "[]"])

lemma ws_len_space: "ws_len (CHR '' '' # s) = 1"
  by (cases s; cases "tl s") (auto simp: is_ws1_def)

lemma split_ws_words:
  "list_all graph_char w \<Longrightarrow> cur @ w \<noteq> [] \<Longrightarrow>
    split_ws_aux cur (w @ CHR '' '' # v) = (cur @ w) # split_ws_aux [] v"
proof (induction w arbitrary: cur)
  case Nil
  then show ?case
    using ws_len_space[of v] by (subst split_ws_aux.simps) simp
next
  case (Cons c w)
  then show ?case
    using ws_len_graph[of c "w @ CHR '' '' # v"] by (subst split_ws_aux.simps) simp
qed

section \<open>Normal names\<close>

definition plain_name :: "string \<Rightarrow> bool" where
  "plain_name d = (d \<noteq> [] \<and> list_all domain_char d \<and> \<not> list_ex is_upper d \<and> last d \<noteq> CHR ''.'')"

lemma domain_char_graph: "domain_char c \<Longrightarrow> graph_char c"
  by (auto simp: domain_char_def is_alnum_def is_upper_def is_lower_def is_digit_def graph_char_def
      in_code_def)

lemma domain_char_not: "domain_char c \<Longrightarrow> c \<notin> {CHR ''/'', CHR ''*'', CHR '' '', CHR ''$'', CHR ''|'', CHR ''^'', CHR ''@'', CHR ''#'', CHR ''!''}"
  by (auto simp: domain_char_def is_alnum_def is_upper_def is_lower_def is_digit_def in_code_def)

lemma plain_name_graph: "plain_name d \<Longrightarrow> list_all graph_char d \<and> graph_char (hd d) \<and> graph_char (last d)"
  by (auto simp: plain_name_def list_all_iff domain_char_graph)

lemma plain_name_not: "plain_name d \<Longrightarrow> c \<in> {CHR ''/'', CHR ''*'', CHR '' '', CHR ''$'', CHR ''|'', CHR ''^'', CHR ''@'', CHR ''#'', CHR ''!''} \<Longrightarrow> c \<notin> set d"
  using domain_char_not by (fastforce simp: plain_name_def list_all_iff)

lemma trim_end_matches_id: "s = [] \<or> last s \<noteq> c \<Longrightarrow> trim_end_matches c s = s"
  by (cases s rule: rev_cases) (auto simp: trim_end_matches_def)

lemma trim_start_matches_id: "s = [] \<or> hd s \<noteq> c \<Longrightarrow> trim_start_matches c s = s"
  by (cases s) (auto simp: trim_start_matches_def)

lemma normalize_plain: "plain_name d \<Longrightarrow> normalize_domain d = Some d"
  using plain_name_graph[of d] plain_name_not[of d]
  by (auto simp: normalize_domain_def Let_def trim_graph trim_end_matches_id plain_name_def)

lemma last_trim_end_matches: "trim_end_matches c s \<noteq> [] \<Longrightarrow> last (trim_end_matches c s) \<noteq> c"
  by (metis (mono_tags, lifting) hd_dropWhile last_rev rev_is_Nil_conv trim_end_matches_def)

lemma lower_domain_char: "domain_char c \<Longrightarrow> domain_char (lower_char c) \<and> \<not> is_upper (lower_char c)"
  by (auto simp: domain_char_def is_alnum_def is_upper_def is_lower_def is_digit_def in_code_def
      lower_char_def of_char_of)

lemma lower_char_dot: "domain_char c \<Longrightarrow> lower_char c = CHR ''.'' \<longleftrightarrow> c = CHR ''.''"
  by (auto simp: lower_char_def is_upper_def in_code_def dest!: arg_cong[where f = "of_char :: char \<Rightarrow> nat"])

lemma normalize_plain_name: "normalize_domain v = Some d \<Longrightarrow> plain_name d"
proof -
  assume n: "normalize_domain v = Some d"
  define t where "t = trim_end_matches (CHR ''.'') (trim v)"
  have t: "t \<noteq> []" "list_all domain_char t" "d = (if list_ex is_upper t then to_lower t else t)"
    using n by (auto simp: normalize_domain_def Let_def t_def split: if_splits)
  have "last t \<noteq> CHR ''.''" using t(1) by (simp add: t_def last_trim_end_matches)
  moreover have "domain_char (last t)" using t(1,2) by (simp add: list_all_iff)
  ultimately show ?thesis
    using t lower_domain_char lower_char_dot
    by (auto simp: plain_name_def to_lower_def list_all_iff list_ex_iff last_map)
qed

section \<open>Canonical lines\<close>

definition plain_rule :: "string \<Rightarrow> simple_kind \<Rightarrow> string \<Rightarrow> rule_data" where
  "plain_rule line kind d = \<lparr>rd_domain = d, rd_include_subdomains = (kind = SuffixKind), rd_raw = line,
     rd_rule_type = (case kind of SuffixKind \<Rightarrow> SuffixRule | ExactPlain \<Rightarrow> ExactRule | _ \<Rightarrow> HostsRule),
     rd_important = False, rd_query_types = AnyType, rd_denyallow = [], rd_dnsrewrite = None,
     rd_canonical = Some kind\<rparr>"

lemma starts_with_Cons [simp]:
  "starts_with [] s" "starts_with (p # ps) [] = False"
  "starts_with (p # ps) (c # cs) = (p = c \<and> starts_with ps cs)"
  by (auto simp: starts_with_def)

lemma strip_prefix_Cons:
  "strip_prefix [] s = Some s" "strip_prefix (p # ps) [] = None"
  "strip_prefix (p # ps) (c # cs) = (if p = c then strip_prefix ps cs else None)"
  by (auto simp: strip_prefix_def)

lemma strip_prefix_None_hd: "s = [] \<or> hd s \<noteq> p \<Longrightarrow> strip_prefix (p # ps) s = None"
  by (cases s) (auto simp: strip_prefix_Cons)

lemma hd_plain_name:
  "plain_name d \<Longrightarrow> hd d \<notin> {CHR ''/'', CHR ''*'', CHR '' '', CHR ''$'', CHR ''|'', CHR ''^'', CHR ''@'', CHR ''#'', CHR ''!''}"
  using plain_name_not[of d "hd d"] by (auto simp: plain_name_def)

lemma last_plain_name:
  "plain_name d \<Longrightarrow> last d \<notin> {CHR ''/'', CHR ''*'', CHR '' '', CHR ''$'', CHR ''|'', CHR ''^'', CHR ''@'', CHR ''#'', CHR ''!''}"
  using plain_name_not[of d "last d"] by (auto simp: plain_name_def)

lemma starts_with_hd: "s = [] \<or> hd s \<noteq> p \<Longrightarrow> \<not> starts_with (p # ps) s"
  by (cases s) auto

lemma parse_pattern_suffix:
  assumes "plain_name d"
  shows "parse_pattern (''||'' @ d @ ''^'') = Some (new_rule d True SuffixRule)"
proof -
  have "trim_end_matches (CHR ''^'') (d @ ''^'') = d"
    using trim_end_matches_id[of d "CHR ''^''"] last_plain_name[OF assms]
    by (simp add: trim_end_matches_def)
  then show ?thesis
    using last_plain_name[OF assms] normalize_plain[OF assms]
    by (simp add: parse_pattern_def is_regex_pattern_def strip_prefix_Cons trim_end_matches_id)
qed

lemma parse_pattern_plain:
  assumes "plain_name d"
  shows "parse_pattern d = Some (new_rule d False ExactRule)"
  using hd_plain_name[OF assms] last_plain_name[OF assms] normalize_plain[OF assms]
  by (simp add: parse_pattern_def is_regex_pattern_def starts_with_hd strip_prefix_None_hd
      trim_matches_def trim_start_matches_id trim_end_matches_id)

lemma parse_filter_rule_canonical:
  assumes d: "plain_name d" and k: "kind \<in> {SuffixKind, ExactPlain}"
  shows "parse_filter_rule (canonical_rule_text kind d allow) =
    (if allow then Allow else Block) (plain_rule (canonical_rule_text kind d allow) kind d)"
proof -
  let ?p = "if kind = SuffixKind then ''||'' @ d @ ''^'' else d"
  have p: "parse_pattern ?p = Some (new_rule d (kind = SuffixKind) (if kind = SuffixKind then SuffixRule else ExactRule))"
    using parse_pattern_suffix[OF d] parse_pattern_plain[OF d] by simp
  have t: "trim ?p = ?p"
    using plain_name_graph[OF d] d
    by (intro trim_graph) (auto simp: graph_char_def in_code_def plain_name_def)
  have s: "split_once (CHR ''$'') ?p = None"
    using plain_name_not[OF d] by (auto simp: split_once_None)
  have a: "strip_prefix ''@@'' ?p = None"
    using hd_plain_name[OF d] d by (intro strip_prefix_None_hd) (auto simp: plain_name_def)
  have c: "canonical_rule_text kind d allow = (if allow then ''@@'' else []) @ ?p"
    using k by auto
  have "is_canonical_rule_text (canonical_rule_text kind d allow) kind d allow"
    using k by (simp add: canonical_text_iff)
  moreover have "strip_prefix ''@@'' (''@@'' @ ?p) = Some ?p" by (simp add: strip_prefix_Cons)
  ultimately show ?thesis
    using k unfolding parse_filter_rule_def c
    by (cases allow)
      (auto simp: Let_def a s t p parse_modifiers_def default_modifiers_def mark_canonical_def
        apply_modifiers_def new_rule_def plain_rule_def split: if_splits)
qed

lemma canonical_graph_ends:
  "plain_name d \<Longrightarrow> canonical_rule_text kind d allow \<noteq> [] \<and>
    graph_char (hd (canonical_rule_text kind d allow)) \<and> graph_char (last (canonical_rule_text kind d allow))"
  using plain_name_graph[of d]
  by (cases kind) (auto simp: plain_name_def graph_char_def in_code_def hd_append)

lemma trim_canonical: "plain_name d \<Longrightarrow> trim (canonical_rule_text kind d allow) = canonical_rule_text kind d allow"
  using canonical_graph_ends[of d kind allow] by (simp add: trim_graph)

lemma hd_canonical: "plain_name d \<Longrightarrow> hd (canonical_rule_text kind d allow) \<notin> {CHR ''#'', CHR ''!''}"
  using hd_plain_name[of d] by (cases kind) (auto simp: plain_name_def hd_append)

lemma filter_line_not_hosts:
  assumes d: "plain_name d" and k: "kind \<in> {SuffixKind, ExactPlain}"
    and h: "kind = ExactPlain \<and> \<not> allow \<longrightarrow> hosts_kind d = None"
  shows "parse_hosts_rules (canonical_rule_text kind d allow) = None"
proof -
  let ?t = "canonical_rule_text kind d allow"
  have g: "list_all graph_char ?t" and ne: "?t \<noteq> []"
    using plain_name_graph[OF d] d k by (auto simp: graph_char_def in_code_def plain_name_def)
  have "split_whitespace ?t = [?t]"
    using split_ws_word[OF g, of "[]"] ne by (simp add: split_whitespace_def)
  moreover have "hosts_kind ?t = None"
    using h k by (cases allow) (auto simp: hosts_kind_def split: if_splits)
  ultimately show ?thesis by (simp add: parse_hosts_rules_def)
qed

lemma hosts_line_parses:
  assumes d: "plain_name d" and k: "kind \<notin> {SuffixKind, ExactPlain}"
  shows "parse_hosts_rules (canonical_rule_text kind d allow) = Some (kind, [Some d])"
proof -
  obtain ip where ip: "canonical_rule_text kind d allow = ip @ CHR '' '' # d" "hosts_kind ip = Some kind"
    "list_all graph_char ip" "ip \<noteq> []"
    using k
    by (cases kind)
      (auto simp: hosts_kind_def graph_char_def in_code_def
        dest: spec[of _ "''0.0.0.0''"] spec[of _ "''127.0.0.1''"] spec[of _ "''::''"] spec[of _ "''::1''"])
  have "split_whitespace (ip @ CHR '' '' # d) = [ip, d]"
    using split_ws_words[OF ip(3), of "[]" d] split_ws_word[of d "[]"] ip(4) plain_name_graph[OF d] d
    by (simp add: split_whitespace_def plain_name_def)
  then show ?thesis
    using ip hd_plain_name[OF d] normalize_plain[OF d]
    by (simp add: parse_hosts_rules_def starts_with_hd)
qed

lemma scan_canonical_line:
  assumes d: "plain_name d" and dis: "canonical_rule_text kind d allow \<notin> dis"
    and f: "kind = ExactPlain \<and> \<not> allow \<longrightarrow> hosts_kind d = None"
    and h: "allow \<longrightarrow> kind \<in> {SuffixKind, ExactPlain}"
  shows "scan_line json dis (canonical_rule_text kind d allow) =
    [RuleEvent ((if allow then Allow else Block) (plain_rule (canonical_rule_text kind d allow) kind d))]"
proof -
  let ?t = "canonical_rule_text kind d allow"
  have s: "strip_prefix SOURCE_MARKER_PREFIX (canonical_rule_text kind d a) = None" for a
    using hd_canonical[OF d, of kind a] by (simp add: SOURCE_MARKER_PREFIX_def strip_prefix_None_hd)
  show ?thesis
  proof (cases "kind \<in> {SuffixKind, ExactPlain}")
    case True
    have "parse_rule ?t = (if allow then Allow else Block) (plain_rule ?t kind d)"
      using hd_canonical[OF d, of kind allow] canonical_graph_ends[OF d, of kind allow]
      by (simp add: parse_rule_def trim_canonical[OF d] is_comment_def starts_with_hd
          parse_filter_rule_canonical[OF d True])
    then show ?thesis
      using filter_line_not_hosts[OF d True f] dis
      by (simp add: scan_line_def s trim_canonical[OF d])
  next
    case False
    have "is_canonical_rule_text ?t kind d False"
      using False h by (simp add: canonical_text_iff)
    then have "hosts_rule ?t kind True (Some d) = Block (plain_rule ?t kind d)"
      using False by (cases kind) (auto simp: hosts_rule_def plain_rule_def)
    then show ?thesis
      using hosts_line_parses[OF d False] False h dis
      by (simp add: scan_line_def s trim_canonical[OF d] Let_def)
  qed
qed

section \<open>Properties\<close>

text \<open>\<open>normalize_domain\<close> yields names in normal form (non-empty, of the allowed characters,
  without capitals and without a trailing dot) and leaves a normal name as it is.\<close>

theorem normalize_domain_normal:
  assumes "normalize_domain v = Some d"
  shows "plain_name d \<and> normalize_domain d = Some d"
  using normalize_plain_name[OF assms] normalize_plain by blast

theorem normalize_domain_normal_witness:
  "plain_name ''ads.example'' \<and> normalize_domain ''ads.example'' = Some ''ads.example''"
  by (rule normalize_domain_normal[of "''  Ads.Example. ''"]) code_simp

text \<open>C6. The compressed entries of the index lose nothing: the text rebuilt from the kind and the
  name scans back to exactly one rule, for that name, with that kind and that text.\<close>

theorem canonical_text_round_trip:
  assumes "plain_name d" and "canonical_rule_text kind d allow \<notin> dis"
    and "kind = ExactPlain \<and> \<not> allow \<longrightarrow> hosts_kind d = None"
    and "allow \<longrightarrow> kind \<in> {SuffixKind, ExactPlain}"
  shows "scan_line json dis (canonical_rule_text kind d allow) =
    [RuleEvent ((if allow then Allow else Block) (plain_rule (canonical_rule_text kind d allow) kind d))]"
  using assms by (rule scan_canonical_line)

theorem canonical_text_round_trip_witness:
  "scan_line (\<lambda>_. None) {''||b.c^''} ''@@||a.b^'' = [RuleEvent (Allow (plain_rule ''@@||a.b^'' SuffixKind ''a.b''))]"
  using canonical_text_round_trip[of "''a.b''" SuffixKind True "{''||b.c^''}" "\<lambda>_. None"]
  by (simp add: plain_name_def domain_char_def is_alnum_def is_lower_def is_upper_def in_code_def)

end
