(* ===== verification/RuleVerdict.thy ===== *)
theory RuleVerdict
  imports RuleSpec
begin

text \<open>
  What the compiled rules decide, in terms of the rules of the source text:
  \<open>effective_rules\<close> lists the rules that survive the scan, \<open>built_from\<close> relates a
  layer to such a list, \<open>verdict\<close> states the precedence of the four kinds of rules,
  and a layered and a merged custom rule set are shown to decide alike.
\<close>

section \<open>Layers and the rules they were built from\<close>

definition event_rule :: "scan_event \<Rightarrow> (bool \<times> rule_data) list" where
  "event_rule e =
     (case e of
        RuleEvent (Block r) \<Rightarrow> [(False, r)]
      | RuleEvent (Allow r) \<Rightarrow> [(True, r)]
      | _ \<Rightarrow> [])"

definition effective_rules ::
  "(string \<Rightarrow> string option) \<Rightarrow> string \<Rightarrow> string set \<Rightarrow> (bool \<times> rule_data) list" where
  "effective_rules json raw extra =
     concat (map event_rule (fst (scan_rules_with_disabled json raw extra)))"

definition erase :: "complex_rule \<Rightarrow> complex_rule" where
  "erase r = r\<lparr>cr_source_id := 0\<rparr>"

definition named_rules :: "(bool \<times> rule_data) list \<Rightarrow> bool \<Rightarrow> bool \<Rightarrow> string \<Rightarrow> complex_rule list" where
  "named_rules rs allow exact key =
     map (\<lambda>(a, r). complex_of r 0)
       (filter (\<lambda>(a, r). a = allow \<and> rd_include_subdomains r = (\<not> exact) \<and> rd_domain r = key) rs)"

definition built_from :: "compiled_layer \<Rightarrow> (bool \<times> rule_data) list \<Rightarrow> bool" where
  "built_from l rs \<longleftrightarrow>
     (\<forall>allow exact key. map erase (rules_at l allow exact key) =
        foldl add_rule [] (named_rules rs allow exact key)) \<and>
     has_dnsrewrites l = list_ex (\<lambda>(a, r). \<not> a \<and> rd_dnsrewrite r \<noteq> None) rs"

lemma named_rules_append [simp]:
  "named_rules (xs @ ys) allow exact key = named_rules xs allow exact key @ named_rules ys allow exact key"
  by (simp add: named_rules_def)

lemma erase_sem [simp]: "rule_sem (erase r) = rule_sem r"
  by (simp add: rule_sem_def erase_def)

lemma map_erase_add_rule: "map erase (add_rule rs r) = add_rule (map erase rs) (erase r)"
  by (auto simp: add_rule_def image_iff)

lemma map_erase_foldl:
  "map erase (foldl add_rule acc rs) = foldl add_rule (map erase acc) (map erase rs)"
  by (induction rs arbitrary: acc) (simp_all add: map_erase_add_rule)

lemma event_rules_strip:
  "map (\<lambda>(a, r, i). (a, r)) (event_rules srcs i es) = concat (map event_rule es)"
  by (induction srcs i es rule: event_rules.induct) (auto simp: event_rule_def split: prod.splits)

lemma erase_at_name:
  "map erase (at_name key (side_rules allow (\<not> exact) rs)) =
    named_rules (map (\<lambda>(a, r, i). (a, r)) rs) allow exact key"
  by (induction rs) (auto simp: named_rules_def erase_def complex_of_def split: if_splits)

lemma any_rewrite_strip:
  "any_rewrite rs = list_ex (\<lambda>(a, r). \<not> a \<and> rd_dnsrewrite r \<noteq> None) (map (\<lambda>(a, r, i). (a, r)) rs)"
  by (induction rs) (auto simp: any_rewrite_def)

text \<open>The compiler's loop, started from any state, adds the rules of the events.\<close>

definition state_layer :: "compile_state \<Rightarrow> string set \<Rightarrow> compiled_layer" where
  "state_layer s dis = \<lparr>blocks = cs_blocks s, allows = cs_allows s, sources = cs_sources s,
     summary = cs_summary s, has_dnsrewrites = cs_has_dnsrewrites s, disabled = dis\<rparr>"

lemma event_rules_wf:
  assumes "\<forall>e \<in> set es. \<exists>line. wf_event line e" and "(a, r, i) \<in> set (event_rules srcs j es)"
  shows "wf_rule a r"
  using assms
  by (induction srcs j es rule: event_rules.induct) (auto simp: wf_event_def split: prod.splits)

lemma built_from_fold:
  assumes "\<forall>e \<in> set es. \<exists>line. wf_event line e" and b: "built_from (state_layer s dis) rs"
  shows "built_from (state_layer (foldl compile_event s es) dis') (rs @ concat (map event_rule es))"
proof -
  define ers where "ers = event_rules (cs_sources s) (cs_source_id s) es"
  have wf: "\<forall>x \<in> set (side_rules a incl ers). wf_rule a (fst x)" for a incl
    using event_rules_wf[OF assms(1)] by (auto simp: side_rules_def ers_def)
  have strip: "map (\<lambda>(a, r, i). (a, r)) ers = concat (map event_rule es)"
    by (simp add: ers_def event_rules_strip)
  have step: "rules_at (state_layer (foldl compile_event s es) dis') allow exact key =
      foldl add_rule (rules_at (state_layer s dis) allow exact key)
        (at_name key (side_rules allow (\<not> exact) ers))" for allow exact key
    using blk.rules_insert_all[OF wf[of False "\<not> exact"], where k = key]
      alw.rules_insert_all[OF wf[of True "\<not> exact"], where k = key]
    by (cases allow; cases exact)
      (simp_all add: rules_at_def layer_table_def state_layer_def compile_fold flip: ers_def)
  have "map erase (rules_at (state_layer (foldl compile_event s es) dis') allow exact key) =
      foldl add_rule [] (named_rules (rs @ concat (map event_rule es)) allow exact key)"
    for allow exact key
    using b by (simp add: step map_erase_foldl erase_at_name strip built_from_def)
  moreover have "cs_has_dnsrewrites s = list_ex (\<lambda>(a, r). \<not> a \<and> rd_dnsrewrite r \<noteq> None) rs"
    using b by (simp add: built_from_def state_layer_def)
  ultimately show ?thesis
    by (simp add: built_from_def compile_fold any_rewrite_strip strip flip: ers_def)
      (simp add: state_layer_def compile_fold any_rewrite_strip strip flip: ers_def)
qed

lemma scan_events_wf:
  "\<forall>e \<in> set (fst (scan_rules_with_disabled json raw extra)). \<exists>line. wf_event line e"
  using scan_line_wf by (fastforce simp: scan_rules_with_disabled_def Let_def)

lemma built_from_init: "built_from (state_layer init_compile_state dis) []"
  by (auto simp: built_from_def state_layer_def init_compile_state_def rules_at_def layer_table_def
      named_rules_def empty_rule_set_def Let_def)

lemma built_from_compile:
  "built_from (compiled_layer.truncate (compile_rules_with_disabled json raw extra))
     (effective_rules json raw extra)"
  using built_from_fold[OF scan_events_wf built_from_init, of json raw extra]
  by (cases "scan_rules_with_disabled json raw extra")
    (simp add: effective_rules_def compile_rules_with_disabled_def state_layer_def
      compiled_layer.defs Let_def)

section \<open>Lookups over layers\<close>

text \<open>What a lookup reports, without the name of the list it came from.\<close>

definition report :: "rule_candidate \<Rightarrow> string \<times> rule_type \<times> dns_rewrite_action option" where
  "report c = (rc_raw c, rc_rule_type c, rc_dnsrewrite c)"

definition rule_report :: "complex_rule \<Rightarrow> string \<times> rule_type \<times> dns_rewrite_action option" where
  "rule_report r = (cr_raw r, cr_rule_type r, cr_dnsrewrite r)"

lemma find_map_erase:
  assumes "\<And>r. P (erase r) = P r"
  shows "find P (map erase rs) = map_option erase (find P rs)"
  using assms by (induction rs) auto

lemma find_rules_at:
  assumes "built_from l rs"
  shows "map_option erase (find (plain_match d qt imp) (rules_at l allow exact key)) =
    find (plain_match d qt imp) (named_rules rs allow exact key)"
proof -
  have "map_option erase (find (plain_match d qt imp) (rules_at l allow exact key)) =
      find (plain_match d qt imp) (map erase (rules_at l allow exact key))"
    using plain_match_sem[OF erase_sem, of d qt imp] by (simp add: find_map_erase)
  also have "\<dots> = find (plain_match d qt imp) (named_rules rs allow exact key)"
    using assms find_foldl_add_rule[of "plain_match d qt imp" "[]", OF plain_match_sem]
    by (simp add: built_from_def)
  finally show ?thesis .
qed

lemma report_candidate: "report (candidate_of l r) = rule_report (erase r)"
  by (simp add: report_def candidate_of_def rule_report_def erase_def)

lemma lookup_layers_report:
  assumes "list_all2 built_from ls rss"
  shows "map_option report (lookup_layers ls key d qt imp allow exact) =
    map_option rule_report (find (plain_match d qt imp) (named_rules (concat rss) allow exact key))"
  using assms
proof (induction ls rss rule: list_all2_induct)
  case (Cons l ls rs rss)
  then show ?case
    using find_rules_at[OF Cons.hyps(1), of d qt imp allow exact key]
    by (auto simp: lookup_layers_Cons find_append report_candidate split: option.splits)
qed (simp add: named_rules_def)

interpretation walk: suffix_table
    "\<lambda>(ls, d, qt, imp, allow) key. lookup_layers ls key d qt imp allow False"
    "\<lambda>(ls, d, qt, imp, allow) name.
       (case lookup_layers ls name d qt imp allow False of
          Some c \<Rightarrow> Some c
        | None \<Rightarrow> first_parent (\<lambda>key. lookup_layers ls key d qt imp allow False) name)"
  by unfold_locales (auto split: option.splits)

lemma first_parent_map:
  "map_option f (first_parent look d) = first_parent (\<lambda>k. map_option f (look k)) d"
proof (induction look d rule: first_parent.induct)
  case (1 look d)
  then show ?case
    by (auto simp: first_parent.simps[of look d] first_parent.simps[of "\<lambda>k. map_option f (look k)" d]
        split: option.splits)
qed

text \<open>The first rule that applies: the exact name, then the suffix rules from the name upwards.\<close>

definition first_plain ::
  "(bool \<times> rule_data) list \<Rightarrow> string \<Rightarrow> u16 \<Rightarrow> bool \<Rightarrow> bool \<Rightarrow> complex_rule option" where
  "first_plain rs d qt imp allow =
     (let look = (\<lambda>exact key. find (plain_match d qt imp) (named_rules rs allow exact key))
      in case look True d of
           Some r \<Rightarrow> Some r
         | None \<Rightarrow> (case look False d of Some r \<Rightarrow> Some r | None \<Rightarrow> first_parent (look False) d))"

lemma find_layered_match_report:
  assumes "list_all2 built_from ls rss"
  shows "map_option report (find_layered_match ls d qt imp allow) =
    map_option rule_report (first_plain (concat rss) d qt imp allow)"
proof -
  have c: "map_option f (case x of Some c \<Rightarrow> Some c | None \<Rightarrow> y) =
      (case map_option f x of Some c \<Rightarrow> Some c | None \<Rightarrow> map_option f y)" for f x y
    by (cases x) simp_all
  show ?thesis
    by (simp only: find_layered_match_def first_plain_def c first_parent_map Let_def
        lookup_layers_report[OF assms])
qed

section \<open>The verdict\<close>

definition rule_covers :: "rule_data \<Rightarrow> string \<Rightarrow> bool" where
  "rule_covers r d =
     (if rd_include_subdomains r then domain_matches d (rd_domain r) else d = rd_domain r)"

definition line_rule_applies :: "rule_data \<Rightarrow> string \<Rightarrow> u16 \<Rightarrow> bool" where
  "line_rule_applies r d qt =
     (rule_covers r d \<and> query_types_match (rd_query_types r) qt \<and>
      \<not> list_ex (domain_matches d) (rd_denyallow r))"

definition some_plain :: "(bool \<times> rule_data) list \<Rightarrow> bool \<Rightarrow> bool \<Rightarrow> string \<Rightarrow> u16 \<Rightarrow> bool" where
  "some_plain rs imp allow d qt =
     list_ex (\<lambda>(a, r). a = allow \<and> rd_dnsrewrite r = None \<and> rd_important r = imp \<and>
                       line_rule_applies r d qt) rs"

definition some_rewrite :: "(bool \<times> rule_data) list \<Rightarrow> string \<Rightarrow> u16 \<Rightarrow> bool" where
  "some_rewrite rs d qt =
     list_ex (\<lambda>(a, r). \<not> a \<and> rd_dnsrewrite r \<noteq> None \<and> line_rule_applies r d qt) rs"

definition verdict :: "(bool \<times> rule_data) list \<Rightarrow> string \<Rightarrow> u16 \<Rightarrow> bool" where
  "verdict rs d qt =
     (some_rewrite rs d qt \<or>
      \<not> some_plain rs True True d qt \<and>
      (some_plain rs True False d qt \<or>
       \<not> some_plain rs False True d qt \<and> some_plain rs False False d qt))"

lemma find_named_None:
  "find (plain_match d qt imp) (named_rules rs allow exact key) = None \<longleftrightarrow>
    (\<forall>(a, r) \<in> set rs. \<not> (a = allow \<and> rd_include_subdomains r = (\<not> exact) \<and> rd_domain r = key \<and>
       plain_match d qt imp (complex_of r 0)))"
  by (auto simp: find_None_iff named_rules_def)

lemma first_plain_None: "first_plain rs d qt imp allow = None \<longleftrightarrow> \<not> some_plain rs imp allow d qt"
proof -
  have "first_plain rs d qt imp allow = None \<longleftrightarrow>
      find (plain_match d qt imp) (named_rules rs allow True d) = None \<and>
      (\<forall>s. domain_matches d s \<longrightarrow> find (plain_match d qt imp) (named_rules rs allow False s) = None)"
    by (auto simp: first_plain_def Let_def first_parent_None parent_names_iff domain_matches_iff
        split: option.splits)
  also have "\<dots> \<longleftrightarrow> (\<forall>(a, r) \<in> set rs. \<not> (a = allow \<and> rule_covers r d \<and>
      plain_match d qt imp (complex_of r 0)))"
    unfolding find_named_None rule_covers_def by (auto 4 3 split: if_splits)
  also have "\<dots> \<longleftrightarrow> \<not> some_plain rs imp allow d qt"
    unfolding some_plain_def list_ex_iff line_rule_applies_def plain_match_def complex_matches_def
    by (auto simp: complex_of_def)
  finally show ?thesis .
qed

lemma find_layered_match_None:
  assumes "list_all2 built_from ls rss"
  shows "find_layered_match ls d qt imp allow = None \<longleftrightarrow> \<not> some_plain (concat rss) imp allow d qt"
proof -
  have "find_layered_match ls d qt imp allow = None \<longleftrightarrow> first_plain (concat rss) d qt imp allow = None"
    using find_layered_match_report[OF assms, of d qt imp allow] by (metis option.map_disc_iff)
  then show ?thesis by (simp add: first_plain_None)
qed

section \<open>Rewrite rules over layers\<close>

text \<open>
  Two lists of rules that add the same rules to any list.  Inserting a list that is
  already free of repetitions, or the list itself, makes no difference.
\<close>

definition same_added :: "complex_rule list \<Rightarrow> complex_rule list \<Rightarrow> bool" where
  "same_added xs ys = (\<forall>acc. foldl add_rule acc xs = foldl add_rule acc ys)"

lemma same_added_refl [simp, intro]: "same_added xs xs"
  by (simp add: same_added_def)

lemma same_added_append: "same_added xs xs' \<Longrightarrow> same_added ys ys' \<Longrightarrow> same_added (xs @ ys) (xs' @ ys')"
  by (simp add: same_added_def)

lemma add_rule_known: "rule_sem r \<in> rule_sem ` set rs \<Longrightarrow> add_rule rs r = rs"
  by (simp add: add_rule_def)

lemma same_added_dedup: "same_added (foldl add_rule [] xs) xs"
proof (induction xs rule: rev_induct)
  case (snoc x xs)
  show ?case
  proof (cases "rule_sem x \<in> rule_sem ` set xs")
    case True
    then have "add_rule (foldl add_rule [] xs) x = foldl add_rule [] xs"
      by (intro add_rule_known) (simp add: sem_foldl_add_rule)
    moreover have "add_rule (foldl add_rule acc xs) x = foldl add_rule acc xs" for acc
      using True by (intro add_rule_known) (auto simp: sem_foldl_add_rule)
    ultimately show ?thesis using snoc by (simp add: same_added_def)
  next
    case False
    then have "add_rule (foldl add_rule [] xs) x = foldl add_rule [] xs @ [x]"
      using sem_foldl_add_rule[of "[]" xs] by (simp add: add_rule_def)
    then show ?thesis using snoc by (simp add: same_added_def)
  qed
qed simp

lemma filter_foldl_add_rule:
  assumes "\<And>r r'. rule_sem r = rule_sem r' \<Longrightarrow> P r = P r'"
  shows "filter P (foldl add_rule acc rs) = foldl add_rule (filter P acc) (filter P rs)"
proof (induction rs arbitrary: acc)
  case (Cons r rs)
  have "filter P (add_rule acc r) = (if P r then add_rule (filter P acc) r else filter P acc)"
  proof (cases "rule_sem r \<in> rule_sem ` set acc")
    case True
    then obtain r' where r': "r' \<in> set acc" "rule_sem r' = rule_sem r" by (metis imageE)
    then have "P r \<Longrightarrow> rule_sem r \<in> rule_sem ` set (filter P acc)"
      using assms[OF r'(2)] r' by (intro image_eqI[of _ _ r']) simp_all
    then show ?thesis
      using True by (simp add: add_rule_known)
  next
    case False
    then have "rule_sem r \<notin> rule_sem ` set (filter P acc)" by auto
    with False show ?thesis by (simp add: add_rule_def)
  qed
  then show ?case by (simp add: Cons)
qed simp

lemma hd_foldl_add_rule: "xs \<noteq> [] \<Longrightarrow> hd (foldl add_rule [] xs) = hd xs \<and> foldl add_rule [] xs \<noteq> []"
proof (induction xs rule: rev_induct)
  case (snoc x xs)
  then show ?case by (cases "xs = []") (auto simp: add_rule_def)
qed simp

lemma hd_foldl_Nil [simp]: "foldl add_rule [] xs = [] \<longleftrightarrow> xs = []"
  using hd_foldl_add_rule[of xs] by auto

definition is_rewrite :: "string \<Rightarrow> u16 \<Rightarrow> complex_rule \<Rightarrow> bool" where
  "is_rewrite d qt r = (cr_dnsrewrite r \<noteq> None \<and> complex_matches r d qt (cr_important r))"

lemma is_rewrite_sem: "rule_sem r = rule_sem r' \<Longrightarrow> is_rewrite d qt r = is_rewrite d qt r'"
  by (simp add: is_rewrite_def complex_matches_def rule_sem_def)

lemma filter_map_erase:
  assumes "\<And>r. P (erase r) = P r"
  shows "filter P (map erase rs) = map erase (filter P rs)"
  using assms by (induction rs) auto

lemma layer_rewrites_erased:
  "map (\<lambda>lr. erase (snd lr)) (layer_rewrites l exact name d qt) =
    filter (is_rewrite d qt) (map erase (rules_at l False exact name))"
proof -
  have q: "is_rewrite d qt (erase r) = is_rewrite d qt r" for r
    by (intro is_rewrite_sem erase_sem)
  have e: "(\<lambda>r. cr_dnsrewrite r \<noteq> None \<and> complex_matches r d qt (cr_important r)) = is_rewrite d qt"
    by (simp add: fun_eq_iff is_rewrite_def)
  show ?thesis
    unfolding filter_map_erase[of "is_rewrite d qt", OF q] layer_rewrites_def e rules_at_def
    by (auto simp: comp_def to_complex_def is_rewrite_def split: option.splits rule_entry.splits)
qed

definition rewrites_at :: "(bool \<times> rule_data) list \<Rightarrow> bool \<Rightarrow> string \<Rightarrow> string \<Rightarrow> u16 \<Rightarrow> complex_rule list" where
  "rewrites_at rs exact name d qt = filter (is_rewrite d qt) (named_rules rs False exact name)"

lemma rewrites_at_append [simp]:
  "rewrites_at (xs @ ys) exact name d qt = rewrites_at xs exact name d qt @ rewrites_at ys exact name d qt"
  by (simp add: rewrites_at_def)

lemma no_rewrites_at:
  "\<not> list_ex (\<lambda>(a, r). \<not> a \<and> rd_dnsrewrite r \<noteq> None) rs \<Longrightarrow> rewrites_at rs exact name d qt = []"
  by (auto simp: rewrites_at_def named_rules_def filter_empty_conv list_ex_iff is_rewrite_def
      complex_of_def)

lemma layer_rewrites_added:
  assumes "built_from l rs"
  shows "same_added
    (map (\<lambda>lr. erase (snd lr)) (if has_dnsrewrites l then layer_rewrites l exact name d qt else []))
    (rewrites_at rs exact name d qt)"
proof (cases "has_dnsrewrites l")
  case True
  have "map (\<lambda>lr. erase (snd lr)) (layer_rewrites l exact name d qt) =
      foldl add_rule [] (rewrites_at rs exact name d qt)"
    using assms filter_foldl_add_rule[of "is_rewrite d qt" "[]", OF is_rewrite_sem]
    unfolding layer_rewrites_erased rewrites_at_def built_from_def by simp
  then show ?thesis using True by (simp add: same_added_dedup)
next
  case False
  then show ?thesis
    using assms by (simp add: built_from_def no_rewrites_at)
qed

lemma layers_rewrites_added:
  assumes "list_all2 built_from ls rss"
  shows "same_added
    (map (\<lambda>lr. erase (snd lr))
      (concat (map (\<lambda>l. layer_rewrites l exact name d qt) (filter has_dnsrewrites ls))))
    (rewrites_at (concat rss) exact name d qt)"
  using assms
proof (induction ls rss rule: list_all2_induct)
  case (Cons l ls rs rss)
  have "map (\<lambda>lr. erase (snd lr))
      (concat (map (\<lambda>l. layer_rewrites l exact name d qt) (filter has_dnsrewrites (l # ls)))) =
    map (\<lambda>lr. erase (snd lr)) (if has_dnsrewrites l then layer_rewrites l exact name d qt else []) @
    map (\<lambda>lr. erase (snd lr))
      (concat (map (\<lambda>l. layer_rewrites l exact name d qt) (filter has_dnsrewrites ls)))"
    by simp
  then show ?case
    using same_added_append[OF layer_rewrites_added[OF Cons.hyps(1)] Cons.IH] by simp
qed (simp add: rewrites_at_def named_rules_def)

function rewrites_along :: "(bool \<times> rule_data) list \<Rightarrow> string \<Rightarrow> string \<Rightarrow> u16 \<Rightarrow> complex_rule list" where
  "rewrites_along rs name d qt =
     (if name = d then rewrites_at rs True name d qt else []) @ rewrites_at rs False name d qt @
     (case split_once (CHR ''.'') name of None \<Rightarrow> [] | Some (_, r) \<Rightarrow> rewrites_along rs r d qt)"
  by pat_completeness auto
termination
  by (relation "measure (\<lambda>(rs, name, d, qt). length name)") (auto dest: split_once_length)

declare rewrites_along.simps [simp del]

lemma collect_rewrites_added:
  assumes "list_all2 built_from ls rss"
  shows "same_added (map (\<lambda>lr. erase (snd lr)) (collect_rewrites ls name d qt))
    (rewrites_along (concat rss) name d qt)"
proof (induction name rule: parent_names.induct)
  case (1 name)
  have "same_added (map (\<lambda>lr. erase (snd lr)) (name_rewrites ls name d qt))
      ((if name = d then rewrites_at (concat rss) True name d qt else []) @
       rewrites_at (concat rss) False name d qt)"
    using layers_rewrites_added[OF assms]
    by (auto simp: name_rewrites_def intro!: same_added_append)
  moreover have "same_added
      (map (\<lambda>lr. erase (snd lr))
        (case split_once (CHR ''.'') name of None \<Rightarrow> [] | Some (_, r) \<Rightarrow> collect_rewrites ls r d qt))
      (case split_once (CHR ''.'') name of None \<Rightarrow> [] | Some (_, r) \<Rightarrow> rewrites_along (concat rss) r d qt)"
    using "1" by (auto split: option.splits)
  ultimately show ?case
    unfolding collect_rewrites.simps[of ls name] rewrites_along.simps[of "concat rss" name]
    by (simp only: map_append append_assoc[symmetric] same_added_append)
qed

section \<open>The decision of a rule set\<close>

text \<open>
  What a match decides: everything the server acts upon, less the name of the list
  and, for a rewrite, the texts of the merged rules.
\<close>

type_synonym decision =
  "string \<times> bool \<times> string option \<times> dns_rewrite_action option \<times> string option"

definition decision :: "block_match \<Rightarrow> decision" where
  "decision m = (bm_rule_type m, bm_important_overrode m, bm_allowlist_rule m, bm_dnsrewrite m,
     if bm_dnsrewrite m = None then Some (bm_rule m) else None)"

definition prio :: "complex_rule \<Rightarrow> nat" where
  "prio r = rewrite_priority (the (cr_dnsrewrite r))"

definition best_rewrites :: "complex_rule list \<Rightarrow> complex_rule list" where
  "best_rewrites rs =
     (let ms = (if list_ex cr_important rs then filter cr_important rs else rs);
          best = Min (set (map prio ms))
      in filter (\<lambda>r. prio r = best) ms)"

definition rewrite_decision :: "complex_rule list \<Rightarrow> (string \<times> rule_type \<times> dns_rewrite_action option) option \<Rightarrow> decision option" where
  "rewrite_decision rs allow =
     (if rs = [] then None
      else (let ms = best_rewrites rs; first = hd ms
            in Some (rule_type_text (cr_rule_type first) @ '' rewrite'',
                 cr_important first \<and> allow \<noteq> None, map_option fst allow,
                 Some (merged_action (map (\<lambda>r. the (cr_dnsrewrite r))
                   (if prio first < 2 then take 1 ms else ms))), None)))"

lemma prio_sem: "rule_sem r = rule_sem r' \<Longrightarrow> prio r = prio r'"
  by (simp add: prio_def rule_sem_def)

lemma important_sem: "rule_sem r = rule_sem r' \<Longrightarrow> cr_important r = cr_important r'"
  by (simp add: rule_sem_def)

lemma image_foldl_add_rule:
  assumes "\<And>r r'. rule_sem r = rule_sem r' \<Longrightarrow> f r = f r'"
  shows "f ` set (foldl add_rule [] rs) = f ` set rs"
proof -
  define g where "g s = f (SOME r. rule_sem r = s)" for s
  have "f r = g (rule_sem r)" for r
    unfolding g_def by (rule assms) (metis (mono_tags, lifting) someI)
  then have "f ` X = g ` (rule_sem ` X)" for X by (auto simp: image_image)
  then show ?thesis using sem_foldl_add_rule[of "[]" rs] by simp
qed

lemma list_ex_important_dedup: "list_ex cr_important (foldl add_rule [] rs) = list_ex cr_important rs"
proof -
  have ex: "list_ex cr_important xs \<longleftrightarrow> True \<in> cr_important ` set xs" for xs
    by (auto simp: list_ex_iff image_iff)
  show ?thesis
    unfolding ex
    by (rule arg_cong[where f = "\<lambda>X. True \<in> X", OF image_foldl_add_rule[OF important_sem]])
qed

lemma best_rewrites_dedup: "best_rewrites (foldl add_rule [] rs) = foldl add_rule [] (best_rewrites rs)"
proof -
  define ms where "ms = (if list_ex cr_important rs then filter cr_important rs else rs)"
  have "(if list_ex cr_important (foldl add_rule [] rs) then filter cr_important (foldl add_rule [] rs)
      else foldl add_rule [] rs) = foldl add_rule [] ms"
    using filter_foldl_add_rule[of cr_important "[]" rs, OF important_sem]
    by (simp add: list_ex_important_dedup ms_def)
  moreover have "prio ` set (foldl add_rule [] ms) = prio ` set ms"
    by (rule image_foldl_add_rule[OF prio_sem])
  moreover have "filter (\<lambda>r. prio r = b) (foldl add_rule [] ms) =
      foldl add_rule [] (filter (\<lambda>r. prio r = b) ms)" for b
  proof -
    have "(prio r = b) = (prio r' = b)" if "rule_sem r = rule_sem r'" for r r'
      using prio_sem[OF that] by simp
    from filter_foldl_add_rule[of "\<lambda>r. prio r = b" "[]" ms, OF this] show ?thesis by simp
  qed
  ultimately show ?thesis
    by (simp add: best_rewrites_def Let_def flip: ms_def)
qed

lemma set_distinct_actions: "set (distinct_actions acc as) = set acc \<union> set as"
  by (induction acc as rule: distinct_actions.induct) auto

lemma distinct_actions_append:
  "distinct_actions acc (xs @ ys) = distinct_actions (distinct_actions acc xs) ys"
  by (induction acc xs rule: distinct_actions.induct) auto

lemma distinct_actions_dedup:
  "distinct_actions [] (map (\<lambda>r. the (cr_dnsrewrite r)) (foldl add_rule [] rs)) =
    distinct_actions [] (map (\<lambda>r. the (cr_dnsrewrite r)) rs)"
proof (induction rs rule: rev_induct)
  case (snoc x xs)
  let ?a = "\<lambda>r. the (cr_dnsrewrite r)"
  show ?case
  proof (cases "rule_sem x \<in> rule_sem ` set xs")
    case True
    then have "?a x \<in> ?a ` set xs" by (auto simp: rule_sem_def)
    then show ?thesis
      using True snoc sem_foldl_add_rule[of "[]" xs]
      by (simp add: add_rule_known distinct_actions_append set_distinct_actions)
  next
    case False
    then have "add_rule (foldl add_rule [] xs) x = foldl add_rule [] xs @ [x]"
      using sem_foldl_add_rule[of "[]" xs] by (simp add: add_rule_def)
    then show ?thesis using snoc by (simp add: distinct_actions_append)
  qed
qed simp

lemma best_rewrites_nonempty: "rs \<noteq> [] \<Longrightarrow> best_rewrites rs \<noteq> []"
proof -
  assume "rs \<noteq> []"
  define ms where "ms = (if list_ex cr_important rs then filter cr_important rs else rs)"
  have "ms \<noteq> []" using \<open>rs \<noteq> []\<close> by (auto simp: ms_def list_ex_iff filter_empty_conv)
  then have "Min (prio ` set ms) \<in> prio ` set ms" by (intro Min_in) auto
  then show ?thesis
    by (auto simp: best_rewrites_def Let_def filter_empty_conv simp flip: ms_def)
qed

lemma rewrite_decision_dedup: "rewrite_decision (foldl add_rule [] rs) allow = rewrite_decision rs allow"
proof (cases "rs = []")
  case False
  let ?ms = "best_rewrites rs"
  have ms: "?ms \<noteq> []" by (rule best_rewrites_nonempty[OF False])
  have hd: "hd (foldl add_rule [] ?ms) = hd ?ms" using hd_foldl_add_rule[OF ms] by simp
  have tk: "take (Suc 0) xs = (if xs = [] then [] else [hd xs])" for xs :: "complex_rule list" by (cases xs) auto
  show ?thesis
    using False ms
    by (simp add: rewrite_decision_def best_rewrites_dedup hd tk Let_def merged_action_def
        distinct_actions_dedup)
qed simp

lemma rewrite_decision_added: "same_added xs ys \<Longrightarrow> rewrite_decision xs allow = rewrite_decision ys allow"
  using rewrite_decision_dedup[of xs allow] rewrite_decision_dedup[of ys allow]
  by (simp add: same_added_def)

lemma collect_rewrites_none: "\<not> list_ex has_dnsrewrites ls \<Longrightarrow> collect_rewrites ls name d qt = []"
proof (induction name rule: parent_names.induct)
  case (1 name)
  then have "filter has_dnsrewrites ls = []" by (simp add: filter_empty_conv list_ex_iff)
  then have "name_rewrites ls name d qt = []" by (simp add: name_rewrites_def)
  then show ?case
    using "1" unfolding collect_rewrites.simps[of ls name] by (auto split: option.splits)
qed

abbreviation strip :: "compiled_layer \<times> complex_rule \<Rightarrow> complex_rule" where
  "strip lr \<equiv> erase (snd lr)"

lemma erase_fields [simp]:
  "cr_important (erase r) = cr_important r" "cr_rule_type (erase r) = cr_rule_type r"
  "cr_dnsrewrite (erase r) = cr_dnsrewrite r" "prio (erase r) = prio r"
  by (simp_all add: erase_def prio_def)

lemma rule_priority_prio: "rule_priority lr = prio (snd lr)"
  by (simp add: rule_priority_def prio_def)

lemma filter_map_strip:
  "filter P (map strip ms) = map strip (filter (\<lambda>lr. P (strip lr)) ms)"
  by (simp add: filter_map comp_def)

lemma best_rewrites_strip:
  "best_rewrites (map strip ms) =
    map strip (filter (\<lambda>m. rule_priority m = Min (set (map rule_priority (keep_important ms))))
      (keep_important ms))"
proof -
  have ex: "list_ex cr_important (map strip ms) = list_ex (\<lambda>(_, r). cr_important r) ms"
    by (auto simp: list_ex_iff case_prod_beta')
  have keep: "(if list_ex cr_important (map strip ms) then filter cr_important (map strip ms)
      else map strip ms) = map strip (keep_important ms)"
    unfolding ex keep_important_def filter_map_strip by (simp add: case_prod_beta')
  show ?thesis
    unfolding best_rewrites_def keep Let_def
    by (simp add: filter_map_strip rule_priority_prio image_image)
qed

lemma rewrite_match_decision:
  "map_option decision (rewrite_match_layers ls d qt) =
    rewrite_decision (map strip (collect_rewrites ls d d qt))
      (map_option report (find_layered_match ls d qt False True))"
proof (cases "list_ex has_dnsrewrites ls \<and> collect_rewrites ls d d qt \<noteq> []")
  case False
  then have "collect_rewrites ls d d qt = []" using collect_rewrites_none by blast
  then show ?thesis
    by (simp add: rewrite_match_layers_def rewrite_decision_def keep_important_def)
next
  case True
  define ms where "ms = keep_important (collect_rewrites ls d d qt)"
  define ms1 where "ms1 = filter (\<lambda>m. rule_priority m = Min (set (map rule_priority ms))) ms"
  have best: "best_rewrites (map strip (collect_rewrites ls d d qt)) = map strip ms1"
    unfolding ms1_def ms_def by (rule best_rewrites_strip)
  have "map strip ms1 \<noteq> []" using best_rewrites_nonempty[of "map strip (collect_rewrites ls d d qt)"] True best by simp
  then obtain l r rest where ms1: "ms1 = (l, r) # rest" by (cases ms1) auto
  then have ne: "ms \<noteq> []" and "(l, r) \<in> set ms1" by (auto simp: ms1_def)
  then have pr: "prio r = Min (set (map rule_priority ms))"
    by (simp add: ms1_def rule_priority_prio)
  have sel: "filter (\<lambda>m. rule_priority m = Min (rule_priority ` set ms)) ms = (l, r) # rest"
    using ms1 by (simp add: ms1_def)
  show ?thesis
    using True ne ms1 pr
    by (simp add: sel rewrite_match_layers_def rewrite_decision_def best Let_def decision_def report_def
        comp_def case_prod_beta' option.map_comp flip: ms_def)
qed

definition plain_decision ::
  "string \<times> rule_type \<times> dns_rewrite_action option \<Rightarrow>
   (string \<times> rule_type \<times> dns_rewrite_action option) option \<Rightarrow> bool \<Rightarrow> decision" where
  "plain_decision b allow overrode =
     (rule_type_text (fst (snd b)) @ '' block'', overrode, map_option fst allow, snd (snd b),
      if snd (snd b) = None then Some (fst b) else None)"

definition decide :: "(bool \<times> rule_data) list \<Rightarrow> string \<Rightarrow> u16 \<Rightarrow> decision option" where
  "decide rs d qt =
     (let first = (\<lambda>imp allow. map_option rule_report (first_plain rs d qt imp allow))
      in case rewrite_decision (rewrites_along rs d d qt) (first False True) of
           Some x \<Rightarrow> Some x
         | None \<Rightarrow>
             if first True True \<noteq> None then None
             else (case first True False of
                 Some b \<Rightarrow> Some (plain_decision b (first False True) (first False True \<noteq> None))
               | None \<Rightarrow>
                   if first False True \<noteq> None then None
                   else map_option (\<lambda>b. plain_decision b None False) (first False False)))"

lemma decision_build:
  "decision (build_block_match b allow overrode) = plain_decision (report b) (map_option report allow) overrode"
  by (simp add: decision_def build_block_match_def plain_decision_def report_def option.map_comp comp_def)

lemma blocking_match_decide:
  assumes "list_all2 built_from ls rss"
  shows "map_option decision (blocking_match_layers ls d qt) = decide (concat rss) d qt"
proof -
  have rw: "map_option decision (rewrite_match_layers ls d qt) =
      rewrite_decision (rewrites_along (concat rss) d d qt)
        (map_option rule_report (first_plain (concat rss) d qt False True))"
    unfolding rewrite_match_decision find_layered_match_report[OF assms]
    by (rule rewrite_decision_added[OF collect_rewrites_added[OF assms]])
  note f = find_layered_match_report[OF assms, symmetric]
  show ?thesis
    unfolding decide_def Let_def rw[symmetric] unfolding f
    by (auto simp: blocking_match_layers_def Let_def decision_build option.map_comp comp_def
        split: option.splits)
qed

lemma domain_matches_step:
  "split_once (CHR ''.'') d = Some (a, r) \<Longrightarrow> domain_matches d s \<longleftrightarrow> s = d \<or> domain_matches r s"
  "split_once (CHR ''.'') d = None \<Longrightarrow> domain_matches d s \<longleftrightarrow> s = d"
  by (auto simp: domain_matches_parents parent_names.simps[of d])

lemma rewrites_along_Nil:
  "rewrites_along rs name d qt = [] \<longleftrightarrow>
    (domain_matches name d \<longrightarrow> rewrites_at rs True d d qt = []) \<and>
    (\<forall>s. domain_matches name s \<longrightarrow> rewrites_at rs False s d qt = [])"
proof (induction name rule: parent_names.induct)
  case (1 name)
  show ?case
  proof (cases "split_once (CHR ''.'') name")
    case None
    then show ?thesis by (auto simp: rewrites_along.simps[of rs name] domain_matches_step)
  next
    case (Some ab)
    then obtain a r where ab: "split_once (CHR ''.'') name = Some (a, r)" by (cases ab) auto
    then show ?thesis
      using "1"[OF ab refl] by (auto simp: rewrites_along.simps[of rs name] domain_matches_step)
  qed
qed

lemma rewrites_at_Nil:
  "rewrites_at rs exact key d qt = [] \<longleftrightarrow>
    (\<forall>(a, r) \<in> set rs. \<not> (\<not> a \<and> rd_include_subdomains r = (\<not> exact) \<and> rd_domain r = key \<and>
       is_rewrite d qt (complex_of r 0)))"
  by (auto simp: rewrites_at_def named_rules_def filter_empty_conv)

lemma rewrites_along_some: "rewrites_along rs d d qt = [] \<longleftrightarrow> \<not> some_rewrite rs d qt"
proof -
  have "rewrites_along rs d d qt = [] \<longleftrightarrow>
      (\<forall>(a, r) \<in> set rs. \<not> (\<not> a \<and> rule_covers r d \<and> is_rewrite d qt (complex_of r 0)))"
    unfolding rewrites_along_Nil rewrites_at_Nil rule_covers_def
    by (auto 4 3 simp: domain_matches_iff[of d d] split: if_splits)
  also have "\<dots> \<longleftrightarrow> \<not> some_rewrite rs d qt"
    unfolding some_rewrite_def list_ex_iff line_rule_applies_def is_rewrite_def complex_matches_def
    by (auto simp: complex_of_def)
  finally show ?thesis .
qed

lemma decide_None: "decide rs d qt = None \<longleftrightarrow> \<not> verdict rs d qt"
  by (auto simp: decide_def Let_def verdict_def rewrite_decision_def rewrites_along_some
      first_plain_None[symmetric] split: option.splits)

lemma built_from_layers:
  "list_all2 built_from (layers_of (compile_rules_with_disabled json raw extra))
     [effective_rules json raw extra]"
  using built_from_compile[of json raw extra]
  by (simp add: layers_of_def compile_rules_with_disabled_def Let_def split: prod.splits)

lemma blocking_match_compiled:
  "map_option decision (blocking_match (compile_rules_with_disabled json raw extra) d qt) =
    decide (effective_rules json raw extra) d qt"
  using blocking_match_decide[OF built_from_layers] by (simp add: blocking_match_def)

lemma verdict_eq:
  "is_blocked (compile_rules_with_disabled json raw extra) d qt \<longleftrightarrow>
    verdict (effective_rules json raw extra) d qt"
  using blocking_match_compiled[of json raw extra d qt] decide_None[of "effective_rules json raw extra" d qt]
  unfolding is_blocked_def by (metis option.map_disc_iff)

section \<open>Custom rules as a layer and merged into the table\<close>

lemma built_from_cong:
  "blocks l = blocks l' \<Longrightarrow> allows l = allows l' \<Longrightarrow> has_dnsrewrites l = has_dnsrewrites l' \<Longrightarrow>
    built_from l rs = built_from l' rs"
  by (simp add: built_from_def rules_at_def layer_table_def)

lemma built_from_custom_layer:
  assumes "built_from (compiled_layer.truncate b) rs"
  shows "list_all2 built_from (layers_of (with_custom_layer json b custom))
     [rs, effective_rules json custom (disabled b)]"
proof -
  have "built_from (compiled_layer.truncate
      ((compile_rules_with_disabled json custom (disabled b))\<lparr>summary := s, base := x\<rparr>))
      (effective_rules json custom (disabled b))" for s x
    using built_from_compile[of json custom "disabled b"]
    by (rule built_from_cong[THEN iffD1, rotated 3]) (simp_all add: compiled_layer.defs)
  then show ?thesis
    using assms by (simp add: layers_of_def with_custom_layer_def Let_def)
qed

lemma built_from_merged:
  assumes "built_from (compiled_layer.truncate c) rs" and "base c = None"
  shows "list_all2 built_from (layers_of (merge_custom_rules json c custom))
     [rs @ effective_rules json custom (disabled c)]"
proof -
  obtain srcs i where src: "intern_source (sources c) DEFAULT_SOURCE = (srcs, i)" by fastforce
  define s0 where "s0 = \<lparr>cs_blocks = blocks c, cs_allows = allows c, cs_sources = srcs,
    cs_summary = summary c, cs_has_dnsrewrites = has_dnsrewrites c, cs_source_id = i\<rparr>"
  define es where "es = fst (scan_rules_with_disabled json custom (disabled c))"
  have b0: "built_from (state_layer s0 (disabled c)) rs"
    using assms(1) by (rule built_from_cong[THEN iffD1, rotated 3])
      (simp_all add: s0_def state_layer_def compiled_layer.defs)
  have "built_from (state_layer (foldl compile_event s0 es) (disabled c))
      (rs @ effective_rules json custom (disabled c))"
    unfolding effective_rules_def es_def by (rule built_from_fold[OF scan_events_wf b0])
  moreover have "layers_of (merge_custom_rules json c custom) =
      [state_layer (foldl compile_event s0 es) (disabled c)]"
    using assms(2)
    by (simp add: layers_of_def merge_custom_rules_def src Let_def state_layer_def es_def s0_def
        compiled_layer.defs)
  ultimately show ?thesis by simp
qed

lemma base_compile [simp]: "base (compile_rules_with_disabled json raw extra) = None"
  by (simp add: compile_rules_with_disabled_def Let_def split: prod.splits)

lemma blocking_match_custom:
  fixes json raw extra
  defines "c \<equiv> compile_rules_with_disabled json raw extra"
  shows "map_option decision (blocking_match (with_custom_layer json c custom) d qt) =
      decide (effective_rules json raw extra @ effective_rules json custom (disabled c)) d qt"
    and "map_option decision (blocking_match (merge_custom_rules json c custom) d qt) =
      decide (effective_rules json raw extra @ effective_rules json custom (disabled c)) d qt"
  using blocking_match_decide[OF built_from_custom_layer[OF built_from_compile[of json raw extra]], of json custom d qt]
    blocking_match_decide[OF built_from_merged[OF built_from_compile[of json raw extra] base_compile], of json custom d qt]
  by (simp_all add: blocking_match_def c_def)

lemma effective_rule_line:
  assumes "(a, r) \<in> set (effective_rules json raw extra)"
  obtains line where "line \<in> set (str_lines raw)" "rd_raw r = trim line" "wf_rule a r"
    "trim line \<notin> disabled_targets raw \<union> extra"
proof -
  obtain e line where e: "e \<in> set (scan_line json (disabled_targets raw \<union> extra) line)"
    "line \<in> set (str_lines raw)" "(a, r) \<in> set (event_rule e)"
    using assms by (auto simp: effective_rules_def scan_rules_with_disabled_def Let_def)
  have "trim line \<notin> disabled_targets raw \<union> extra"
    using e by (auto simp: scan_line_def Let_def event_rule_def split: option.splits if_splits)
  moreover have "rd_raw r = trim line" "wf_rule a r"
    using scan_line_wf[OF e(1)] e(3)
    by (auto simp: wf_event_def event_rule_def split: scan_event.splits parsed_rule.splits)
  ultimately show ?thesis using that e(2) by blast
qed

lemma find_SomeD: "find P xs = Some x \<Longrightarrow> x \<in> set xs \<and> P x"
  by (induction xs) (auto split: if_splits)

lemma find_named_Some:
  assumes "find (plain_match d qt imp) (named_rules rs allow exact key) = Some x"
  obtains r where "(allow, r) \<in> set rs" "x = complex_of r 0" "rd_include_subdomains r = (\<not> exact)"
    "rd_domain r = key" "plain_match d qt imp x"
  using find_SomeD[OF assms] that by (auto simp: named_rules_def)

lemma first_plain_SomeD:
  assumes "first_plain rs d qt imp allow = Some x"
  shows "\<exists>r. (allow, r) \<in> set rs \<and> x = complex_of r 0 \<and> line_rule_applies r d qt \<and>
    rd_important r = imp \<and> rd_dnsrewrite r = None"
proof -
  obtain exact key where f: "find (plain_match d qt imp) (named_rules rs allow exact key) = Some x"
    and k: "if exact then key = d else domain_matches d key"
    using assms by (auto simp: first_plain_def Let_def domain_matches_iff dest!: first_parent_Some
        split: option.splits)
  from f obtain r where "(allow, r) \<in> set rs" "x = complex_of r 0"
    "rd_include_subdomains r = (\<not> exact)" "rd_domain r = key" "plain_match d qt imp x"
    by (rule find_named_Some)
  then show ?thesis
    using k
    by (intro exI[of _ r])
      (cases exact; simp add: line_rule_applies_def rule_covers_def plain_match_def complex_matches_def
        complex_of_def)
qed

section \<open>Properties\<close>

text \<open>C1. A compiled rule list blocks a name exactly when the rules of its text say so: a
  \<open>$dnsrewrite\<close> rule that applies, or else, in the absence of an important exception, an
  important blocking rule, or a blocking rule without any exception.  Compression,
  deduplication, the two tables and the walk over the parent names are invisible.\<close>

theorem compiled_rules_verdict:
  "is_blocked (compile_rules_with_disabled json raw extra) d qt \<longleftrightarrow>
    verdict (effective_rules json raw extra) d qt"
  by (rule verdict_eq)

text \<open>C2. The custom rules on top of the shared tables (\<open>with_custom_layer\<close>) decide every query
  as the custom rules merged into the tables (\<open>merge_custom_rules\<close>): the same rule, rule
  type, exception and rewrite action.\<close>

theorem custom_layer_equals_merged:
  "map_option decision
      (blocking_match (with_custom_layer json (compile_rules_with_disabled json raw extra) custom) d qt) =
    map_option decision
      (blocking_match (merge_custom_rules json (compile_rules_with_disabled json raw extra) custom) d qt)"
  by (simp add: blocking_match_custom)

text \<open>With a custom layer the verdict is that of the remote rules followed by the custom rules,
  the \<open>badfilter\<close> lines of the remote lists disabling custom rules as well.\<close>

lemma custom_layer_verdict:
  "is_blocked (with_custom_layer json (compile_rules_with_disabled json raw extra) custom) d qt \<longleftrightarrow>
    verdict (effective_rules json raw extra @
      effective_rules json custom (disabled (compile_rules_with_disabled json raw extra))) d qt"
  unfolding is_blocked_def by (metis blocking_match_custom(1) decide_None option.map_disc_iff)

text \<open>C7. What is reported for a blocked name is true: the text of the reported rule is a line of
  the source that no \<open>badfilter\<close> line disables, and it parses to a blocking rule that applies.\<close>

theorem reported_rule_is_a_line:
  assumes "blocking_match (compile_rules_with_disabled json raw extra) d qt = Some m"
    and "bm_dnsrewrite m = None"
  shows "\<exists>line r. line \<in> set (str_lines raw) \<and> bm_rule m = trim line \<and>
    trim line \<notin> disabled_targets raw \<union> extra \<and>
    (False, r) \<in> set (effective_rules json raw extra) \<and> rd_raw r = bm_rule m \<and> line_rule_applies r d qt"
proof -
  let ?rs = "effective_rules json raw extra"
  have dec: "decide ?rs d qt = Some (decision m)"
    using assms(1) blocking_match_compiled[of json raw extra d qt] by simp
  then obtain imp x where x: "first_plain ?rs d qt imp False = Some x" "cr_raw x = bm_rule m"
    using assms(2)
    by (auto simp: decide_def Let_def decision_def plain_decision_def rewrite_decision_def rule_report_def
        split: option.splits if_splits)
  then obtain r where r: "(False, r) \<in> set ?rs" "x = complex_of r 0" "line_rule_applies r d qt"
    using first_plain_SomeD by blast
  from effective_rule_line[OF r(1)] show ?thesis
    using r x(2) by (auto simp: complex_of_def)
qed

theorem reported_rule_witness:
  "\<exists>m line r. blocking_match (compile_rules_with_disabled (\<lambda>_. None) ''||b^'' {}) ''a.b'' 1 = Some m \<and>
     line \<in> set (str_lines ''||b^'') \<and> bm_rule m = trim line \<and> rd_raw r = bm_rule m \<and>
     line_rule_applies r ''a.b'' 1"
proof -
  have "map_option bm_dnsrewrite (blocking_match (compile_rules_with_disabled (\<lambda>_. None) ''||b^'' {})
      ''a.b'' 1) = Some None"
    by code_simp
  then show ?thesis using reported_rule_is_a_line[of "\<lambda>_. None" "''||b^''" "{}" "''a.b''" 1] by fastforce
qed

end
