(* ===== verification/DnsReply.thy ===== *)
theory DnsReply
  imports DnsResponse
begin

text \<open>
  \<open>dns/protocol.rs\<close>, what the server does to the response of an upstream:
  validation against the query, truncation for UDP, the cache lifetime, TTL
  rewriting, removal and insertion of the OPT record, and the addresses and
  names the rebinding and CNAME checks look at.
\<close>

section \<open>Responses of an upstream\<close>

definition validate_response_for_query :: "packet \<Rightarrow> packet \<Rightarrow> dns_error + unit" where
  "validate_response_for_query query response =
     (if length query < DNS_HEADER_LEN \<or> length response < DNS_HEADER_LEN then Inl ResponseTooShort
      else if slice query 0 2 \<noteq> slice response 0 2 then Inl IdMismatch
      else if response ! 2 AND 0x80 = 0 then Inl NotAResponse
      else (case parse_question query of
          Inl e \<Rightarrow> Inl e
        | Inr qq \<Rightarrow>
            (case parse_question response of
               Inl e \<Rightarrow> Inl e
             | Inr rq \<Rightarrow>
                 if domain qq \<noteq> domain rq \<or> qtype qq \<noteq> qtype rq \<or> qclass qq \<noteq> qclass rq
                 then Inl QuestionMismatch else Inr ())))"

definition response_is_truncated :: "packet \<Rightarrow> bool" where
  "response_is_truncated p = (case get_at p 2 of None \<Rightarrow> False | Some flags \<Rightarrow> flags AND 2 \<noteq> 0)"

definition prepare_response_for_query :: "packet \<Rightarrow> packet \<Rightarrow> packet option" where
  "prepare_response_for_query response query =
     (case (parse_question response, parse_question query) of
        (Inr rq, Inr qq) \<Rightarrow>
          if domain rq \<noteq> domain qq \<or> qtype rq \<noteq> qtype qq \<or> qclass rq \<noteq> qclass qq \<or>
             question_end rq \<noteq> question_end qq then None
          else Some (splice (splice response 0 (slice query 0 2))
                 DNS_HEADER_LEN (slice query DNS_HEADER_LEN (question_end qq)))
      | _ \<Rightarrow> None)"

definition MAX_UDP_DNS_PAYLOAD :: nat where "MAX_UDP_DNS_PAYLOAD = 65507"

definition udp_payload_size :: "packet \<Rightarrow> nat" where
  "udp_payload_size query =
     (let size = (case parse_query query of
                    Inr pq \<Rightarrow> (case edns_udp_size pq of None \<Rightarrow> 512 | Some s \<Rightarrow> unat s)
                  | Inl _ \<Rightarrow> 512)
      in max 512 (min size MAX_UDP_DNS_PAYLOAD))"

definition truncate_response_for_udp :: "packet \<Rightarrow> packet \<Rightarrow> nat \<Rightarrow> packet option" where
  "truncate_response_for_udp query response max_size =
     (if length response \<le> max_size then Some response
      else if length response < DNS_HEADER_LEN then None
      else (case parse_question query of
          Inl _ \<Rightarrow> None
        | Inr q \<Rightarrow>
            (case (get_range query 0 2, get_range query DNS_HEADER_LEN (question_end q)) of
               (Some ident, Some qsec) \<Rightarrow>
                 let truncated = ident @ [response ! 2 OR 2, response ! 3] @ counts 0 0 @ qsec
                 in if length truncated \<le> max_size then Some truncated else None
             | _ \<Rightarrow> None)))"

section \<open>Time to live\<close>

fun skip_questions :: "nat \<Rightarrow> packet \<Rightarrow> nat \<Rightarrow> nat option" where
  "skip_questions 0 p off = Some off"
| "skip_questions (Suc n) p off =
     (case skip_dns_name p off of
        None \<Rightarrow> None
      | Some o1 \<Rightarrow> if length p < o1 + 4 then None else skip_questions n p (o1 + 4))"

fun rewrite_record_ttls :: "nat \<Rightarrow> packet \<Rightarrow> nat \<Rightarrow> u32 \<Rightarrow> packet option" where
  "rewrite_record_ttls 0 p off t = Some p"
| "rewrite_record_ttls (Suc n) p off t = do {
     h \<leftarrow> skip_dns_name p off;
     if length p < h + 10 then None
     else do {
       rtype \<leftarrow> read_u16 p h;
       p' \<leftarrow> (if rtype \<noteq> TYPE_OPT then write_u32_at p (h + 4) t else Some p);
       dlen \<leftarrow> read_u16 p' (h + 8);
       let next = h + 10 + unat dlen;
       if length p' < next then None else rewrite_record_ttls n p' next t } }"

definition count_at :: "packet \<Rightarrow> nat \<Rightarrow> u16" where
  "count_at p off = (case read_u16 p off of None \<Rightarrow> 0 | Some c \<Rightarrow> c)"

definition rewrite_response_ttls :: "packet \<Rightarrow> u32 \<Rightarrow> packet option" where
  "rewrite_response_ttls p t =
     (if length p < DNS_HEADER_LEN then None
      else (case skip_questions (unat (count_at p 4)) p DNS_HEADER_LEN of
          None \<Rightarrow> None
        | Some off \<Rightarrow>
            rewrite_record_ttls
              (unat (sat_add (sat_add (count_at p 6) (count_at p 8)) (count_at p 10))) p off t))"

text \<open>The three loops of \<open>response_cache_ttl\<close> read the records of a section in order.\<close>

fun read_records :: "nat \<Rightarrow> packet \<Rightarrow> nat \<Rightarrow> (dns_record list \<times> nat) option" where
  "read_records 0 p off = Some ([], off)"
| "read_records (Suc n) p off =
     (case read_dns_record p off of
        None \<Rightarrow> None
      | Some r \<Rightarrow>
          (case read_records n p (next_offset r) of
             None \<Rightarrow> None
           | Some (rs, off') \<Rightarrow> Some (r # rs, off')))"

definition min_ttl :: "u32 option \<Rightarrow> dns_record list \<Rightarrow> u32 option" where
  "min_ttl = foldl (\<lambda>m r. if record_type r \<noteq> TYPE_OPT
     then Some (case m of None \<Rightarrow> ttl r | Some c \<Rightarrow> min c (ttl r)) else m)"

definition cache_decision ::
  "u8 \<Rightarrow> u16 \<Rightarrow> dns_record list \<Rightarrow> dns_record list \<Rightarrow> dns_record list \<Rightarrow> u32 option" where
  "cache_decision rcode qt answers authority additional =
     (let has_answer = list_ex (\<lambda>r. record_type r \<noteq> TYPE_OPT) answers;
          has_ip = list_ex (\<lambda>r. record_class r = 1 \<and> record_type r \<in> {TYPE_A, TYPE_AAAA}) answers;
          negative = (list_ex (\<lambda>r. record_type r = TYPE_SOA) authority \<and>
                      \<not> list_ex (\<lambda>r. record_type r = TYPE_NS) authority);
          cacheable = (if rcode = RCODE_NOERROR
                       then (if has_answer then qt \<notin> {TYPE_A, TYPE_AAAA} \<or> has_ip else negative)
                       else if rcode = RCODE_NXDOMAIN then negative else False)
      in if \<not> cacheable then None
         else min_ttl (min_ttl (min_ttl None answers) authority) additional)"

definition response_cache_ttl :: "packet \<Rightarrow> u32 option" where
  "response_cache_ttl p =
     (if length p < DNS_HEADER_LEN then None
      else do {
        qcount \<leftarrow> read_u16 p 4;
        if qcount \<noteq> 1 then None
        else do {
          an \<leftarrow> read_u16 p 6;
          ns \<leftarrow> read_u16 p 8;
          ar \<leftarrow> read_u16 p 10;
          off \<leftarrow> skip_dns_name p DNS_HEADER_LEN;
          if length p < off + 4 then None
          else do {
            qt \<leftarrow> read_u16 p off;
            (answers, o1) \<leftarrow> read_records (unat an) p (off + 4);
            (authority, o2) \<leftarrow> read_records (unat ns) p o1;
            (additional, _) \<leftarrow> read_records (unat ar) p o2;
            cache_decision (p ! 3 AND 0x0f) qt answers authority additional } } })"

section \<open>The OPT record\<close>

text \<open>\<open>response[10..12].copy_from_slice(...)\<close> in the two functions below.\<close>

fun drop_opt :: "nat \<Rightarrow> packet \<Rightarrow> nat \<Rightarrow> u16 \<Rightarrow> packet option" where
  "drop_opt 0 p off ar = Some p"
| "drop_opt (Suc n) p off ar =
     (case read_dns_record p off of
        None \<Rightarrow> None
      | Some r \<Rightarrow>
          if record_type r = TYPE_OPT
          then (if next_offset r \<noteq> length p then None
                else Some (take off (splice p 10 (be16 (ar - 1)))))
          else drop_opt n p (next_offset r) ar)"

definition normalize_cached_response :: "packet \<Rightarrow> packet option" where
  "normalize_cached_response p =
     (case parse_question p of
        Inl _ \<Rightarrow> None
      | Inr q \<Rightarrow>
          (case (read_u16 p 6, read_u16 p 8, read_u16 p 10) of
             (Some an, Some ns, Some ar) \<Rightarrow>
               if ar = 0 then Some p
               else (case skip_records (unat (sat_add an ns)) p (question_end q) of
                   None \<Rightarrow> None
                 | Some off \<Rightarrow> drop_opt (unat ar) p off ar)
           | _ \<Rightarrow> None))"

definition append_empty_opt :: "packet \<Rightarrow> u16 \<Rightarrow> bool \<Rightarrow> packet option" where
  "append_empty_opt p udp_size dok =
     (if MAX_DNS_PACKET_SIZE < length p + 11 then None
      else (case read_u16 p 10 of
          None \<Rightarrow> None
        | Some ar \<Rightarrow>
            if ar = 65535 then None
            else Some (splice p 10 (be16 (ar + 1)) @ [0] @ be16 TYPE_OPT @ be16 udp_size @
                   be32 (if dok then 0x00008000 else 0) @ be16 0)))"

definition prepare_cached_response :: "packet \<Rightarrow> packet \<Rightarrow> u32 \<Rightarrow> packet option" where
  "prepare_cached_response cached query t =
     (case parse_query query of
        Inl _ \<Rightarrow> None
      | Inr pq \<Rightarrow> do {
          r \<leftarrow> prepare_response_for_query cached query;
          r' \<leftarrow> rewrite_response_ttls r t;
          (case edns_udp_size pq of
             None \<Rightarrow> Some r'
           | Some udp \<Rightarrow> append_empty_opt r' udp (dnssec_ok pq)) })"

section \<open>Names and addresses of a response\<close>

text \<open>
  \<open>String::from_utf8_lossy\<close>: the length of the next chunk and whether it is a
  character; an invalid chunk (a maximal prefix of a character) becomes U+FFFD.
\<close>

definition is_cont :: "u8 list \<Rightarrow> nat \<Rightarrow> bool" where
  "is_cont bs i = (case get_at bs i of None \<Rightarrow> False | Some b \<Rightarrow> b AND 0xC0 = 0x80)"

definition second_ok :: "u8 \<Rightarrow> u8 option \<Rightarrow> bool" where
  "second_ok b x =
     (case x of
        None \<Rightarrow> False
      | Some c \<Rightarrow>
          (if b = 0xE0 then 0xA0 \<le> c \<and> c \<le> 0xBF
           else if b = 0xED then 0x80 \<le> c \<and> c \<le> 0x9F
           else if b = 0xF0 then 0x90 \<le> c \<and> c \<le> 0xBF
           else if b = 0xF4 then 0x80 \<le> c \<and> c \<le> 0x8F
           else 0x80 \<le> c \<and> c \<le> 0xBF))"

definition utf8_chunk :: "u8 \<Rightarrow> u8 list \<Rightarrow> nat \<times> bool" where
  "utf8_chunk b r =
     (if b < 0x80 then (1, True)
      else if 0xC2 \<le> b \<and> b \<le> 0xDF then (if is_cont r 0 then (2, True) else (1, False))
      else if 0xE0 \<le> b \<and> b \<le> 0xEF
      then (if \<not> second_ok b (get_at r 0) then (1, False)
            else if \<not> is_cont r 1 then (2, False) else (3, True))
      else if 0xF0 \<le> b \<and> b \<le> 0xF4
      then (if \<not> second_ok b (get_at r 0) then (1, False)
            else if \<not> is_cont r 1 then (2, False)
            else if \<not> is_cont r 2 then (3, False) else (4, True))
      else (1, False))"

function utf8_lossy :: "u8 list \<Rightarrow> string" where
  "utf8_lossy [] = []"
| "utf8_lossy (b # r) =
     (case utf8_chunk b r of
        (n, ok) \<Rightarrow>
          map char_at_byte (if ok then take n (b # r) else [0xEF, 0xBF, 0xBD]) @
          utf8_lossy (drop (n - 1) r))"
  by pat_completeness auto
termination by (relation "measure length") auto

declare utf8_lossy.simps(2) [simp del]

text \<open>The loop \<open>for _ in 0..=packet.len()\<close> is the fuel.\<close>

fun decode_name_loop ::
  "nat \<Rightarrow> packet \<Rightarrow> nat \<Rightarrow> nat option \<Rightarrow> string list \<Rightarrow> (string \<times> nat) option" where
  "decode_name_loop 0 p cursor next labels = None"
| "decode_name_loop (Suc n) p cursor next labels =
     (case get_at p cursor of
        None \<Rightarrow> None
      | Some len \<Rightarrow>
          if len = 0
          then Some (join ''.'' labels, case next of None \<Rightarrow> cursor + 1 | Some o1 \<Rightarrow> o1)
          else if len AND 0xC0 = 0xC0
          then (case get_at p (cursor + 1) of
              None \<Rightarrow> None
            | Some low \<Rightarrow>
                decode_name_loop n p (unat (len AND 0x3F) * 256 + unat low)
                  (case next of None \<Rightarrow> Some (cursor + 2) | Some o1 \<Rightarrow> Some o1) labels)
          else if len AND 0xC0 \<noteq> 0 then None
          else (case get_range p (cursor + 1) (cursor + 1 + unat len) of
              None \<Rightarrow> None
            | Some label \<Rightarrow>
                decode_name_loop n p (cursor + 1 + unat len) next (labels @ [utf8_lossy label])))"

definition decode_dns_name :: "packet \<Rightarrow> nat \<Rightarrow> (string \<times> nat) option" where
  "decode_dns_name p off = decode_name_loop (length p + 1) p off None []"

text \<open>An \<open>A\<close> or \<open>AAAA\<close> record of class \<open>IN\<close> with data of the right length.\<close>

definition record_address :: "packet \<Rightarrow> u16 \<Rightarrow> u16 \<Rightarrow> nat \<Rightarrow> nat \<Rightarrow> ip_addr list" where
  "record_address p rclass rtype doff dlen =
     (if rclass = 1 \<and> rtype = TYPE_A \<and> dlen = 4 then [IpV4 (from_be (slice p doff (doff + 4)))]
      else if rclass = 1 \<and> rtype = TYPE_AAAA \<and> dlen = 16 then [IpV6 (from_be (slice p doff (doff + 16)))]
      else [])"

fun collect_ips :: "nat \<Rightarrow> packet \<Rightarrow> nat \<Rightarrow> ip_addr list" where
  "collect_ips 0 p off = []"
| "collect_ips (Suc n) p off =
     (case skip_dns_name p off of
        None \<Rightarrow> []
      | Some h \<Rightarrow>
          if length p < h + 10 then []
          else (let dlen = unat (count_at p (h + 8)); doff = h + 10
                in if length p < doff + dlen then []
                   else record_address p (count_at p (h + 2)) (count_at p h) doff dlen @
                        collect_ips n p (doff + dlen)))"

definition extract_response_ips :: "packet \<Rightarrow> ip_addr list" where
  "extract_response_ips p =
     (if length p < DNS_HEADER_LEN then []
      else (case skip_questions (unat (count_at p 4)) p DNS_HEADER_LEN of
          None \<Rightarrow> []
        | Some off \<Rightarrow> collect_ips (unat (count_at p 6)) p off))"

function word_chunks :: "nat \<Rightarrow> u8 list \<Rightarrow> u8 list list" where
  "word_chunks n bs = (if bs = [] \<or> n = 0 then [] else take n bs # word_chunks n (drop n bs))"
  by pat_completeness auto
termination by (relation "measure (\<lambda>(n, bs). length bs)") auto

declare word_chunks.simps [simp del]

definition hint_addresses :: "u16 \<Rightarrow> u8 list \<Rightarrow> ip_addr list" where
  "hint_addresses key value =
     (if key = 4 \<and> length value mod 4 = 0 then map (\<lambda>w. IpV4 (from_be w)) (word_chunks 4 value)
      else if key = 6 \<and> length value mod 16 = 0 then map (\<lambda>w. IpV6 (from_be w)) (word_chunks 16 value)
      else [])"

text \<open>The loop over the parameters of an \<open>SVCB\<close> or \<open>HTTPS\<close> record that ends at \<open>fin\<close>.\<close>

function svcb_params :: "packet \<Rightarrow> nat \<Rightarrow> nat \<Rightarrow> ip_addr list \<Rightarrow> ip_addr list option" where
  "svcb_params p fin off addresses =
     (if fin \<le> off then Some addresses
      else (case (read_u16 p off, read_u16 p (off + 2)) of
          (Some key, Some len) \<Rightarrow>
            let value_end = off + 4 + unat len
            in if fin < value_end then None
               else (case get_range p (off + 4) value_end of
                   None \<Rightarrow> None
                 | Some value \<Rightarrow>
                     svcb_params p fin value_end (addresses @ hint_addresses key value))
        | _ \<Rightarrow> None))"
  by pat_completeness auto
termination by (relation "measure (\<lambda>(p, fin, off, addresses). fin - off)") auto

declare svcb_params.simps [simp del]

definition append_svcb_ip_hints :: "packet \<Rightarrow> dns_record \<Rightarrow> ip_addr list \<Rightarrow> ip_addr list option" where
  "append_svcb_ip_hints p r addresses =
     (case decode_dns_name p (data_offset r + 2) of
        None \<Rightarrow> None
      | Some (_, off) \<Rightarrow>
          if next_offset r < off then None else svcb_params p (next_offset r) off addresses)"

record security_data =
  addresses :: "ip_addr list"
  cname_targets :: "string list"

definition record_security :: "packet \<Rightarrow> dns_record \<Rightarrow> security_data \<Rightarrow> security_data option" where
  "record_security p r s =
     (if record_class r \<noteq> 1 then Some s
      else if record_type r = TYPE_CNAME
      then (case decode_dns_name p (data_offset r) of
          None \<Rightarrow> None
        | Some (target0, o1) \<Rightarrow>
            if o1 \<noteq> next_offset r then None
            else (let target = to_lower (trim_end_matches (CHR ''.'') target0)
                  in Some (if target = [] then s
                       else s\<lparr>cname_targets := cname_targets s @ [target]\<rparr>)))
      else if record_type r = TYPE_SVCB \<or> record_type r = TYPE_HTTPS
      then map_option (\<lambda>as. s\<lparr>addresses := as\<rparr>) (append_svcb_ip_hints p r (addresses s))
      else Some (s\<lparr>addresses := addresses s @
             record_address p (record_class r) (record_type r) (data_offset r) (data_len r)\<rparr>))"

fun security_loop :: "nat \<Rightarrow> packet \<Rightarrow> nat \<Rightarrow> security_data \<Rightarrow> security_data option" where
  "security_loop 0 p off s = Some s"
| "security_loop (Suc n) p off s =
     (case read_dns_record p off of
        None \<Rightarrow> None
      | Some r \<Rightarrow>
          (case record_security p r s of
             None \<Rightarrow> None
           | Some s' \<Rightarrow> security_loop n p (next_offset r) s'))"

definition response_security_data :: "packet \<Rightarrow> security_data option" where
  "response_security_data p =
     (if length p < DNS_HEADER_LEN then None
      else if p ! 2 AND 0x80 = 0 then None
      else do {
        qcount \<leftarrow> read_u16 p 4;
        an \<leftarrow> read_u16 p 6;
        ns \<leftarrow> read_u16 p 8;
        ar \<leftarrow> read_u16 p 10;
        off \<leftarrow> skip_questions (unat qcount) p DNS_HEADER_LEN;
        security_loop (unat an + unat ns + unat ar) p off \<lparr>addresses = [], cname_targets = []\<rparr> })"

end
