(* ===== verification/Cache.thy ===== *)
theory Cache
  imports DnsReply "HOL-Library.AList"
begin

text \<open>
  \<open>dns/cache.rs\<close>: the response cache.  A shard (\<open>DnsCache\<close>) is an association
  list of entries with the accounted size and the access counter; the store is
  a list of shards and the counters.  The atomic fields of an entry are fields, and
  each operation is one step: a shard is only used under its lock, and the atomic
  operations of a lookup that shares a read lock touch one entry.

  Two things are not under the sources' control and are parameters: \<open>iter\<close>, the
  order in which a \<open>HashMap\<close> iterates its entries, and \<open>hash\<close>, the value of
  \<open>DefaultHasher\<close> for a key.  The eviction loop is a \<open>partial_function\<close>: that
  it ends is a theorem, which needs that the iteration yields the entries of the
  map.
\<close>

section \<open>State\<close>

record cache_config =
  cc_enabled :: bool
  cc_max_size_bytes :: nat
  cc_min_ttl :: u32
  cc_max_ttl :: u32
  cc_optimistic :: bool
  cc_max_stale_seconds :: u32
  cc_prefetch_enabled :: bool
  cc_prefetch_hit_threshold :: u32

record cache_key =
  ck_domain :: string
  ck_qtype :: u16
  ck_qclass :: u16
  ck_recursion_desired :: bool
  ck_authentic_data :: bool
  ck_checking_disabled :: bool
  ck_dnssec_ok :: bool
  ck_edns :: bool
  ck_route :: "string option"

definition key_from_query :: "parsed_query \<Rightarrow> cache_key option" where
  "key_from_query pq =
     (if cache_safe pq
      then Some \<lparr>ck_domain = domain (pq_question pq), ck_qtype = qtype (pq_question pq),
             ck_qclass = qclass (pq_question pq), ck_recursion_desired = recursion_desired pq,
             ck_authentic_data = authentic_data pq, ck_checking_disabled = checking_disabled pq,
             ck_dnssec_ok = dnssec_ok pq, ck_edns = (edns_udp_size pq \<noteq> None), ck_route = None\<rparr>
      else None)"

definition with_route :: "cache_key \<Rightarrow> string option \<Rightarrow> cache_key" where
  "with_route k route = k\<lparr>ck_route := route\<rparr>"

record cache_entry =
  ce_response :: packet
  ce_expires_at :: u64
  ce_prefetch_at :: u64
  ce_size :: nat
  ce_last_used :: u64
  ce_refreshing :: bool
  ce_hit_count :: u32

datatype refresh_reason = Expired | Prefetch

record raw_hit =
  rh_response :: packet
  rh_ttl :: u32
  rh_stale :: bool
  rh_refresh_reason :: "refresh_reason option"

type_synonym entries = "(cache_key \<times> cache_entry) list"

record dns_cache =
  dc_config :: cache_config
  dc_entries :: entries
  dc_total_size :: nat
  dc_access_counter :: u64
  dc_last_expired_scan_at :: u64

definition cache_from_config :: "cache_config \<Rightarrow> dns_cache option" where
  "cache_from_config cfg =
     (if \<not> cc_enabled cfg \<or> cc_max_size_bytes cfg = 0 then None
      else Some \<lparr>dc_config = cfg, dc_entries = [], dc_total_size = 0, dc_access_counter = 0,
             dc_last_expired_scan_at = 0\<rparr>)"

section \<open>Looking up\<close>

text \<open>\<open>compare_exchange(false, true)\<close> on the refreshing flag, and the reason it yields.\<close>

definition claim_refresh :: "cache_entry \<Rightarrow> refresh_reason \<Rightarrow> cache_entry \<times> refresh_reason option" where
  "claim_refresh e reason =
     (if ce_refreshing e then (e, None) else (e\<lparr>ce_refreshing := True\<rparr>, Some reason))"

text \<open>A hit: the entry with its counters, and what is served from it.\<close>

definition serve_entry :: "cache_config \<Rightarrow> cache_entry \<Rightarrow> u64 \<Rightarrow> u64 \<Rightarrow> cache_entry \<times> raw_hit" where
  "serve_entry cfg e access now =
     (let fresh = ce_expires_at e > now; previous = ce_hit_count e;
          e1 = e\<lparr>ce_last_used := access, ce_hit_count := previous + 1\<rparr>;
          (e2, reason) =
            (if \<not> fresh then claim_refresh e1 Expired
             else if cc_prefetch_enabled cfg \<and>
               sat_sub (cc_prefetch_hit_threshold cfg) 1 \<le> previous \<and> ce_prefetch_at e \<le> now
             then claim_refresh e1 Prefetch
             else (e1, None));
          remaining = sat_sub (ce_expires_at e) now;
          ttl = (if fresh then max (if remaining \<le> 0xffffffff then ucast remaining else - 1) 1 else 1)
      in (e2, \<lparr>rh_response = ce_response e, rh_ttl = ttl, rh_stale = (\<not> fresh),
               rh_refresh_reason = reason\<rparr>))"

definition cache_lookup :: "dns_cache \<Rightarrow> cache_key \<Rightarrow> u64 \<Rightarrow> dns_cache \<times> raw_hit option" where
  "cache_lookup c key now =
     (let cfg = dc_config c; access = dc_access_counter c + 1; c1 = c\<lparr>dc_access_counter := access\<rparr>
      in case map_of (dc_entries c) key of
           None \<Rightarrow> (c1, None)
         | Some e \<Rightarrow>
             let fresh = ce_expires_at e > now; stale_age = sat_sub now (ce_expires_at e)
             in if \<not> fresh \<and> (\<not> cc_optimistic cfg \<or> stale_age > ucast (cc_max_stale_seconds cfg))
                then (c1, None)
                else (case serve_entry cfg e access now of
                    (e2, hit) \<Rightarrow>
                      (c1\<lparr>dc_entries := AList.update key e2 (dc_entries c)\<rparr>, Some hit)))"

definition cache_finish_refresh :: "dns_cache \<Rightarrow> cache_key \<Rightarrow> dns_cache" where
  "cache_finish_refresh c key =
     (case map_of (dc_entries c) key of
        None \<Rightarrow> c
      | Some e \<Rightarrow> c\<lparr>dc_entries := AList.update key (e\<lparr>ce_refreshing := False\<rparr>) (dc_entries c)\<rparr>)"

definition cache_clear :: "dns_cache \<Rightarrow> dns_cache" where
  "cache_clear c = c\<lparr>dc_entries := [], dc_total_size := 0, dc_last_expired_scan_at := 0\<rparr>"

section \<open>Inserting and evicting\<close>

definition DNS_CACHE_ENTRY_OVERHEAD_BYTES :: nat where "DNS_CACHE_ENTRY_OVERHEAD_BYTES = 96"
definition DNS_CACHE_EVICT_SAMPLE :: nat where "DNS_CACHE_EVICT_SAMPLE = 16"
definition DNS_CACHE_EXPIRED_SCAN_INTERVAL_SECONDS :: u64 where
  "DNS_CACHE_EXPIRED_SCAN_INTERVAL_SECONDS = 30"

text \<open>\<open>Iterator::min_by_key\<close>: the first of the least elements.\<close>

fun min_by_last_used :: "entries \<Rightarrow> (cache_key \<times> cache_entry) option" where
  "min_by_last_used [] = None"
| "min_by_last_used (x # xs) =
     (case min_by_last_used xs of
        None \<Rightarrow> Some x
      | Some y \<Rightarrow> if ce_last_used (snd y) < ce_last_used (snd x) then Some y else Some x)"

definition should_scan_expired :: "dns_cache \<Rightarrow> u64 \<Rightarrow> bool" where
  "should_scan_expired c now =
     (dc_last_expired_scan_at c = 0 \<or>
      DNS_CACHE_EXPIRED_SCAN_INTERVAL_SECONDS \<le> sat_sub now (dc_last_expired_scan_at c))"

definition keep_entry :: "cache_config \<Rightarrow> u64 \<Rightarrow> cache_entry \<Rightarrow> bool" where
  "keep_entry cfg now e =
     (ce_expires_at e > now \<or>
      cc_optimistic cfg \<and> sat_sub now (ce_expires_at e) \<le> ucast (cc_max_stale_seconds cfg))"

definition sum_sizes :: "entries \<Rightarrow> nat" where
  "sum_sizes es = sum_list (map (\<lambda>x. ce_size (snd x)) es)"

definition evict_expired :: "dns_cache \<Rightarrow> u64 \<Rightarrow> dns_cache \<times> u64" where
  "evict_expired c now =
     (let removed = filter (\<lambda>x. \<not> keep_entry (dc_config c) now (snd x)) (dc_entries c)
      in (c\<lparr>dc_entries := filter (\<lambda>x. keep_entry (dc_config c) now (snd x)) (dc_entries c),
            dc_total_size := dc_total_size c - sum_sizes removed\<rparr>,
          of_nat (length removed)))"

partial_function (option) evict_loop ::
  "(entries \<Rightarrow> entries) \<Rightarrow> nat \<Rightarrow> entries \<Rightarrow> nat \<Rightarrow> u64 \<Rightarrow> (entries \<times> nat \<times> u64) option" where
  "evict_loop iter limit es tot evicted =
     (if tot \<le> limit then Some (es, tot, evicted)
      else (case min_by_last_used (take DNS_CACHE_EVICT_SAMPLE (iter es)) of
          None \<Rightarrow> Some (es, 0, evicted)
        | Some (key, _) \<Rightarrow>
            (case map_of es key of
               None \<Rightarrow> evict_loop iter limit es tot evicted
             | Some e \<Rightarrow>
                 evict_loop iter limit (AList.delete key es) (tot - ce_size e) (sat_add evicted 1))))"

definition evict_over_limit ::
  "(entries \<Rightarrow> entries) \<Rightarrow> dns_cache \<Rightarrow> u64 \<Rightarrow> (dns_cache \<times> u64) option" where
  "evict_over_limit iter c now =
     (let (c1, n) = (if should_scan_expired c now
                     then (case evict_expired c now of
                         (c', k) \<Rightarrow> (c'\<lparr>dc_last_expired_scan_at := now\<rparr>, k))
                     else (c, 0))
      in case evict_loop iter (cc_max_size_bytes (dc_config c1)) (dc_entries c1) (dc_total_size c1) n of
           None \<Rightarrow> None
         | Some (es, tot, evicted) \<Rightarrow>
             Some (c1\<lparr>dc_entries := es, dc_total_size := tot\<rparr>, evicted))"

record insert_outcome =
  io_inserted :: bool
  io_evicted :: u64

definition entry_size :: "cache_key \<Rightarrow> packet \<Rightarrow> nat" where
  "entry_size key response = length response + length (ck_domain key) + DNS_CACHE_ENTRY_OVERHEAD_BYTES"

definition new_entry :: "cache_key \<Rightarrow> packet \<Rightarrow> u64 \<Rightarrow> u32 \<Rightarrow> u64 \<Rightarrow> cache_entry" where
  "new_entry key response now t access =
     \<lparr>ce_response = response, ce_expires_at = sat_add now (ucast t),
      ce_prefetch_at = sat_sub (sat_add now (ucast t)) (ucast (max (t div 10) 1)),
      ce_size = entry_size key response, ce_last_used = access, ce_refreshing = False,
      ce_hit_count = 0\<rparr>"

definition cache_insert_with_ttl ::
  "(entries \<Rightarrow> entries) \<Rightarrow> dns_cache \<Rightarrow> cache_key \<Rightarrow> packet \<Rightarrow> u64 \<Rightarrow> u32 \<Rightarrow>
    (dns_cache \<times> insert_outcome) option" where
  "cache_insert_with_ttl iter c key response now t =
     (let none = \<lparr>io_inserted = False, io_evicted = 0\<rparr>
      in if t = 0 then Some (c, none)
         else (let access = dc_access_counter c + 1; c1 = c\<lparr>dc_access_counter := access\<rparr>;
                   size = entry_size key response
               in if cc_max_size_bytes (dc_config c) < size then Some (c1, none)
                  else (let tot = (case map_of (dc_entries c) key of
                                       None \<Rightarrow> dc_total_size c
                                     | Some previous \<Rightarrow> dc_total_size c - ce_size previous);
                            c2 = c1\<lparr>dc_entries := AList.update key (new_entry key response now t access)
                                      (AList.delete key (dc_entries c)),
                                    dc_total_size := tot + size\<rparr>
                        in map_option (\<lambda>(c3, n). (c3, \<lparr>io_inserted = True, io_evicted = n\<rparr>))
                             (evict_over_limit iter c2 now))))"

section \<open>The store\<close>

record cache_metrics =
  cm_hits :: u64
  cm_misses :: u64
  cm_stale_hits :: u64
  cm_refresh_started :: u64
  cm_refresh_completed :: u64
  cm_refresh_failed :: u64
  cm_prefetch_started :: u64
  cm_prefetch_completed :: u64
  cm_prefetch_failed :: u64
  cm_insertions :: u64
  cm_evictions :: u64

definition zero_metrics :: cache_metrics where
  "zero_metrics = \<lparr>cm_hits = 0, cm_misses = 0, cm_stale_hits = 0, cm_refresh_started = 0,
     cm_refresh_completed = 0, cm_refresh_failed = 0, cm_prefetch_started = 0,
     cm_prefetch_completed = 0, cm_prefetch_failed = 0, cm_insertions = 0, cm_evictions = 0\<rparr>"

record cache_store =
  cs_shards :: "dns_cache list"
  cs_metrics :: cache_metrics

definition store_shard_count :: "cache_config \<Rightarrow> nat \<Rightarrow> nat" where
  "store_shard_count cfg n = min (max n 1) (max (cc_max_size_bytes cfg div 4096) 1)"

definition store_from_config :: "cache_config \<Rightarrow> nat \<Rightarrow> cache_store option" where
  "store_from_config cfg n =
     (if \<not> cc_enabled cfg \<or> cc_max_size_bytes cfg = 0 then None
      else (let count = store_shard_count cfg n;
                size = max (cc_max_size_bytes cfg div count) 1;
                shards = List.map_filter (\<lambda>_. cache_from_config (cfg\<lparr>cc_max_size_bytes := size\<rparr>)) [0..<count]
            in if shards = [] then None
               else Some \<lparr>cs_shards = shards, cs_metrics = zero_metrics\<rparr>))"

definition shard_index :: "(cache_key \<Rightarrow> u64) \<Rightarrow> cache_key \<Rightarrow> nat \<Rightarrow> nat" where
  "shard_index hash key count = unat (hash key mod of_nat (max count 1))"

definition store_lookup ::
  "(cache_key \<Rightarrow> u64) \<Rightarrow> cache_store \<Rightarrow> cache_key \<Rightarrow> u64 \<Rightarrow> cache_store \<times> raw_hit option" where
  "store_lookup hash s key now =
     (let i = shard_index hash key (length (cs_shards s)); m = cs_metrics s;
          (shards, result) =
            (case get_at (cs_shards s) i of
               None \<Rightarrow> (cs_shards s, None)
             | Some c \<Rightarrow> (case cache_lookup c key now of (c', r) \<Rightarrow> ((cs_shards s)[i := c'], r)))
      in (s\<lparr>cs_shards := shards,
            cs_metrics := (case result of
               Some hit \<Rightarrow> m\<lparr>cm_hits := cm_hits m + 1,
                 cm_stale_hits := (if rh_stale hit then cm_stale_hits m + 1 else cm_stale_hits m)\<rparr>
             | None \<Rightarrow> m\<lparr>cm_misses := cm_misses m + 1\<rparr>)\<rparr>, result))"

definition store_insert_with_ttl ::
  "(entries \<Rightarrow> entries) \<Rightarrow> (cache_key \<Rightarrow> u64) \<Rightarrow> cache_store \<Rightarrow> cache_key \<Rightarrow> packet \<Rightarrow> u64 \<Rightarrow> u32 \<Rightarrow>
    (cache_store \<times> bool) option" where
  "store_insert_with_ttl iter hash s key response now t =
     (let i = shard_index hash key (length (cs_shards s)); m = cs_metrics s
      in case get_at (cs_shards s) i of
           None \<Rightarrow> Some (s, False)
         | Some c \<Rightarrow>
             map_option (\<lambda>(c', out).
               (s\<lparr>cs_shards := (cs_shards s)[i := c'],
                  cs_metrics := m\<lparr>cm_insertions :=
                      (if io_inserted out then cm_insertions m + 1 else cm_insertions m),
                    cm_evictions := cm_evictions m + io_evicted out\<rparr>\<rparr>, io_inserted out))
               (cache_insert_with_ttl iter c key response now t))"

definition store_finish_refresh :: "(cache_key \<Rightarrow> u64) \<Rightarrow> cache_store \<Rightarrow> cache_key \<Rightarrow> cache_store" where
  "store_finish_refresh hash s key =
     (let i = shard_index hash key (length (cs_shards s))
      in case get_at (cs_shards s) i of
           None \<Rightarrow> s
         | Some c \<Rightarrow> s\<lparr>cs_shards := (cs_shards s)[i := cache_finish_refresh c key]\<rparr>)"

definition store_clear :: "cache_store \<Rightarrow> cache_store" where
  "store_clear s = s\<lparr>cs_shards := map cache_clear (cs_shards s), cs_metrics := zero_metrics\<rparr>"

definition record_refresh_started :: "cache_store \<Rightarrow> refresh_reason \<Rightarrow> cache_store" where
  "record_refresh_started s reason =
     (let m = cs_metrics s
      in s\<lparr>cs_metrics := m\<lparr>cm_refresh_started := cm_refresh_started m + 1,
            cm_prefetch_started := cm_prefetch_started m + (if reason = Prefetch then 1 else 0)\<rparr>\<rparr>)"

definition record_refresh_completed :: "cache_store \<Rightarrow> refresh_reason \<Rightarrow> cache_store" where
  "record_refresh_completed s reason =
     (let m = cs_metrics s
      in s\<lparr>cs_metrics := m\<lparr>cm_refresh_completed := cm_refresh_completed m + 1,
            cm_prefetch_completed := cm_prefetch_completed m + (if reason = Prefetch then 1 else 0)\<rparr>\<rparr>)"

definition record_refresh_failed :: "cache_store \<Rightarrow> refresh_reason \<Rightarrow> cache_store" where
  "record_refresh_failed s reason =
     (let m = cs_metrics s
      in s\<lparr>cs_metrics := m\<lparr>cm_refresh_failed := cm_refresh_failed m + 1,
            cm_prefetch_failed := cm_prefetch_failed m + (if reason = Prefetch then 1 else 0)\<rparr>\<rparr>)"

text \<open>The two sums of \<open>stats_snapshot\<close>; its other fields are the counters.\<close>

definition snapshot_totals :: "cache_store \<Rightarrow> u64 \<times> u64" where
  "snapshot_totals s =
     foldl (\<lambda>(n, b) c. (sat_add n (of_nat (length (dc_entries c))), sat_add b (of_nat (dc_total_size c))))
       (0, 0) (cs_shards s)"

section \<open>Responses in the cache\<close>

definition cache_ttl_seconds :: "packet \<Rightarrow> cache_config \<Rightarrow> u32 option" where
  "cache_ttl_seconds p cfg =
     (case response_cache_ttl p of
        None \<Rightarrow> None
      | Some t0 \<Rightarrow>
          if t0 = 0 then None
          else (let t1 = (if 0 < cc_min_ttl cfg then max t0 (cc_min_ttl cfg) else t0)
                in Some (if 0 < cc_max_ttl cfg then min t1 (cc_max_ttl cfg) else t1)))"

definition lookup_cached_response ::
  "(cache_key \<Rightarrow> u64) \<Rightarrow> cache_store option \<Rightarrow> cache_key \<Rightarrow> packet \<Rightarrow> u64 \<Rightarrow>
    cache_store option \<times> (packet \<times> refresh_reason option) option" where
  "lookup_cached_response hash cache key query now =
     (case cache of
        None \<Rightarrow> (None, None)
      | Some s \<Rightarrow>
          (case store_lookup hash s key now of
             (s', None) \<Rightarrow> (Some s', None)
           | (s', Some hit) \<Rightarrow>
               (Some s', map_option (\<lambda>r. (r, rh_refresh_reason hit))
                  (prepare_cached_response (rh_response hit) query (rh_ttl hit)))))"

definition insert_cached_response ::
  "(entries \<Rightarrow> entries) \<Rightarrow> (cache_key \<Rightarrow> u64) \<Rightarrow> cache_store option \<Rightarrow> cache_config option \<Rightarrow>
    cache_key \<Rightarrow> packet \<Rightarrow> u64 \<Rightarrow> (cache_store option \<times> bool) option" where
  "insert_cached_response iter hash cache cfg key response now =
     (case (cache, cfg) of
        (Some s, Some config) \<Rightarrow>
          (case cache_ttl_seconds response config of
             None \<Rightarrow> Some (cache, False)
           | Some t \<Rightarrow>
               (case normalize_cached_response response of
                  None \<Rightarrow> Some (cache, False)
                | Some r \<Rightarrow>
                    map_option (\<lambda>(s', b). (Some s', b))
                      (store_insert_with_ttl iter hash s key r now t)))
      | _ \<Rightarrow> Some (cache, False))"

end
