(* ===== verification/DnsSpec.thy ===== *)
theory DnsSpec
  imports DnsReply
begin

text \<open>
  Properties of the DNS messages: the server's own responses answer the query they
  are built from, an upstream response keeps its records when it is adapted to a
  query, and the TTL rewriting reaches every record.
\<close>

section \<open>Packets that agree on a range\<close>

definition agree :: "nat \<Rightarrow> nat \<Rightarrow> packet \<Rightarrow> packet \<Rightarrow> bool" where
  "agree a b p p' \<longleftrightarrow> (\<forall>i. a \<le> i \<longrightarrow> i < b \<longrightarrow> get_at p i = get_at p' i)"

lemma agree_sym: "agree a b p p' \<Longrightarrow> agree a b p' p"
  by (simp add: agree_def)

lemma agree_trans: "agree a b p p' \<Longrightarrow> agree a b p' q \<Longrightarrow> agree a b p q"
  by (simp add: agree_def)

lemma agree_mono: "agree a b p p' \<Longrightarrow> a \<le> a' \<Longrightarrow> b' \<le> b \<Longrightarrow> agree a' b' p p'"
  by (simp add: agree_def)

lemma agree_get_at: "agree a b p p' \<Longrightarrow> a \<le> i \<Longrightarrow> i < b \<Longrightarrow> get_at p' i = get_at p i"
  by (simp add: agree_def)

lemma agree_nth: "agree a b p p' \<Longrightarrow> a \<le> i \<Longrightarrow> i < b \<Longrightarrow> i < length p \<Longrightarrow> p' ! i = p ! i \<and> i < length p'"
  by (force simp: agree_def get_at_def split: if_splits)

lemma agree_length: "agree a b p p' \<Longrightarrow> a < b \<Longrightarrow> b \<le> length p \<Longrightarrow> b \<le> length p'"
  using agree_nth[of a b p p' "b - 1"] by (cases b) auto

lemma agree_read_u16: "agree a b p p' \<Longrightarrow> a \<le> i \<Longrightarrow> i + 1 < b \<Longrightarrow> read_u16 p' i = read_u16 p i"
  using agree_get_at[of a b p p' i] agree_get_at[of a b p p' "i + 1"] by (simp add: read_u16_def)

lemma agree_slice:
  assumes "agree a b p p'" and "a \<le> lo" and "hi \<le> b" and "hi \<le> length p"
  shows "slice p' lo hi = slice p lo hi"
proof (cases "lo < hi")
  case True
  have "hi \<le> length p'"
    using agree_length[OF agree_mono[OF assms(1), of lo hi]] assms True by simp
  then show ?thesis
    using assms True by (intro nth_equalityI) (auto simp: slice_def agree_nth)
qed (simp add: slice_def)

lemma agree_splice:
  "a + length ys \<le> length p \<Longrightarrow> hi \<le> a \<or> a + length ys \<le> lo \<Longrightarrow> agree lo hi p (splice p a ys)"
  by (auto simp: agree_def get_at_def slice_simps)

lemma agree_append: "hi \<le> length p \<Longrightarrow> agree lo hi p (p @ q)"
  by (auto simp: agree_def get_at_def nth_append)

lemma agree_take: "hi \<le> n \<Longrightarrow> agree lo hi p (take n p)"
  by (auto simp: agree_def get_at_def)

lemma parse_labels_agree:
  "parse_labels p off nm = Inr (nm', off') \<Longrightarrow> agree off off' p p' \<Longrightarrow>
    parse_labels p' off nm = Inr (nm', off')"
proof (induction p off nm rule: parse_labels.induct)
  case (1 p off nm)
  let ?len = "p ! off"
  have b: "off < off'" "off' \<le> length p" using parse_labels_bounds[OF "1.prems"(1)] by auto
  have len: "off' \<le> length p'" using agree_length[OF "1.prems"(2)] b by simp
  have eq: "p' ! off = ?len" using agree_nth[OF "1.prems"(2), of off] b by simp
  show ?case
  proof (cases "?len = 0")
    case True
    then show ?thesis
      using "1.prems"(1) b len eq by (simp add: parse_labels.simps[of p] parse_labels.simps[of p'] Let_def)
  next
    case False
    then obtain nm1 where c: "?len AND 0xC0 \<noteq> 0xC0" "\<not> 63 < ?len"
      and push: "push_ascii_lowercase (if nm = [] then nm else nm @ ''.'')
        (slice p (off + 1) (off + 1 + unat ?len)) = Inr nm1"
      and rec: "parse_labels p (off + 1 + unat ?len) nm1 = Inr (nm', off')"
      using "1.prems"(1) by (auto simp: parse_labels.simps[of p off] Let_def split: if_splits sum.splits)
    have nx: "off + 1 + unat ?len < off'" using parse_labels_bounds[OF rec] by simp
    then have "slice p' (off + 1) (off + 1 + unat ?len) = slice p (off + 1) (off + 1 + unat ?len)"
      using agree_slice[OF "1.prems"(2)] b by simp
    moreover have "parse_labels p' (off + 1 + unat ?len) nm1 = Inr (nm', off')"
      using "1.IH"[OF _ refl False c(1,2) _ push] rec agree_mono[OF "1.prems"(2)] b nx by simp
    ultimately show ?thesis
      using False c push b len nx eq by (simp add: parse_labels.simps[of p' off] Let_def)
  qed
qed

lemma parse_question_agree:
  assumes q: "parse_question p = Inr q" and t: "agree 12 (question_end q) p p'"
    and c: "read_u16 p' 4 = Some 1"
  shows "parse_question p' = Inr q"
proof -
  from parse_question_Inr[OF q] obtain off where
    off: "parse_labels p 12 [] = Inr (domain q, off)" "question_end q = off + 4"
    "read_u16 p off = Some (qtype q)" "read_u16 p (off + 2) = Some (qclass q)"
    by blast
  have b: "12 < off" "off + 4 \<le> length p"
    using parse_labels_bounds[OF off(1)] parse_question_bounds[OF q] off(2) by auto
  have "off + 4 \<le> length p'" using agree_length[OF t] b off(2) by simp
  moreover have "parse_labels p' 12 [] = Inr (domain q, off)"
    using parse_labels_agree[OF off(1)] agree_mono[OF t] off(2) by simp
  moreover have "read_u16 p' off = Some (qtype q)" "read_u16 p' (off + 2) = Some (qclass q)"
    using agree_read_u16[OF t] b off by simp_all
  ultimately show ?thesis using b c off(2) by (simp add: parse_question_def)
qed

lemma skip_dns_name_agree:
  "skip_dns_name p off = Some h \<Longrightarrow> agree off h p p' \<Longrightarrow> h \<le> length p' \<Longrightarrow> skip_dns_name p' off = Some h"
proof (induction p off rule: skip_dns_name.induct)
  case (1 p off)
  have b: "off < h" "h \<le> length p" using skip_dns_name_bounds[OF "1.prems"(1)] by auto
  obtain len where len: "get_at p off = Some len" "get_at p' off = Some len"
    using "1.prems"(1) agree_get_at[OF "1.prems"(2), of off] b
    by (cases "get_at p off") (auto simp: skip_dns_name.simps[of p off])
  consider "len = 0" | "len \<noteq> 0" "len AND 0xC0 = 0xC0"
    | "len \<noteq> 0" "len AND 0xC0 \<noteq> 0xC0" "len AND 0xC0 = 0"
    using "1.prems"(1) len by (auto simp: skip_dns_name.simps[of p off] split: if_splits)
  then show ?case
  proof cases
    case 1
    then show ?thesis using "1.prems"(1) len by (simp add: skip_dns_name.simps[of p] skip_dns_name.simps[of p'])
  next
    case 2
    then obtain x where x: "get_at p (off + 1) = Some x" "h = off + 2"
      using "1.prems"(1) len by (auto simp: skip_dns_name.simps[of p off] split: option.splits)
    then have "get_at p' (off + 1) = Some x"
      using agree_get_at[OF "1.prems"(2), of "off + 1"] by simp
    then show ?thesis using 2 len x by (simp add: skip_dns_name.simps[of p'])
  next
    case 3
    then have r: "skip_dns_name p (off + 1 + unat len) = Some h"
      using "1.prems"(1) len by (auto simp: skip_dns_name.simps[of p off] split: if_splits)
    then have "off + 1 + unat len < h" using skip_dns_name_bounds by blast
    moreover have "skip_dns_name p' (off + 1 + unat len) = Some h"
      using "1.IH"[OF len(1) 3(1,2)] 3 r agree_mono[OF "1.prems"(2)] "1.prems"(3) b calculation by simp
    ultimately show ?thesis
      using 3 len "1.prems"(3) by (simp add: skip_dns_name.simps[of p' off])
  qed
qed

section \<open>The server's own responses\<close>

lemma slice_nth: "a + i < b \<Longrightarrow> b \<le> length p \<Longrightarrow> slice p a b ! i = p ! (a + i)"
  by (simp add: slice_def)

lemma response_head_eq:
  assumes "parse_question query = Inr q"
  shows "response_head query (question_end q) rcode an ns =
    Some (slice query 0 2 @ [0x80 OR (query ! 2 AND 1), 0x80 OR rcode] @ counts an ns @
      slice query 12 (question_end q))"
  using parse_question_bounds[OF assms]
  by (simp add: response_head_def get_range_def get_at_def)

definition answers :: "packet \<Rightarrow> question \<Rightarrow> packet \<Rightarrow> bool" where
  "answers query q r \<longleftrightarrow> validate_response_for_query query r = Inr () \<and> parse_question r = Inr q \<and>
     question_end q \<le> length r"

lemma or_and_absorb: "(a OR x) AND a = (a :: 'a::len word)"
  by (rule bit_eqI) (auto simp: bit_and_iff bit_or_iff)

lemma reply_shape:
  assumes q: "parse_question query = Inr q"
    and h: "h = slice query 0 2 @ [f, g] @ counts an ns @ slice query 12 (question_end q)"
  shows "length h = question_end q" and "h ! 2 = f" and "h ! 3 = g"
    and "read_u16 (h @ rest) 6 = Some an" and "agree 12 (question_end q) query (h @ rest)"
    and "f AND 0x80 \<noteq> 0 \<Longrightarrow> answers query q (h @ rest)"
proof -
  let ?qs = "slice query 12 (question_end q)"
  note b = parse_question_bounds[OF q]
  have l2: "length (slice query 0 2) = 2" using b by (simp add: length_slice)
  then show len: "length h = question_end q"
    using b by (auto simp: h counts_def length_slice min_def)
  show f: "h ! 2 = f" and "h ! 3 = g"
    using l2 by (simp_all add: h nth_append)
  show "read_u16 (h @ rest) 6 = Some an"
    using read_u16_append[of 6 "slice query 0 2 @ [f, g] @ be16 1" an] l2 by (simp add: h counts_def)
  have n4: "read_u16 (h @ rest) 4 = Some 1"
    using read_u16_append[of 4 "slice query 0 2 @ [f, g]" 1] l2 by (simp add: h counts_def)
  have hd: "length (slice query 0 2 @ [f, g] @ counts an ns) = 12" using l2 by (simp add: counts_def)
  show ag: "agree 12 (question_end q) query (h @ rest)"
    unfolding agree_def
  proof (intro allI impI)
    fix i
    assume i: "12 \<le> i" "i < question_end q"
    have "(h @ rest) ! i = h ! i" using i len by (simp add: nth_append)
    also have "\<dots> = ?qs ! (i - 12)"
      using i hd nth_append[of "slice query 0 2 @ [f, g] @ counts an ns" ?qs i] by (simp add: h)
    also have "\<dots> = query ! i" using i b by (simp add: slice_nth)
    finally show "get_at query i = get_at (h @ rest) i"
      using i b len by (simp add: get_at_def)
  qed
  have pq: "parse_question (h @ rest) = Inr q" by (rule parse_question_agree[OF q ag n4])
  have "slice (h @ rest) 0 2 = slice query 0 2" using l2 by (simp add: h slice_def)
  moreover have "(h @ rest) ! 2 = f" using f b len by (simp add: nth_append)
  ultimately show "answers query q (h @ rest)" if "f AND 0x80 \<noteq> 0"
    using that b len q pq by (simp add: answers_def validate_response_for_query_def)
qed

lemma head_answers:
  assumes q: "parse_question query = Inr q"
    and h: "response_head query (question_end q) rcode an ns = Some h"
  shows "length h = question_end q" and "h ! 3 = 0x80 OR rcode" and "read_u16 (h @ rest) 6 = Some an"
    and "answers query q (h @ rest)" and "agree 12 (question_end q) query (h @ rest)"
proof -
  have h': "h = slice query 0 2 @ [0x80 OR (query ! 2 AND 1), 0x80 OR rcode] @ counts an ns @
      slice query 12 (question_end q)"
    using h response_head_eq[OF q, of rcode an ns] by simp
  have "(0x80 OR (query ! 2 AND 1)) AND 0x80 \<noteq> (0 :: u8)"
    by (simp add: or_and_absorb)
  then show "length h = question_end q" "h ! 3 = 0x80 OR rcode" "read_u16 (h @ rest) 6 = Some an"
    "answers query q (h @ rest)" "agree 12 (question_end q) query (h @ rest)"
    using reply_shape[OF q h'] by simp_all
qed

lemma head_exists:
  assumes "parse_question query = Inr q"
  obtains h where "response_head query (question_end q) rcode an ns = Some h"
  using response_head_eq[OF assms] that by blast

lemma build_ip_answers:
  assumes q: "parse_question query = Inr q"
  shows "\<exists>r. build_ip_response query q rcode v4 v6 t = Some r \<and> answers query q r \<and>
    r ! 3 = 0x80 OR (rcode AND 0x0f)"
proof (cases "answer_ip (qtype q) rcode v4 v6")
  case None
  obtain h where h: "response_head query (question_end q) (rcode AND 0x0f) 0 0 = Some h"
    by (rule head_exists[OF q])
  show ?thesis
    using head_answers(1,2)[OF q h] head_answers(4)[OF q h, of "[]"] h None by (simp add: build_ip_response_def)
next
  case (Some ip)
  obtain h where h: "response_head query (question_end q) (rcode AND 0x0f) 1 0 = Some h"
    by (rule head_exists[OF q])
  show ?thesis
    using head_answers[OF q h] h Some parse_question_bounds[OF q]
    by (simp add: build_ip_response_def nth_append)
qed

lemma build_nxdomain_answers:
  assumes q: "parse_question query = Inr q"
  shows "\<exists>r. build_nxdomain_response query q t = Some r \<and> answers query q r \<and> r ! 3 = 0x83"
proof -
  obtain h where h: "response_head query (question_end q) 3 0 1 = Some h"
    by (rule head_exists[OF q])
  have "(0x80 OR 3 :: u8) = 0x83" by code_simp
  then show ?thesis
    using head_answers[OF q h] h parse_question_bounds[OF q]
    by (simp add: build_nxdomain_response_def nth_append)
qed

lemma build_record_answers:
  assumes q: "parse_question query = Inr q"
  shows "\<exists>r. build_record_response query q rtype rdata = Some r \<and> answers query q r"
proof -
  obtain h where h: "response_head query (question_end q) 0 1 0 = Some h"
    by (rule head_exists[OF q])
  show ?thesis
    using head_answers[OF q h] h build_ip_answers[OF q]
    by (simp add: build_record_response_def) blast
qed

lemma build_cname_answers:
  assumes q: "parse_question query = Inr q"
  shows "\<exists>r. build_cname_response query q target = Some r \<and> answers query q r"
proof -
  obtain h where h: "response_head query (question_end q) 0 1 0 = Some h"
    by (rule head_exists[OF q])
  show ?thesis
    using head_answers[OF q h] h build_ip_answers[OF q]
    by (simp add: build_cname_response_def split: option.splits) blast
qed

lemma answers_length: "answers query q r \<Longrightarrow> parse_question query = Inr q \<Longrightarrow> 16 < length r"
  using parse_question_bounds[of query q] by (simp add: answers_def)

lemma merge_parts_answers:
  assumes "parse_question query = Inr q"
    and "\<And>p. p \<in> set parts \<Longrightarrow> \<exists>r. p = Some r \<and> answers query q r"
  shows "(merge_parts query q parts resp c = Inl x \<longrightarrow> (\<exists>r. x = Some r \<and> answers query q r)) \<and>
    (merge_parts query q parts resp c = Inr (r', c') \<longrightarrow> (\<exists>rest. r' = resp @ rest))"
  using assms
proof (induction query q parts resp c rule: merge_parts.induct)
  case (3 query q part parts response count)
  have ans: "answers query q part" using "3.prems"(2)[of "Some part"] by simp
  have b: "get_at part 3 = Some (part ! 3)" "question_end q \<le> length part"
    using answers_length[OF ans "3.prems"(1)] ans by (auto simp: get_at_def answers_def)
  have sf: "\<exists>r. build_ip_response query q 2 None None 0 = Some r \<and> answers query q r"
    using build_ip_answers[OF "3.prems"(1)] by blast
  let ?c = "case read_u16 part 6 of None \<Rightarrow> 0 | Some c \<Rightarrow> c"
  have pr: "\<exists>r. p = Some r \<and> answers query q r" if "p \<in> set parts" for p
    using "3.prems"(2)[of p] that by simp
  consider "part ! 3 AND 0x0f \<noteq> 0" | "part ! 3 AND 0x0f = 0" "?c = 0" | "part ! 3 AND 0x0f = 0" "?c \<noteq> 0"
    by blast
  then show ?case
  proof cases
    case 1
    then show ?thesis using b ans by auto
  next
    case 2
    then show ?thesis using b "3.IH"(1)[OF b(1) _ refl _ "3.prems"(1) pr] by simp
  next
    case 3
    note IH = "3.IH"(2)[OF b(1) _ refl 3(2) _ _ _ "3.prems"(1) pr]
    show ?thesis
      using 3 b sf IH[of "slice part (question_end q) (length part)"]
      by (auto simp: get_range_def Let_def)
  qed
qed auto

lemma splice_counts_answers:
  assumes q: "parse_question query = Inr q"
    and h: "response_head query (question_end q) rcode an ns = Some h"
  shows "answers query q (splice (h @ rest) 6 (be16 c))"
proof -
  let ?r = "h @ rest" let ?r' = "splice (h @ rest) 6 (be16 c)"
  note b = parse_question_bounds[OF q]
  have l: "length ?r \<ge> question_end q" using head_answers(1)[OF q h] by simp
  have a: "answers query q ?r" by (rule head_answers(4)[OF q h])
  have ag: "agree 12 (question_end q) ?r ?r'" "agree 0 6 ?r ?r'"
    using l b by (auto intro!: agree_splice)
  have "parse_question ?r' = Inr q"
  proof (rule parse_question_agree[OF _ ag(1)])
    show "parse_question ?r = Inr q" using a by (simp add: answers_def)
    then show "read_u16 ?r' 4 = Some 1"
      using parse_question_Inr[of ?r q] agree_read_u16[OF ag(2), of 4] by simp
  qed
  moreover have "slice ?r' 0 2 = slice ?r 0 2" "?r' ! 2 = ?r ! 2"
    using agree_slice[OF ag(2), of 0 2] agree_nth[OF ag(2), of 2] l b by simp_all
  moreover have "length ?r' = length ?r" using l b by (simp add: length_splice)
  ultimately show ?thesis
    using a by (auto simp: answers_def validate_response_for_query_def split: if_splits sum.splits)
qed

lemma build_dnsrewrite_answers:
  assumes "parse_question query = Inr q"
  shows "\<exists>r. build_dnsrewrite_response query q action policy = Some r \<and> answers query q r"
  using assms
proof (induction query q action policy rule: build_dnsrewrite_response.induct)
  case (1 query q actions policy)
  note q = "1.prems"
  obtain h where h: "response_head query (question_end q) 0 0 0 = Some h"
    by (rule head_exists[OF q])
  then have resp: "build_ip_response query q 0 None None 0 = Some h"
    by (simp add: build_ip_response_def answer_ip_def)
  let ?parts = "map (\<lambda>a. build_dnsrewrite_response query q a policy) actions"
  have parts: "\<exists>r. p = Some r \<and> answers query q r" if "p \<in> set ?parts" for p
    using that "1.IH"[OF resp] q by auto
  have mp: "(merge_parts query q ?parts h 0 = Inl x \<longrightarrow> (\<exists>r. x = Some r \<and> answers query q r)) \<and>
      (merge_parts query q ?parts h 0 = Inr (r', c') \<longrightarrow> (\<exists>rest. r' = h @ rest))" for x r' c'
    by (rule merge_parts_answers[OF q]) (rule parts)
  show ?case
  proof (cases "merge_parts query q ?parts h 0")
    case (Inl x)
    then show ?thesis using mp[of x] resp by simp
  next
    case (Inr rc)
    then obtain rest c where rc: "rc = (h @ rest, c)"
      using mp[of _ "fst rc" "snd rc"] by (cases rc) auto
    have "8 \<le> length (h @ rest)"
      using head_answers(1)[OF q h] parse_question_bounds[OF q] by simp
    then show ?thesis
      using Inr rc resp splice_counts_answers[OF q h, of rest c] by (simp add: get_range_def)
  qed
next
  case (2 query q rcode policy)
  then show ?case using build_nxdomain_answers build_ip_answers by (simp) blast
next
  case (3 query q a policy)
  then show ?case using build_record_answers build_ip_answers by (simp) blast
next
  case (4 query q a policy)
  then show ?case using build_record_answers build_ip_answers by (simp) blast
next
  case (5 query q target policy)
  then show ?case using build_cname_answers by simp
next
  case (6 query q rtype val policy)
  then show ?case
    using build_record_answers build_ip_answers by (simp split: option.splits) blast
qed

section \<open>The addresses in an answer\<close>

lemma parse_labels_skip:
  "parse_labels p off nm = Inr (nm', off') \<Longrightarrow> skip_dns_name p off = Some off'"
proof (induction p off nm rule: parse_labels.induct)
  case (1 p off nm)
  let ?len = "p ! off"
  have b: "off < off'" "off' \<le> length p" using parse_labels_bounds[OF "1.prems"(1)] by auto
  show ?case
  proof (cases "?len = 0")
    case True
    then show ?thesis
      using "1.prems" b by (simp add: parse_labels.simps[of p] skip_dns_name.simps[of p] Let_def get_at_def)
  next
    case False
    then obtain nm1 where c: "?len AND 0xC0 \<noteq> 0xC0" "\<not> 63 < ?len" "off + 1 + unat ?len \<le> length p"
      and push: "push_ascii_lowercase (if nm = [] then nm else nm @ ''.'')
        (slice p (off + 1) (off + 1 + unat ?len)) = Inr nm1"
      and rec: "parse_labels p (off + 1 + unat ?len) nm1 = Inr (nm', off')"
      using "1.prems"(1) by (auto simp: parse_labels.simps[of p off] Let_def split: if_splits sum.splits)
    have "(of_nat (unat ?len) :: u8) AND 0xC0 = 0"
      using c(2) by (intro small_byte_mask) (simp add: word_less_nat_alt)
    then have "?len AND 0xC0 = 0" by simp
    moreover have "skip_dns_name p (off + 1 + unat ?len) = Some off'"
      using "1.IH"[OF _ refl False c(1,2) _ push rec] b c(3) by simp
    ultimately show ?thesis
      using False b c by (simp add: skip_dns_name.simps[of p off] get_at_def)
  qed
qed

lemma skip_question:
  assumes "parse_question p = Inr q"
  shows "skip_questions (unat (count_at p 4)) p 12 = Some (question_end q)"
proof -
  from parse_question_Inr[OF assms] obtain off where
    "read_u16 p 4 = Some 1" "parse_labels p 12 [] = Inr (domain q, off)" "question_end q = off + 4"
    by blast
  then show ?thesis
    using parse_labels_skip parse_question_bounds[OF assms] by (simp add: count_at_def)
qed

lemma from_be_snoc: "from_be (bs @ [b]) = push_bit 8 (from_be bs) OR ucast b"
  by (simp add: from_be_def)

lemma from_be_bytes:
  "from_be (map (\<lambda>i. ucast (drop_bit (8 * (n - 1 - i)) w)) [0..<n]) = take_bit (8 * n) (w :: u128)"
proof (induction n arbitrary: w)
  case 0
  then show ?case by (simp add: from_be_def)
next
  case (Suc n)
  have e: "drop_bit (8 * (n - i)) w = drop_bit (8 * (n - Suc i)) (drop_bit 8 w)" if "i < n" for i
  proof -
    have "8 * (n - i) = 8 * (n - Suc i) + 8" using that by simp
    then show ?thesis by (simp only: drop_bit_drop_bit)
  qed
  have "map (\<lambda>i. ucast (drop_bit (8 * (Suc n - 1 - i)) w)) [0..<Suc n] =
      (map (\<lambda>i. ucast (drop_bit (8 * (n - 1 - i)) (drop_bit 8 w))) [0..<n] @ [ucast w] :: u8 list)"
    using e by (auto simp del: drop_bit_drop_bit)
  then have "from_be (map (\<lambda>i. ucast (drop_bit (8 * (Suc n - 1 - i)) w)) [0..<Suc n]) =
      push_bit 8 (take_bit (8 * n) (drop_bit 8 w)) OR (ucast (ucast w :: u8) :: u128)"
    by (simp only: from_be_snoc Suc)
  also have "\<dots> = take_bit (8 * Suc n) w"
    by (rule bit_eqI) (auto simp: bit_simps)
  finally show ?case .
qed

lemma from_be_be128 [simp]: "from_be (be128 w) = (w :: u128)"
  using from_be_bytes[of 16 w] by (simp add: be128_def take_bit_word_eq_self)

lemma skip_pointer: "get_at p off = Some 0xC0 \<Longrightarrow> get_at p (off + 1) = Some x \<Longrightarrow> skip_dns_name p off = Some (off + 2)"
  by (simp add: skip_dns_name.simps)

lemma collect_answer:
  assumes "length rdata \<le> 65535"
  shows "collect_ips (Suc 0) (h @ answer_record rtype rclass t rdata) (length h) =
    record_address (h @ answer_record rtype rclass t rdata) rclass rtype (length h + 12) (length rdata)"
proof -
  let ?p = "h @ answer_record rtype rclass t rdata"
  let ?n = "be16 (of_nat (length rdata))"
  have "get_at ?p (length h) = Some 0xC0" "get_at ?p (length h + 1) = Some 0x0C"
    by (simp_all add: get_at_def answer_record_def nth_append)
  then have "skip_dns_name ?p (length h) = Some (length h + 2)" by (rule skip_pointer)
  moreover have "count_at ?p (length h + 2) = rtype"
    using read_u16_append[of "length h + 2" "h @ [0xC0, 0x0C]" rtype "be16 rclass @ be32 t @ ?n @ rdata"]
    by (simp add: count_at_def answer_record_def)
  moreover have "count_at ?p (length h + 2 + 2) = rclass"
    using read_u16_append[of "length h + 2 + 2" "h @ [0xC0, 0x0C] @ be16 rtype" rclass "be32 t @ ?n @ rdata"]
    by (simp add: count_at_def answer_record_def)
  moreover have "count_at ?p (length h + 2 + 8) = of_nat (length rdata)"
    using read_u16_append[of "length h + 2 + 8" "h @ [0xC0, 0x0C] @ be16 rtype @ be16 rclass @ be32 t"
        "of_nat (length rdata)" rdata]
    by (simp add: count_at_def answer_record_def)
  moreover have "unat (of_nat (length rdata) :: u16) = length rdata"
    using assms by (simp add: unat_of_nat)
  moreover have "length ?p = length h + 12 + length rdata" by (simp add: answer_record_def)
  ultimately show ?thesis by (simp add: add.commute)
qed

lemma record_address_answer:
  "record_address (h @ answer_record rtype rclass t (be32 a)) rclass TYPE_A (length h + 12) 4 =
    (if rclass = 1 then [IpV4 a] else [])"
  "record_address (h @ answer_record rtype rclass t (be128 b)) rclass TYPE_AAAA (length h + 12) 16 =
    (if rclass = 1 then [IpV6 b] else [])"
  by (simp_all add: record_address_def answer_record_def slice_def)

definition ip_answer :: "question \<Rightarrow> u8 \<Rightarrow> u32 option \<Rightarrow> u128 option \<Rightarrow> ip_addr list" where
  "ip_answer q rcode v4 v6 =
     (if rcode \<noteq> RCODE_NOERROR \<or> qclass q \<noteq> 1 then []
      else if qtype q = TYPE_A then (case v4 of None \<Rightarrow> [] | Some a \<Rightarrow> [IpV4 a])
      else if qtype q = TYPE_AAAA then (case v6 of None \<Rightarrow> [] | Some a \<Rightarrow> [IpV6 a])
      else [])"

lemma extract_answers:
  "answers query q r \<Longrightarrow> extract_response_ips r = collect_ips (unat (count_at r 6)) r (question_end q)"
  using skip_question[of r q] parse_question_bounds[of r q] parse_question_Inr[of r q]
  by (simp add: extract_response_ips_def answers_def)

lemma build_ip_addresses:
  assumes q: "parse_question query = Inr q"
    and r: "build_ip_response query q rcode v4 v6 t = Some r"
  shows "extract_response_ips r = ip_answer q rcode v4 v6"
proof -
  have ans: "answers query q r" using build_ip_answers[OF q, of rcode v4 v6 t] r by auto
  show ?thesis
  proof (cases "answer_ip (qtype q) rcode v4 v6")
    case None
    then have h: "response_head query (question_end q) (rcode AND 0x0f) 0 0 = Some r"
      using r by (simp add: build_ip_response_def)
    have "count_at r 6 = 0" using head_answers(3)[OF q h, of "[]"] by (simp add: count_at_def)
    then show ?thesis
      using None extract_answers[OF ans]
      by (auto simp: ip_answer_def answer_ip_def split: option.splits if_splits)
  next
    case (Some ip)
    then obtain h where h: "response_head query (question_end q) (rcode AND 0x0f) 1 0 = Some h"
      and r': "r = h @ answer_record (qtype q) (qclass q) t ip"
      using r by (auto simp: build_ip_response_def)
    have c: "count_at r 6 = 1" using head_answers(3)[OF q h] by (simp add: count_at_def r')
    have l: "length h = question_end q" by (rule head_answers(1)[OF q h])
    consider a where "rcode = 0" "qtype q = 1" "v4 = Some a" "ip = be32 a"
      | b where "rcode = 0" "qtype q = 28" "v6 = Some b" "ip = be128 b"
      using Some by (auto simp: answer_ip_def split: if_splits)
    then show ?thesis
    proof cases
      case (1 a)
      then show ?thesis
        using extract_answers[OF ans] collect_answer[of ip h "qtype q" "qclass q" t]
          record_address_answer(1)[of h "qtype q" "qclass q" t a] c l
        by (simp add: r' ip_answer_def)
    next
      case (2 b)
      then show ?thesis
        using extract_answers[OF ans] collect_answer[of ip h "qtype q" "qclass q" t]
          record_address_answer(2)[of h "qtype q" "qclass q" t b] c l
        by (simp add: r' ip_answer_def)
    qed
  qed
qed

section \<open>Rewriting the lifetimes\<close>

definition set_ttl :: "u32 \<Rightarrow> dns_record \<Rightarrow> dns_record" where
  "set_ttl t r = (if record_type r \<noteq> TYPE_OPT then r\<lparr>ttl := t\<rparr> else r)"

lemma agree_read_u32: "agree a b p p' \<Longrightarrow> a \<le> i \<Longrightarrow> i + 3 < b \<Longrightarrow> read_u32 p' i = read_u32 p i"
  using agree_get_at[of a b p p' i] agree_get_at[of a b p p' "i + 1"] agree_get_at[of a b p p' "i + 2"]
    agree_get_at[of a b p p' "i + 3"]
  by (simp add: read_u32_def)

lemma read_u32_splice: "i + 4 \<le> length p \<Longrightarrow> read_u32 (splice p i (be32 v)) i = Some v"
  using from_be_be32[of v]
  by (simp add: read_u32_def get_at_def nth_splice length_splice be32_def del: from_be_be32)

lemma read_dns_record_iff:
  "read_dns_record p off = Some r \<longleftrightarrow>
    (\<exists>h dlen. skip_dns_name p off = Some h \<and> read_u16 p h = Some (record_type r) \<and>
       read_u16 p (h + 2) = Some (record_class r) \<and> read_u32 p (h + 4) = Some (ttl r) \<and>
       read_u16 p (h + 8) = Some dlen \<and> data_offset r = h + 10 \<and> data_len r = unat dlen \<and>
       next_offset r = h + 10 + unat dlen \<and> next_offset r \<le> length p)"
proof -
  have "\<exists>v. read_u16 p i = Some v" if "i + 1 < length p" for i using that by (simp add: read_u16_Some)
  moreover have "\<exists>v. read_u32 p i = Some v" if "i + 3 < length p" for i
    using that by (simp add: read_u32_def get_at_def)
  ultimately show ?thesis
    by (cases r) (auto simp: read_dns_record_def Let_def split: Option.bind_splits if_splits)
qed

lemma read_dns_record_agree:
  assumes r: "read_dns_record p off = Some r" and a: "agree off (next_offset r) p p'"
    and l: "next_offset r \<le> length p'"
  shows "read_dns_record p' off = Some r"
proof -
  from r obtain h dlen where h: "skip_dns_name p off = Some h" "read_u16 p h = Some (record_type r)"
    "read_u16 p (h + 2) = Some (record_class r)" "read_u32 p (h + 4) = Some (ttl r)"
    "read_u16 p (h + 8) = Some dlen" "data_offset r = h + 10" "data_len r = unat dlen"
    "next_offset r = h + 10 + unat dlen"
    unfolding read_dns_record_iff by blast
  have o: "off < h" using skip_dns_name_bounds[OF h(1)] by simp
  have "skip_dns_name p' off = Some h"
    using skip_dns_name_agree[OF h(1) agree_mono[OF a]] h(8) l by simp
  then show ?thesis
    unfolding read_dns_record_iff
    using agree_read_u16[OF a, of h] agree_read_u16[OF a, of "h + 2"] agree_read_u16[OF a, of "h + 8"]
      agree_read_u32[OF a, of "h + 4"] o h l
    by (intro exI[of _ h] exI[of _ dlen]) simp
qed

lemma rewrite_ttls_frame:
  "rewrite_record_ttls n p off t = Some p' \<Longrightarrow> off \<le> length p \<Longrightarrow> length p' = length p \<and> agree 0 off p p'"
proof (induction n p off t rule: rewrite_record_ttls.induct)
  case (1 p off t)
  then show ?case by (simp add: agree_def)
next
  case (2 n p off t)
  from "2.prems"(1) obtain h rtype p1 dlen where h: "skip_dns_name p off = Some h"
    "\<not> length p < h + 10" "read_u16 p h = Some rtype"
    "(if rtype \<noteq> TYPE_OPT then write_u32_at p (h + 4) t else Some p) = Some p1"
    "read_u16 p1 (h + 8) = Some dlen" "\<not> length p1 < h + 10 + unat dlen"
    "rewrite_record_ttls n p1 (h + 10 + unat dlen) t = Some p'"
    by (auto simp: Let_def split: Option.bind_splits if_splits)
  have o: "off < h" using skip_dns_name_bounds[OF h(1)] by simp
  have p1: "length p1 = length p" "agree 0 off p p1"
    using h(2,4) o
    by (auto simp: write_u32_at_def length_splice agree_def get_at_def nth_splice get_range_def
        split: if_splits)
  have "length p' = length p1 \<and> agree 0 (h + 10 + unat dlen) p1 p'"
    using "2.IH"[OF h(1,2,3,4,5) refl h(6,7)] h(6) by simp
  then show ?case using p1 o by (auto simp: agree_def)
qed

lemma read_records_agree:
  "read_records n p off = Some (rs, o') \<Longrightarrow> agree off (length p) p p' \<Longrightarrow> length p' = length p \<Longrightarrow>
    read_records n p' off = Some (rs, o')"
proof (induction n p off arbitrary: rs rule: read_records.induct)
  case (2 n p off)
  from "2.prems"(1) obtain r rs' where r: "read_dns_record p off = Some r"
    "read_records n p (next_offset r) = Some (rs', o')" "rs = r # rs'"
    by (auto split: option.splits)
  note b = read_dns_record_bounds[OF r(1)]
  have "read_dns_record p' off = Some r"
    using read_dns_record_agree[OF r(1) agree_mono[OF "2.prems"(2)]] b "2.prems"(3) by simp
  moreover have "read_records n p' (next_offset r) = Some (rs', o')"
    using "2.IH"[OF r(1,2) agree_mono[OF "2.prems"(2)] "2.prems"(3)] b by simp
  ultimately show ?case by (simp add: r)
qed simp

lemma read_records_rewritten:
  "read_records n p off = Some (rs, o') \<Longrightarrow> rewrite_record_ttls n p off t = Some p' \<Longrightarrow> off \<le> length p \<Longrightarrow>
    read_records n p' off = Some (map (set_ttl t) rs, o')"
proof (induction n p off t arbitrary: rs rule: rewrite_record_ttls.induct)
  case (2 n p off t)
  from "2.prems"(1) obtain r rs' where r: "read_dns_record p off = Some r"
    "read_records n p (next_offset r) = Some (rs', o')" "rs = r # rs'"
    by (auto split: option.splits)
  from "2.prems"(2) obtain h rtype p1 dlen where h: "skip_dns_name p off = Some h"
    "\<not> length p < h + 10" "read_u16 p h = Some rtype"
    "(if rtype \<noteq> TYPE_OPT then write_u32_at p (h + 4) t else Some p) = Some p1"
    "read_u16 p1 (h + 8) = Some dlen" "\<not> length p1 < h + 10 + unat dlen"
    "rewrite_record_ttls n p1 (h + 10 + unat dlen) t = Some p'"
    by (auto simp: Let_def split: Option.bind_splits if_splits)
  have o: "off < h" using skip_dns_name_bounds[OF h(1)] by simp
  have p1: "length p1 = length p" "agree 0 (h + 4) p p1" "agree (h + 8) (length p) p p1"
    using h(2,4)
    by (auto simp: write_u32_at_def length_splice agree_def get_at_def nth_splice get_range_def
        split: if_splits)
  obtain dl where f: "record_type r = rtype" "read_u16 p (h + 2) = Some (record_class r)"
    "read_u32 p (h + 4) = Some (ttl r)" "read_u16 p (h + 8) = Some dl" "data_offset r = h + 10"
    "data_len r = unat dl" "next_offset r = h + 10 + unat dl" "next_offset r \<le> length p"
    using r(1) h(1,3) unfolding read_dns_record_iff by auto
  have dl: "dl = dlen"
    using agree_read_u16[OF p1(3), of "h + 8"] f(4) h(2,5) by simp
  have t1: "read_u32 p1 (h + 4) = Some (ttl (set_ttl t r))"
    using h(2,4) f(1,3)
    by (auto simp: set_ttl_def write_u32_at_def read_u32_splice split: option.splits if_splits)
  have r1: "read_dns_record p1 off = Some (set_ttl t r)"
    unfolding read_dns_record_iff
    using skip_dns_name_agree[OF h(1) agree_mono[OF p1(2)]] agree_read_u16[OF p1(2), of h]
      agree_read_u16[OF p1(2), of "h + 2"] t1 h f p1(1) dl
    by (intro exI[of _ h] exI[of _ dlen]) (simp add: set_ttl_def)
  have n: "next_offset (set_ttl t r) = h + 10 + unat dlen"
    using f(7) dl by (simp add: set_ttl_def)
  have fr: "length p' = length p1" "agree 0 (h + 10 + unat dlen) p1 p'"
    using rewrite_ttls_frame[OF h(7)] h(6) by simp_all
  have "read_dns_record p' off = Some (set_ttl t r)"
    using read_dns_record_agree[OF r1 agree_mono[OF fr(2)]] n fr(1) h(6) by simp
  moreover have "read_records n p1 (h + 10 + unat dlen) = Some (rs', o')"
    using read_records_agree[OF r(2) agree_mono[OF p1(3)] p1(1)] f(7) dl by simp
  then have "read_records n p' (h + 10 + unat dlen) = Some (map (set_ttl t) rs', o')"
    using "2.IH"[OF h(1,2,3,4,5) refl h(6) _ h(7)] h(6) by simp
  ultimately show ?case by (simp add: n r(3))
qed simp

lemma read_records_append:
  "read_records (a + b) p off =
    (case read_records a p off of None \<Rightarrow> None
     | Some (xs, o1) \<Rightarrow>
         (case read_records b p o1 of None \<Rightarrow> None | Some (ys, o2) \<Rightarrow> Some (xs @ ys, o2)))"
proof (induction a p off rule: read_records.induct)
  case (2 n p off)
  then show ?case by (auto split: option.splits)
qed (auto split: option.splits)

lemma read_records_bounds:
  "read_records n p off = Some (rs, o') \<Longrightarrow> off \<le> length p \<Longrightarrow> off + 11 * n \<le> o' \<and> o' \<le> length p \<and> length rs = n"
proof (induction n p off arbitrary: rs rule: read_records.induct)
  case (2 n p off)
  then show ?case using read_dns_record_bounds by (fastforce split: option.splits)
qed simp

lemma min_ttl_None: "min_ttl m rs = None \<longleftrightarrow> m = None \<and> list_all (\<lambda>r. record_type r = TYPE_OPT) rs"
  by (induction rs arbitrary: m) (auto simp: min_ttl_def)

lemma set_ttl_fields [simp]:
  "record_type (set_ttl t r) = record_type r" "record_class (set_ttl t r) = record_class r"
  "next_offset (set_ttl t r) = next_offset r" "data_offset (set_ttl t r) = data_offset r"
  by (simp_all add: set_ttl_def)

lemma min_ttl_same:
  "m = None \<or> m = Some t \<Longrightarrow> min_ttl m (map (set_ttl t) rs) = None \<or> min_ttl m (map (set_ttl t) rs) = Some t"
proof (induction rs arbitrary: m)
  case (Cons r rs)
  have "min_ttl m (map (set_ttl t) (r # rs)) =
      min_ttl (if record_type r \<noteq> TYPE_OPT then Some t else m) (map (set_ttl t) rs)"
    using Cons.prems by (cases "record_type r = TYPE_OPT") (auto simp: min_ttl_def set_ttl_def)
  moreover have "(if record_type r \<noteq> TYPE_OPT then Some t else m) = None \<or>
      (if record_type r \<noteq> TYPE_OPT then Some t else m) = Some t"
    using Cons.prems by simp
  ultimately show ?case using Cons.IH by simp
qed (simp add: min_ttl_def)

lemma min_ttl_append: "min_ttl (min_ttl m xs) ys = min_ttl m (xs @ ys)"
  by (simp add: min_ttl_def)

lemma response_cache_ttl_elim:
  assumes "response_cache_ttl p = Some m"
  obtains an ns ar off qt o1 o2 o3 xs ys zs where
    "12 \<le> length p" "read_u16 p 4 = Some 1"
    "read_u16 p 6 = Some an" "read_u16 p 8 = Some ns" "read_u16 p 10 = Some ar"
    "skip_dns_name p 12 = Some off" "off + 4 \<le> length p" "read_u16 p off = Some qt"
    "read_records (unat an) p (off + 4) = Some (xs, o1)" "read_records (unat ns) p o1 = Some (ys, o2)"
    "read_records (unat ar) p o2 = Some (zs, o3)"
    "cache_decision (p ! 3 AND 0x0f) qt xs ys zs = Some m"
proof -
  have if_None: "(if c then None else x) = Some y \<longleftrightarrow> \<not> c \<and> x = Some y" for c and x :: "u32 option" and y
    by simp
  from assms show ?thesis
    unfolding response_cache_ttl_def if_None bind_eq_Some_conv
    by (clarsimp simp: not_less bind_eq_Some_conv) (rule that; assumption)
qed

lemma response_cache_ttl_intro:
  assumes "12 \<le> length p" "read_u16 p 4 = Some 1"
    "read_u16 p 6 = Some an" "read_u16 p 8 = Some ns" "read_u16 p 10 = Some ar"
    "skip_dns_name p 12 = Some off" "off + 4 \<le> length p" "read_u16 p off = Some qt"
    "read_records (unat an) p (off + 4) = Some (xs, o1)" "read_records (unat ns) p o1 = Some (ys, o2)"
    "read_records (unat ar) p o2 = Some (zs, o3)"
  shows "response_cache_ttl p = cache_decision (p ! 3 AND 0x0f) qt xs ys zs"
  using assms by (simp add: response_cache_ttl_def)

lemma cache_decision_min:
  "cache_decision rcode qt xs ys zs = Some m \<Longrightarrow> min_ttl None (xs @ ys @ zs) = Some m"
  by (auto simp: cache_decision_def Let_def min_ttl_append split: if_splits)

lemma cache_decision_set:
  assumes "cache_decision rcode qt xs ys zs = Some m"
  shows "cache_decision rcode qt (map (set_ttl t) xs) (map (set_ttl t) ys) (map (set_ttl t) zs) = Some t"
proof -
  have ex: "list_ex P (map (set_ttl t) rs) = list_ex P rs" if "\<And>r. P (set_ttl t r) = P r" for P rs
    using that by (simp add: list_ex_iff)
  have e: "min_ttl None (map (set_ttl t) rs) = None \<longleftrightarrow> min_ttl None rs = None" for rs
    by (simp add: min_ttl_None list_all_iff)
  have "min_ttl None (map (set_ttl t) (xs @ ys @ zs)) \<noteq> None"
    using cache_decision_min[OF assms] e[of "xs @ ys @ zs"] by (metis option.distinct(1))
  then have "min_ttl None (map (set_ttl t) (xs @ ys @ zs)) = Some t"
    using min_ttl_same[of None t "xs @ ys @ zs"] by auto
  then show ?thesis
    using assms unfolding cache_decision_def Let_def min_ttl_append by (simp add: ex split: if_splits)
qed

lemma rewrite_step:
  assumes r: "read_dns_record p off = Some r"
  shows "\<exists>p1. rewrite_record_ttls (Suc n) p off t = rewrite_record_ttls n p1 (next_offset r) t \<and>
    length p1 = length p \<and> agree (next_offset r) (length p) p p1"
proof -
  from r obtain h dlen where h: "skip_dns_name p off = Some h" "read_u16 p h = Some (record_type r)"
    "read_u16 p (h + 8) = Some dlen" "next_offset r = h + 10 + unat dlen" "next_offset r \<le> length p"
    unfolding read_dns_record_iff by blast
  define p1 where "p1 = (if record_type r \<noteq> TYPE_OPT then splice p (h + 4) (be32 t) else p)"
  have p1: "length p1 = length p" "agree (h + 8) (length p) p p1"
    using h(4,5) by (auto simp: p1_def length_splice agree_def get_at_def nth_splice)
  have w: "(if record_type r \<noteq> TYPE_OPT then write_u32_at p (h + 4) t else Some p) = Some p1"
    using h(4,5) by (simp add: p1_def write_u32_at_def get_range_def)
  have d: "read_u16 p1 (h + 8) = Some dlen"
    using agree_read_u16[OF p1(2), of "h + 8"] h(3,4,5) by simp
  have "rewrite_record_ttls (Suc n) p off t = rewrite_record_ttls n p1 (next_offset r) t"
    using h w d p1(1) by (simp add: Let_def)
  then show ?thesis
    using p1 h(4) by (intro exI[of _ p1]) (auto intro: agree_mono)
qed

lemma rewrite_records_exists:
  "read_records n p off = Some (rs, o') \<Longrightarrow> \<exists>p'. rewrite_record_ttls n p off t = Some p'"
proof (induction n arbitrary: p off rs)
  case (Suc n)
  from Suc.prems obtain r rs' where r: "read_dns_record p off = Some r"
    "read_records n p (next_offset r) = Some (rs', o')"
    by (auto split: option.splits)
  obtain p1 where p1: "rewrite_record_ttls (Suc n) p off t = rewrite_record_ttls n p1 (next_offset r) t"
    "length p1 = length p" "agree (next_offset r) (length p) p p1"
    using rewrite_step[OF r(1)] by blast
  then show ?case
    using Suc.IH[OF read_records_agree[OF r(2) p1(3,2)]] by metis
qed simp

lemma read_records_split:
  assumes "read_records (a + b) p off = Some (rs, o')" and "off \<le> length p"
  shows "\<exists>o1. read_records a p off = Some (take a rs, o1) \<and> read_records b p o1 = Some (drop a rs, o')"
proof -
  obtain xs o1 ys where x: "read_records a p off = Some (xs, o1)" "read_records b p o1 = Some (ys, o')"
    "rs = xs @ ys"
    using assms(1) by (auto simp: read_records_append split: option.splits)
  have "length xs = a" using read_records_bounds[OF x(1) assms(2)] by simp
  then show ?thesis using x by auto
qed

lemma unat_sat_add3:
  "unat a + unat b + unat c \<le> 65535 \<Longrightarrow>
    unat (sat_add (sat_add a b) (c :: u16)) = unat a + unat b + unat c"
  by (simp add: unat_sat_add)

lemma rewrite_cache_ttl:
  assumes m: "response_cache_ttl p = Some m" and l: "length p \<le> MAX_DNS_PACKET_SIZE"
  shows "\<exists>p'. rewrite_response_ttls p t = Some p' \<and> length p' = length p \<and>
    response_cache_ttl p' = Some t"
proof -
  from m obtain an ns ar off qt o1 o2 o3 xs ys zs where
    h: "12 \<le> length p" "read_u16 p 4 = Some 1"
    "read_u16 p 6 = Some an" "read_u16 p 8 = Some ns" "read_u16 p 10 = Some ar"
    "skip_dns_name p 12 = Some off" "off + 4 \<le> length p" "read_u16 p off = Some qt"
    and x: "read_records (unat an) p (off + 4) = Some (xs, o1)"
    and y: "read_records (unat ns) p o1 = Some (ys, o2)"
    and z: "read_records (unat ar) p o2 = Some (zs, o3)"
    and d: "cache_decision (p ! 3 AND 0x0f) qt xs ys zs = Some m"
    by (rule response_cache_ttl_elim)
  have all: "read_records (unat an + (unat ns + unat ar)) p (off + 4) = Some (xs @ ys @ zs, o3)"
    by (simp add: read_records_append x y z)
  note b = read_records_bounds[OF x h(7)]
  have lens: "length xs = unat an" "length ys = unat ns"
    using b read_records_bounds[OF y] by simp_all
  have "unat an + unat ns + unat ar \<le> 65535"
    using read_records_bounds[OF all h(7)] l by simp
  then have sum: "unat (sat_add (sat_add an ns) ar) = unat an + (unat ns + unat ar)"
    by (simp add: unat_sat_add3)
  obtain p' where p': "rewrite_record_ttls (unat an + (unat ns + unat ar)) p (off + 4) t = Some p'"
    using rewrite_records_exists[OF all] by blast
  have fr: "length p' = length p" "agree 0 (off + 4) p p'"
    using rewrite_ttls_frame[OF p' h(7)] by simp_all
  have o: "12 < off" using skip_dns_name_bounds[OF h(6)] by simp
  have rw: "rewrite_response_ttls p t = Some p'"
    using h o p' by (simp add: rewrite_response_ttls_def count_at_def sum)
  have "read_records (unat an + (unat ns + unat ar)) p' (off + 4) =
      Some (map (set_ttl t) (xs @ ys @ zs), o3)"
    by (rule read_records_rewritten[OF all p' h(7)])
  then obtain o1' where x': "read_records (unat an) p' (off + 4) = Some (map (set_ttl t) xs, o1')"
    and yz: "read_records (unat ns + unat ar) p' o1' = Some (map (set_ttl t) (ys @ zs), o3)"
    using read_records_split[of "unat an" "unat ns + unat ar" p' "off + 4"] fr(1) h(7) lens by fastforce
  have "o1' \<le> length p'" using read_records_bounds[OF x'] fr(1) h(7) by simp
  then obtain o2' where y': "read_records (unat ns) p' o1' = Some (map (set_ttl t) ys, o2')"
    and z': "read_records (unat ar) p' o2' = Some (map (set_ttl t) zs, o3)"
    using read_records_split[OF yz] lens by fastforce
  have hd: "p' ! 3 = p ! 3" using agree_nth[OF fr(2), of 3] h(1) o by simp
  have "skip_dns_name p' 12 = Some off"
    using skip_dns_name_agree[OF h(6) agree_mono[OF fr(2)]] h(7) fr(1) by simp
  then have "response_cache_ttl p' = cache_decision (p' ! 3 AND 0x0f) qt (map (set_ttl t) xs)
      (map (set_ttl t) ys) (map (set_ttl t) zs)"
    using response_cache_ttl_intro[of p', OF _ _ _ _ _ _ _ _ x' y' z'] h fr(1) o agree_read_u16[OF fr(2)]
    by simp
  then show ?thesis
    using cache_decision_set[OF d] rw fr(1) hd by auto
qed

section \<open>Cached and truncated responses\<close>

lemma prepare_response_answers:
  assumes r: "prepare_response_for_query cached query = Some r" and f: "cached ! 2 AND 0x80 \<noteq> 0"
  shows "\<exists>q. parse_question query = Inr q \<and> answers query q r \<and> length r = length cached \<and>
    agree (question_end q) (length cached) cached r \<and> agree 2 12 cached r"
proof -
  obtain q cq where q: "parse_question query = Inr q" and cq: "parse_question cached = Inr cq"
    "question_end cq = question_end q" and r': "r = splice (splice cached 0 (slice query 0 2)) 12
      (slice query 12 (question_end q))"
    using r by (auto simp: prepare_response_for_query_def split: sum.splits if_splits)
  note b = parse_question_bounds[OF q] parse_question_bounds[OF cq(1)]
  have l: "length (slice query 0 2) = 2" "length (slice query 12 (question_end q)) = question_end q - 12"
    using b by (auto simp: length_slice min_def)
  have len: "length r = length cached" using b l cq(2) by (simp add: r' length_splice)
  have nth: "r ! i = (if i < 2 then query ! i else if 12 \<le> i \<and> i < question_end q then query ! i else cached ! i)"
    if "i < length cached" for i
    using that b l cq(2) by (auto simp: r' nth_splice length_splice slice_nth)
  have ag: "agree 12 (question_end q) query r" "agree 0 2 query r" "agree 2 12 cached r"
    "agree (question_end q) (length cached) cached r"
    using b cq(2) len by (auto simp: agree_def get_at_def nth)
  have "read_u16 r 4 = Some 1"
    using parse_question_Inr[OF cq(1)] agree_read_u16[OF ag(3), of 4] by simp
  then have "parse_question r = Inr q" by (rule parse_question_agree[OF q ag(1)])
  moreover have "slice r 0 2 = slice query 0 2" using agree_slice[OF ag(2), of 0 2] b by simp
  moreover have "r ! 2 = cached ! 2" using nth[of 2] b by simp
  ultimately have "answers query q r"
    using f q b len cq(2) by (simp add: answers_def validate_response_for_query_def)
  then show ?thesis using q len ag by blast
qed

lemma answers_agree:
  assumes "answers query q r" and "agree 0 10 r r'" and "agree 12 (question_end q) r r'"
    and "question_end q \<le> length r'" and "parse_question query = Inr q"
  shows "answers query q r'"
proof -
  note b = parse_question_bounds[OF assms(5)]
  have l: "question_end q \<le> length r" "parse_question r = Inr q"
    using assms(1) by (simp_all add: answers_def)
  have "read_u16 r' 4 = Some 1"
    using parse_question_Inr[OF l(2)] agree_read_u16[OF assms(2), of 4] by simp
  then have "parse_question r' = Inr q" by (rule parse_question_agree[OF l(2) assms(3)])
  moreover have "slice r' 0 2 = slice r 0 2" "r' ! 2 = r ! 2"
    using agree_slice[OF assms(2), of 0 2] agree_nth[OF assms(2), of 2] l b by simp_all
  ultimately show ?thesis
    using assms(1,4) b
    by (auto simp: answers_def validate_response_for_query_def split: if_splits sum.splits)
qed

lemma rewrite_ttls_answers:
  assumes a: "answers query q r" and q: "parse_question query = Inr q"
    and w: "rewrite_response_ttls r t = Some r'"
  shows "answers query q r' \<and> length r' = length r"
proof -
  have pq: "parse_question r = Inr q" and l: "question_end q \<le> length r"
    using a by (simp_all add: answers_def)
  from w obtain n where "rewrite_record_ttls n r (question_end q) t = Some r'"
    using skip_question[OF pq] by (auto simp: rewrite_response_ttls_def split: if_splits)
  then have fr: "length r' = length r" "agree 0 (question_end q) r r'"
    using rewrite_ttls_frame l by simp_all
  have "16 < question_end q" using parse_question_bounds[OF q] by simp
  then show ?thesis
    using answers_agree[OF a agree_mono[OF fr(2)] agree_mono[OF fr(2)] _ q] fr(1) l by simp
qed

lemma append_opt_answers:
  assumes a: "answers query q r" and q: "parse_question query = Inr q"
    and w: "append_empty_opt r udp dok = Some r'"
  shows "answers query q r'"
proof -
  obtain ar where r': "r' = splice r 10 (be16 (ar + 1)) @ [0] @ be16 TYPE_OPT @ be16 udp @
      be32 (if dok then 0x00008000 else 0) @ be16 0"
    using w by (auto simp: append_empty_opt_def split: if_splits option.splits)
  have l: "question_end q \<le> length r" "16 < question_end q"
    using a parse_question_bounds[OF q] by (simp_all add: answers_def)
  have s: "length (splice r 10 (be16 (ar + 1))) = length r" using l by (simp add: length_splice)
  have "agree 0 10 r (splice r 10 (be16 (ar + 1)))" "agree 12 (length r) r (splice r 10 (be16 (ar + 1)))"
    using l by (auto intro!: agree_splice)
  then have "agree 0 10 r r'" "agree 12 (length r) r r'"
    using agree_append[of 10 "splice r 10 (be16 (ar + 1))" 0] agree_append[of "length r" "splice r 10 (be16 (ar + 1))" 12] s l
    by (auto simp: r' intro: agree_trans)
  then show ?thesis
    using answers_agree[OF a _ agree_mono[of 12 "length r"] _ q] l s by (simp add: r')
qed

lemma truncated_answers:
  assumes v: "validate_response_for_query query response = Inr ()" and l: "max_size < length response"
    and t: "truncate_response_for_udp query response max_size = Some r"
  shows "length r \<le> max_size \<and> validate_response_for_query query r = Inr () \<and>
    response_is_truncated r \<and> r ! 3 = response ! 3"
proof -
  obtain q where q: "parse_question query = Inr q" and f: "response ! 2 AND 0x80 \<noteq> 0"
    using v by (auto simp: validate_response_for_query_def split: if_splits sum.splits)
  note b = parse_question_bounds[OF q]
  have r: "r = slice query 0 2 @ [response ! 2 OR 2, response ! 3] @ counts 0 0 @
      slice query 12 (question_end q)" and lr: "length r \<le> max_size"
    using t l q b by (auto simp: truncate_response_for_udp_def get_range_def Let_def split: if_splits)
  note s = reply_shape(1-3)[OF q r] and s6 = reply_shape(6)[OF q r, of "[]"]
  have "(response ! 2 OR 2) AND 0x80 \<noteq> 0"
  proof
    assume "(response ! 2 OR 2) AND 0x80 = 0"
    then have "(response ! 2 AND 0x80) OR (2 AND 0x80 :: u8) = 0" by (simp only: bit.conj_disj_distrib2)
    then show False using f by simp
  qed
  then have "validate_response_for_query query r = Inr ()" using s6 by (simp add: answers_def)
  moreover have "(response ! 2 OR 2) AND 2 = (2 :: u8)"
    using or_and_absorb[of "2 :: u8" "response ! 2"] by (simp add: or.commute)
  then have "response_is_truncated r"
    using s(1,2) b by (simp add: response_is_truncated_def get_at_def)
  ultimately show ?thesis using lr s(3) by simp
qed

lemma prepared_answers:
  assumes "prepare_cached_response cached query t = Some r" and "cached ! 2 AND 0x80 \<noteq> 0"
  shows "validate_response_for_query query r = Inr ()"
proof -
  obtain pq where pq: "parse_query query = Inr pq"
    using assms(1) by (auto simp: prepare_cached_response_def split: sum.splits)
  obtain r0 r1 where s: "prepare_response_for_query cached query = Some r0"
    "rewrite_response_ttls r0 t = Some r1"
    "(case edns_udp_size pq of None \<Rightarrow> Some r1 | Some u \<Rightarrow> append_empty_opt r1 u (dnssec_ok pq)) = Some r"
    using assms(1) unfolding prepare_cached_response_def pq sum.case bind_eq_Some_conv by blast
  obtain q where q: "parse_question query = Inr q" and a0: "answers query q r0"
    using prepare_response_answers[OF s(1) assms(2)] by blast
  have a1: "answers query q r1" using rewrite_ttls_answers[OF a0 q s(2)] by simp
  have "answers query q r"
    using s(3) a1 append_opt_answers[OF a1 q] by (cases "edns_udp_size pq") auto
  then show ?thesis by (simp add: answers_def)
qed

section \<open>Properties\<close>

text \<open>A query for the \<open>A\<close> record of \<open>a.b\<close>, and a response with one answer, for the examples.\<close>

definition sample_query :: packet where
  "sample_query = [0x12, 0x34, 1, 0, 0, 1, 0, 0, 0, 0, 0, 0, 1, 97, 1, 66, 0, 0, 1, 0, 1]"

definition sample_response :: packet where
  "sample_response = [0x12, 0x34, 0x81, 0x80, 0, 1, 0, 1, 0, 0, 0, 0, 1, 97, 1, 98, 0, 0, 1, 0, 1,
     0xC0, 0x0C, 0, 1, 0, 1, 0, 0, 0, 60, 0, 4, 10, 0, 0, 1]"



text \<open>What the policy answers for a blocked name.\<close>

definition block_rcode :: "blocking_policy \<Rightarrow> u8" where
  "block_rcode policy =
     (case bp_mode policy of Nxdomain \<Rightarrow> RCODE_NXDOMAIN | Refused \<Rightarrow> RCODE_REFUSED | _ \<Rightarrow> RCODE_NOERROR)"

definition block_addresses :: "blocking_policy \<Rightarrow> question \<Rightarrow> ip_addr list" where
  "block_addresses policy q =
     (case bp_mode policy of
        NullIp \<Rightarrow> ip_answer q RCODE_NOERROR (Some 0) (Some 0)
      | CustomIp \<Rightarrow> ip_answer q RCODE_NOERROR (bp_custom_ipv4 policy) (bp_custom_ipv6 policy)
      | _ \<Rightarrow> [])"

lemma nxdomain_no_addresses:
  assumes q: "parse_question query = Inr q" and r: "build_nxdomain_response query q t = Some r"
  shows "extract_response_ips r = []"
proof -
  obtain h where h: "response_head query (question_end q) 3 0 1 = Some h"
    and r': "r = h @ answer_record TYPE_SOA (qclass q) t (blocking_soa t)"
    using r by (auto simp: build_nxdomain_response_def)
  have "count_at r 6 = 0" using head_answers(3)[OF q h] by (simp add: r' count_at_def)
  then show ?thesis
    using extract_answers[OF head_answers(4)[OF q h]] by (simp add: r')
qed

lemma high_or_low: "(0x80 OR rcode) AND 0x0f = rcode AND (0x0f :: u8)" for rcode :: u8
proof -
  have "(0x80 OR rcode) AND 0x0f = (0x80 AND 0x0f) OR (rcode AND 0x0f :: u8)"
    by (rule bit.conj_disj_distrib2)
  then show ?thesis by simp
qed

text \<open>C4. Every query for a blocked name gets a response: it is a valid response to the query, its
  code is the one of the blocking mode, and the addresses in it are exactly the configured ones.\<close>

theorem blocked_query_answered:
  assumes q: "parse_question query = Inr q"
  shows "\<exists>r. build_block_response query q policy = Some r \<and>
    validate_response_for_query query r = Inr () \<and> r ! 3 AND 0x0f = block_rcode policy \<and>
    extract_response_ips r = block_addresses policy q"
proof -
  have ip: "\<exists>r. build_ip_response query q rcode v4 v6 t = Some r \<and>
      validate_response_for_query query r = Inr () \<and> r ! 3 AND 0x0f = rcode AND 0x0f \<and>
      extract_response_ips r = ip_answer q rcode v4 v6" for rcode v4 v6 t
  proof -
    obtain r where "build_ip_response query q rcode v4 v6 t = Some r" "answers query q r"
      "r ! 3 = 0x80 OR (rcode AND 0x0f)"
      using build_ip_answers[OF q] by blast
    then show ?thesis
      using build_ip_addresses[OF q] by (simp add: answers_def high_or_low)
  qed
  obtain n where n: "build_nxdomain_response query q (bp_ttl policy) = Some n" "answers query q n" "n ! 3 = 0x83"
    using build_nxdomain_answers[OF q] by blast
  show ?thesis
  proof (cases "bp_mode policy")
    case Nxdomain
    then show ?thesis
      using n nxdomain_no_addresses[OF q n(1)]
      by (simp add: build_block_response_def block_rcode_def block_addresses_def answers_def)
  next
    case Refused
    then show ?thesis
      using ip[of 5 None None 0]
      by (simp add: build_block_response_def block_rcode_def block_addresses_def ip_answer_def)
  next
    case NullIp
    then show ?thesis
      using ip[of 0 "Some 0" "Some 0" "bp_ttl policy"]
      by (simp add: build_block_response_def block_rcode_def block_addresses_def)
  next
    case CustomIp
    then show ?thesis
      using ip[of 0 "bp_custom_ipv4 policy" "bp_custom_ipv6 policy" "bp_ttl policy"]
      by (simp add: build_block_response_def block_rcode_def block_addresses_def)
  qed
qed

definition sample_question :: question where
  "sample_question = \<lparr>domain = ''a.b'', qtype = 1, qclass = 1, question_end = 21\<rparr>"

theorem blocked_query_answered_witness:
  "\<exists>r. build_block_response sample_query sample_question default_policy = Some r \<and>
    validate_response_for_query sample_query r = Inr () \<and> extract_response_ips r = [IpV4 0]"
proof -
  have q: "parse_question sample_query = Inr sample_question" by code_simp
  have "block_addresses default_policy sample_question = [IpV4 0]" by code_simp
  then show ?thesis using blocked_query_answered[OF q, of default_policy] by auto
qed

text \<open>A \<open>$dnsrewrite\<close> rule never leaves a query without a valid response, whatever its action:
  a response code, addresses, a CNAME, a record, or a list of these.\<close>

lemma dnsrewrite_query_answered:
  assumes "parse_question query = Inr q"
  shows "\<exists>r. build_dnsrewrite_response query q action policy = Some r \<and>
    validate_response_for_query query r = Inr ()"
  using build_dnsrewrite_answers[OF assms, of action policy] by (auto simp: answers_def)

text \<open>C3. Adapting a cacheable response to a remaining lifetime reaches every record: the rewriting
  succeeds, keeps the length, and the response lives exactly as long as asked for.\<close>

theorem ttl_rewrite_complete:
  assumes "response_cache_ttl p = Some m" and "length p \<le> MAX_DNS_PACKET_SIZE"
  shows "\<exists>p'. rewrite_response_ttls p t = Some p' \<and> length p' = length p \<and> response_cache_ttl p' = Some t"
  using assms by (rule rewrite_cache_ttl)

theorem ttl_rewrite_complete_witness:
  "\<exists>p'. rewrite_response_ttls sample_response 7 = Some p' \<and> length p' = length sample_response \<and>
    response_cache_ttl p' = Some 7"
  by (rule ttl_rewrite_complete[of _ 60]) code_simp+

text \<open>A response taken from the cache answers the query it is prepared for, also when its name
  was asked in another case, its lifetimes are rewritten and an OPT record is added.\<close>

theorem cached_response_answers:
  assumes "prepare_cached_response cached query t = Some r" and "cached ! 2 AND 0x80 \<noteq> 0"
  shows "validate_response_for_query query r = Inr ()"
  using assms by (rule prepared_answers)

theorem cached_response_answers_witness:
  "\<exists>r. prepare_cached_response sample_response sample_query 9 = Some r \<and>
    validate_response_for_query sample_query r = Inr ()"
proof -
  have "prepare_cached_response sample_response sample_query 9 \<noteq> None" by code_simp
  moreover have "sample_response ! 2 AND 0x80 \<noteq> 0" by code_simp
  ultimately show ?thesis using cached_response_answers[of sample_response sample_query 9] by blast
qed

text \<open>C8. A response that does not fit into a datagram is replaced by one that does: it answers the
  query, has the truncation flag, and keeps the response code.\<close>

theorem truncated_response_fits:
  assumes "validate_response_for_query query response = Inr ()" and "max_size < length response"
    and "truncate_response_for_udp query response max_size = Some r"
  shows "length r \<le> max_size \<and> validate_response_for_query query r = Inr () \<and>
    response_is_truncated r \<and> r ! 3 = response ! 3"
  using assms by (rule truncated_answers)

theorem truncated_response_fits_witness:
  "\<exists>r. truncate_response_for_udp sample_query sample_response 30 = Some r \<and> length r \<le> 30 \<and>
    response_is_truncated r"
proof -
  have "truncate_response_for_udp sample_query sample_response 30 \<noteq> None"
    and "validate_response_for_query sample_query sample_response = Inr ()"
    and "30 < length sample_response"
    by code_simp+
  then show ?thesis using truncated_response_fits[of sample_query sample_response 30] by blast
qed

end
