(* ===== verification/CacheSpec.thy ===== *)
theory CacheSpec
  imports Cache DnsSpec "HOL-Library.Multiset"
begin

text \<open>
  The cache: its accounting invariant and the size limit, termination of the
  eviction loop, what a lookup returns after an insertion, the freshness of what it
  returns, and that at most one refresh of a name is in flight.
\<close>

section \<open>Accounting\<close>

definition iter_ok :: "(entries \<Rightarrow> entries) \<Rightarrow> bool" where
  "iter_ok iter = (\<forall>es. mset (iter es) = mset es)"

definition entries_inv :: "entries \<Rightarrow> bool" where
  "entries_inv es =
     (distinct (map fst es) \<and> (\<forall>(k, e) \<in> set es. ce_size e = entry_size k (ce_response e)))"

definition cache_inv :: "dns_cache \<Rightarrow> bool" where
  "cache_inv c = (entries_inv (dc_entries c) \<and> dc_total_size c = sum_sizes (dc_entries c))"

lemma sum_sizes_simps [simp]:
  "sum_sizes [] = 0" "sum_sizes (x # xs) = ce_size (snd x) + sum_sizes xs"
  by (simp_all add: sum_sizes_def)

lemma sum_sizes_filter: "sum_sizes (filter P es) + sum_sizes (filter (\<lambda>x. \<not> P x) es) = sum_sizes es"
  by (induction es) auto

lemma sum_sizes_mem: "x \<in> set es \<Longrightarrow> ce_size (snd x) \<le> sum_sizes es"
  by (induction es) auto

lemma delete_filter: "AList.delete k es = filter (\<lambda>x. fst x \<noteq> k) es"
  by (induction es) (auto simp: AList.delete_eq)

lemma delete_absent_key: "k \<notin> fst ` set es \<Longrightarrow> AList.delete k es = es"
  by (induction es) (auto simp: delete_filter)

lemma sum_sizes_delete:
  "distinct (map fst es) \<Longrightarrow> map_of es k = Some e \<Longrightarrow> sum_sizes (AList.delete k es) = sum_sizes es - ce_size e"
proof (induction es)
  case (Cons x es)
  show ?case
  proof (cases "fst x = k")
    case True
    have "AList.delete k es = es"
      using Cons.prems(1) True by (intro delete_absent_key) auto
    then show ?thesis using Cons.prems True by (cases x) (simp add: delete_filter)
  next
    case False
    then have m: "map_of es k = Some e" using Cons.prems(2) by (cases x) auto
    then have "ce_size e \<le> sum_sizes es" using sum_sizes_mem[OF map_of_SomeD[OF m]] by simp
    then show ?thesis using Cons.IH[OF _ m] Cons.prems(1) False by (simp add: delete_filter)
  qed
qed simp

lemma delete_absent: "map_of es k = None \<Longrightarrow> AList.delete k es = es"
  by (auto simp: delete_filter filter_id_conv map_of_eq_None_iff)

lemma sum_sizes_update:
  "distinct (map fst es) \<Longrightarrow> map_of es k = Some e \<Longrightarrow> ce_size e' = ce_size e \<Longrightarrow>
    sum_sizes (AList.update k e' es) = sum_sizes es"
proof (induction es)
  case (Cons x es)
  then show ?case by (cases x) auto
qed simp

lemma update_new: "k \<notin> fst ` set es \<Longrightarrow> AList.update k e es = es @ [(k, e)]"
proof (induction es)
  case (Cons x es)
  then show ?case by (cases x) auto
qed simp

lemma sum_sizes_append [simp]: "sum_sizes (xs @ ys) = sum_sizes xs + sum_sizes ys"
  by (simp add: sum_sizes_def)

lemma set_update_subset: "set (AList.update k e es) \<subseteq> insert (k, e) (set es)"
proof (induction es)
  case (Cons x es)
  then show ?case by (cases x) auto
qed simp

lemma entries_inv_update:
  "entries_inv es \<Longrightarrow> ce_size e = entry_size k (ce_response e) \<Longrightarrow> entries_inv (AList.update k e es)"
  using set_update_subset[of k e es] by (fastforce simp: entries_inv_def distinct_update)

lemma entries_inv_delete: "entries_inv es \<Longrightarrow> entries_inv (AList.delete k es)"
  by (auto simp: entries_inv_def delete_filter distinct_map_filter)

lemma entries_inv_filter: "entries_inv es \<Longrightarrow> entries_inv (filter P es)"
  by (auto simp: entries_inv_def distinct_map_filter)

lemma map_of_inv: "distinct (map fst es) \<Longrightarrow> (k, e) \<in> set es \<Longrightarrow> map_of es k = Some e"
  by simp

section \<open>The eviction loop ends\<close>

lemma min_by_last_used_Some:
  "xs \<noteq> [] \<Longrightarrow> \<exists>x. min_by_last_used xs = Some x \<and> x \<in> set xs \<and>
    (\<forall>y \<in> set xs. ce_last_used (snd x) \<le> ce_last_used (snd y))"
proof (induction xs)
  case (Cons x xs)
  show ?case
  proof (cases "xs = []")
    case False
    then obtain y where y: "min_by_last_used xs = Some y" "y \<in> set xs"
      "\<forall>z \<in> set xs. ce_last_used (snd y) \<le> ce_last_used (snd z)"
      using Cons.IH by blast
    show ?thesis
    proof (cases "ce_last_used (snd y) < ce_last_used (snd x)")
      case True
      then show ?thesis using y by auto
    next
      case False
      then show ?thesis
        using y by (intro exI[of _ x]) (auto simp: not_less intro: order_trans)
    qed
  qed simp
qed simp

definition sample :: "(entries \<Rightarrow> entries) \<Rightarrow> entries \<Rightarrow> entries" where
  "sample iter es = take DNS_CACHE_EVICT_SAMPLE (iter es)"

lemma sample_subset: "iter_ok iter \<Longrightarrow> set (sample iter es) \<subseteq> set es"
  using set_take_subset mset_eq_setD unfolding iter_ok_def sample_def by metis

lemma sample_nonempty: "iter_ok iter \<Longrightarrow> es \<noteq> [] \<Longrightarrow> sample iter es \<noteq> []"
  by (auto simp: sample_def iter_ok_def DNS_CACHE_EVICT_SAMPLE_def) (metis mset.simps(1) mset_zero_iff)

lemma sample_other:
  assumes i: "iter_ok iter" and d: "distinct es" and x: "x \<in> set es" "y \<in> set es" "x \<noteq> y"
  shows "\<exists>z \<in> set (sample iter es). z \<noteq> x"
proof (rule ccontr)
  assume "\<not> ?thesis"
  then have s: "set (sample iter es) \<subseteq> {x}" by auto
  have dist: "distinct (sample iter es)"
    using i d by (metis distinct_take iter_ok_def mset_eq_imp_distinct_iff sample_def)
  have "2 \<le> length es" using x by (cases es; cases "tl es") auto
  moreover have "length (iter es) = length es" using i by (metis iter_ok_def size_mset)
  ultimately have "2 \<le> length (sample iter es)"
    by (simp add: sample_def DNS_CACHE_EVICT_SAMPLE_def)
  moreover have "length (sample iter es) = card (set (sample iter es))"
    using dist by (simp add: distinct_card)
  moreover have "card (set (sample iter es)) \<le> 1" using card_mono[OF _ s] by simp
  ultimately show False by simp
qed

lemma singleton_list: "distinct xs \<Longrightarrow> x \<in> set xs \<Longrightarrow> \<forall>y \<in> set xs. y = x \<Longrightarrow> xs = [x]"
  by (cases xs; cases "tl xs") auto

lemma evict_loop_ok:
  assumes i: "iter_ok iter"
  shows "entries_inv es \<Longrightarrow> tot = sum_sizes es \<Longrightarrow>
    \<exists>es' n'. evict_loop iter limit es tot n = Some (es', sum_sizes es', n') \<and>
      sum_sizes es' \<le> limit \<and> set es' \<subseteq> set es \<and> entries_inv es' \<and>
      (\<forall>k new. (k, new) \<in> set es \<and> ce_size new \<le> limit \<and>
        (\<forall>(k', e) \<in> set es. k' \<noteq> k \<longrightarrow> ce_last_used e < ce_last_used new) \<longrightarrow> (k, new) \<in> set es')"
proof (induction "length es" arbitrary: es tot n rule: less_induct)
  case less
  show ?case
  proof (cases "tot \<le> limit")
    case True
    then show ?thesis using less.prems by (subst evict_loop.simps) auto
  next
    case False
    then have "es \<noteq> []" using less.prems(2) by auto
    then obtain x where x: "min_by_last_used (sample iter es) = Some x" "x \<in> set (sample iter es)"
      "\<forall>y \<in> set (sample iter es). ce_last_used (snd x) \<le> ce_last_used (snd y)"
      using min_by_last_used_Some[OF sample_nonempty[OF i]] by blast
    obtain k e where xe: "x = (k, e)" by (cases x)
    note m = x(1)[unfolded xe] and ke = x(2)[unfolded xe] and least = x(3)[unfolded xe snd_conv]
    have mem: "(k, e) \<in> set es" using ke sample_subset[OF i] by blast
    have d: "distinct (map fst es)" using less.prems(1) by (simp add: entries_inv_def)
    then have de: "distinct es" by (simp add: distinct_map)
    have mo: "map_of es k = Some e" using d mem by (rule map_of_inv)
    let ?es = "AList.delete k es"
    have len: "length ?es < length es"
      using mem by (simp add: delete_filter) (metis (mono_tags, lifting) fst_conv length_filter_less)
    have s: "tot - ce_size e = sum_sizes ?es"
      using sum_sizes_delete[OF d mo] less.prems(2) by simp
    obtain es' n' where r: "evict_loop iter limit ?es (tot - ce_size e) (sat_add n 1) =
        Some (es', sum_sizes es', n')" "sum_sizes es' \<le> limit" "set es' \<subseteq> set ?es" "entries_inv es'"
      and keep: "\<forall>k new. (k, new) \<in> set ?es \<and> ce_size new \<le> limit \<and>
        (\<forall>(k', e) \<in> set ?es. k' \<noteq> k \<longrightarrow> ce_last_used e < ce_last_used new) \<longrightarrow> (k, new) \<in> set es'"
      using less.hyps[OF len entries_inv_delete[OF less.prems(1)] s] by blast
    have step: "evict_loop iter limit es tot n = Some (es', sum_sizes es', n')"
      using False m mo r(1) by (subst evict_loop.simps) (simp add: sample_def)
    have "(k0, new) \<in> set es'"
      if n: "(k0, new) \<in> set es" "ce_size new \<le> limit"
        "\<forall>(k', e) \<in> set es. k' \<noteq> k0 \<longrightarrow> ce_last_used e < ce_last_used new" for k0 new
    proof -
      have "\<exists>y \<in> set es. y \<noteq> (k0, new)"
      proof (rule ccontr)
        assume "\<not> ?thesis"
        then have "\<forall>y \<in> set es. y = (k0, new)" by blast
        then have "es = [(k0, new)]" by (rule singleton_list[OF de n(1)])
        then show False using False less.prems(2) n(2) by simp
      qed
      then obtain y where y: "y \<in> set es" "y \<noteq> (k0, new)" by blast
      obtain z where z: "z \<in> set (sample iter es)" "z \<noteq> (k0, new)"
        using sample_other[OF i de n(1) y(1) y(2)[symmetric]] by blast
      have zs: "z \<in> set es" using z(1) sample_subset[OF i] by blast
      obtain a b where ab: "z = (a, b)" by (cases z)
      have "map_of es a = Some b" using map_of_inv[OF d] zs by (simp add: ab)
      then have "a \<noteq> k0" using z(2) map_of_inv[OF d n(1)] by (auto simp: ab)
      then have "ce_last_used b < ce_last_used new" using n(3) zs by (auto simp: ab)
      then have lt: "ce_last_used e < ce_last_used new" using least z(1) ab by force
      then have "k \<noteq> k0" using mo map_of_inv[OF d n(1)] by auto
      moreover have "set ?es \<subseteq> set es" by (auto simp: delete_filter)
      ultimately show ?thesis
        using n by (intro keep[rule_format, of k0 new]) (auto simp: delete_filter)
    qed
    then show ?thesis
      using step r by (auto simp: delete_filter)
  qed
qed

section \<open>Insertion\<close>

lemma evict_expired_inv:
  assumes "cache_inv c"
  shows "cache_inv (fst (evict_expired c now))"
proof -
  let ?P = "\<lambda>x. keep_entry (dc_config c) now (snd x)"
  have "dc_total_size c - sum_sizes (filter (\<lambda>x. \<not> ?P x) (dc_entries c)) = sum_sizes (filter ?P (dc_entries c))"
    using assms sum_sizes_filter[of ?P "dc_entries c"] by (simp add: cache_inv_def)
  then show ?thesis
    using assms by (simp add: evict_expired_def Let_def cache_inv_def entries_inv_filter)
qed

text \<open>The scan for expired entries that precedes the eviction loop.\<close>

definition after_scan :: "dns_cache \<Rightarrow> u64 \<Rightarrow> dns_cache" where
  "after_scan c now =
     (if should_scan_expired c now then (fst (evict_expired c now))\<lparr>dc_last_expired_scan_at := now\<rparr> else c)"

lemma after_scan_inv: "cache_inv c \<Longrightarrow> cache_inv (after_scan c now)"
  using evict_expired_inv[of c now] by (auto simp: after_scan_def cache_inv_def)

lemma after_scan_fields [simp]:
  "dc_config (after_scan c now) = dc_config c" "dc_access_counter (after_scan c now) = dc_access_counter c"
  by (simp_all add: after_scan_def evict_expired_def Let_def)

lemma after_scan_entries: "set (dc_entries (after_scan c now)) \<subseteq> set (dc_entries c)"
  by (auto simp: after_scan_def evict_expired_def Let_def)

lemma after_scan_keeps:
  "(k, e) \<in> set (dc_entries c) \<Longrightarrow> keep_entry (dc_config c) now e \<Longrightarrow> (k, e) \<in> set (dc_entries (after_scan c now))"
  by (simp add: after_scan_def evict_expired_def Let_def)

lemma evict_over_limit_ok:
  assumes i: "iter_ok iter" and inv: "cache_inv c"
  shows "\<exists>c' n. evict_over_limit iter c now = Some (c', n) \<and> cache_inv c' \<and>
    dc_total_size c' \<le> cc_max_size_bytes (dc_config c) \<and> dc_config c' = dc_config c \<and>
    dc_access_counter c' = dc_access_counter c \<and> set (dc_entries c') \<subseteq> set (dc_entries c) \<and>
    (\<forall>k new. (k, new) \<in> set (dc_entries c) \<and> keep_entry (dc_config c) now new \<and>
      ce_size new \<le> cc_max_size_bytes (dc_config c) \<and>
      (\<forall>(k', e) \<in> set (dc_entries c). k' \<noteq> k \<longrightarrow> ce_last_used e < ce_last_used new) \<longrightarrow>
      (k, new) \<in> set (dc_entries c'))"
proof -
  let ?c = "after_scan c now" let ?limit = "cc_max_size_bytes (dc_config c)"
  define n where "n = (if should_scan_expired c now then snd (evict_expired c now) else 0)"
  have inv1: "entries_inv (dc_entries ?c)" "dc_total_size ?c = sum_sizes (dc_entries ?c)"
    using after_scan_inv[OF inv, of now] by (simp_all add: cache_inv_def)
  obtain es' n' where r: "evict_loop iter ?limit (dc_entries ?c) (dc_total_size ?c) n = Some (es', sum_sizes es', n')"
    "sum_sizes es' \<le> ?limit" "set es' \<subseteq> set (dc_entries ?c)" "entries_inv es'"
    and keep: "\<forall>k new. (k, new) \<in> set (dc_entries ?c) \<and> ce_size new \<le> ?limit \<and>
        (\<forall>(k', e) \<in> set (dc_entries ?c). k' \<noteq> k \<longrightarrow> ce_last_used e < ce_last_used new) \<longrightarrow> (k, new) \<in> set es'"
    using evict_loop_ok[OF i inv1, of ?limit n] by blast
  have cfg: "dc_config (fst (evict_expired c now)) = dc_config c"
    by (simp add: evict_expired_def Let_def)
  have "evict_over_limit iter c now = Some (?c\<lparr>dc_entries := es', dc_total_size := sum_sizes es'\<rparr>, n')"
    using r(1) cfg
    by (cases "evict_expired c now") (simp add: evict_over_limit_def after_scan_def n_def split: if_splits)
  moreover have "(k, new) \<in> set es'"
    if "(k, new) \<in> set (dc_entries c)" "keep_entry (dc_config c) now new" "ce_size new \<le> ?limit"
      "\<forall>(k', e) \<in> set (dc_entries c). k' \<noteq> k \<longrightarrow> ce_last_used e < ce_last_used new" for k new
    using keep after_scan_keeps[OF that(1,2)] after_scan_entries[of c now] that(3,4) by blast
  ultimately show ?thesis
    using r after_scan_entries[of c now] by (auto simp: cache_inv_def)
qed

text \<open>The state an insertion hands to the eviction.\<close>

definition inserted :: "dns_cache \<Rightarrow> cache_key \<Rightarrow> packet \<Rightarrow> u64 \<Rightarrow> u32 \<Rightarrow> dns_cache" where
  "inserted c key response now t =
     c\<lparr>dc_access_counter := dc_access_counter c + 1,
       dc_entries := AList.delete key (dc_entries c) @ [(key, new_entry key response now t (dc_access_counter c + 1))],
       dc_total_size := sum_sizes (AList.delete key (dc_entries c)) + entry_size key response\<rparr>"

lemma insert_unfold:
  assumes "cache_inv c" and "t \<noteq> 0" and "entry_size key response \<le> cc_max_size_bytes (dc_config c)"
  shows "cache_insert_with_ttl iter c key response now t =
    map_option (\<lambda>(c', n). (c', \<lparr>io_inserted = True, io_evicted = n\<rparr>))
      (evict_over_limit iter (inserted c key response now t) now)"
proof -
  let ?es = "dc_entries c"
  have d: "distinct (map fst ?es)" and s: "dc_total_size c = sum_sizes ?es"
    using assms(1) by (simp_all add: cache_inv_def entries_inv_def)
  have t: "(case map_of ?es key of None \<Rightarrow> dc_total_size c | Some p \<Rightarrow> dc_total_size c - ce_size p) =
      sum_sizes (AList.delete key ?es)"
    using sum_sizes_delete[OF d] s by (auto simp: delete_absent split: option.splits)
  have "key \<notin> fst ` set (AList.delete key ?es)" by (auto simp: delete_filter)
  then have u: "AList.update key e (AList.delete key ?es) = AList.delete key ?es @ [(key, e)]" for e
    by (rule update_new)
  show ?thesis
    using assms(2,3) by (simp add: cache_insert_with_ttl_def Let_def t u inserted_def)
qed

lemma inserted_inv:
  assumes "cache_inv c"
  shows "cache_inv (inserted c key response now t)"
proof -
  have "entries_inv (AList.delete key (dc_entries c))"
    using assms by (simp add: cache_inv_def entries_inv_delete)
  then show ?thesis
    by (auto simp: cache_inv_def inserted_def entries_inv_def new_entry_def delete_filter)
qed


lemma insert_ok:
  assumes i: "iter_ok iter" and inv: "cache_inv c"
    and lim: "dc_total_size c \<le> cc_max_size_bytes (dc_config c)"
  shows "\<exists>c' out. cache_insert_with_ttl iter c key response now t = Some (c', out) \<and> cache_inv c' \<and>
    dc_total_size c' \<le> cc_max_size_bytes (dc_config c') \<and> dc_config c' = dc_config c"
proof (cases "t = 0 \<or> cc_max_size_bytes (dc_config c) < entry_size key response")
  case True
  then show ?thesis using inv lim by (auto simp: cache_insert_with_ttl_def Let_def cache_inv_def)
next
  case False
  then show ?thesis
    using evict_over_limit_ok[OF i inserted_inv[OF inv], of key response now t now]
    by (auto simp: insert_unfold[OF inv] not_less inserted_def)
qed


lemma unat_ucast_u64: "unat (ucast (t :: u32) :: u64) = unat t"
proof -
  have "unat t < 2 ^ LENGTH(32)" by (rule unsigned_less)
  then have "unat t < 2 ^ 64" by simp
  then show ?thesis by (simp add: unsigned_ucast_eq take_bit_nat_eq_self)
qed


section \<open>Lookups\<close>

lemma lookup_unfold:
  "cache_lookup c key now =
    (let c1 = c\<lparr>dc_access_counter := dc_access_counter c + 1\<rparr>
     in case map_of (dc_entries c) key of
          None \<Rightarrow> (c1, None)
        | Some e \<Rightarrow>
            if keep_entry (dc_config c) now e
            then (c1\<lparr>dc_entries := AList.update key
                   (fst (serve_entry (dc_config c) e (dc_access_counter c + 1) now)) (dc_entries c)\<rparr>,
                  Some (snd (serve_entry (dc_config c) e (dc_access_counter c + 1) now)))
            else (c1, None))"
  by (auto simp: cache_lookup_def Let_def keep_entry_def case_prod_beta not_less split: option.splits)

lemma serve_entry_hit:
  "rh_response (snd (serve_entry cfg e access now)) = ce_response e"
  "rh_stale (snd (serve_entry cfg e access now)) = (ce_expires_at e \<le> now)"
  "rh_ttl (snd (serve_entry cfg e access now)) = (if now < ce_expires_at e
      then max (if sat_sub (ce_expires_at e) now \<le> 0xffffffff then ucast (sat_sub (ce_expires_at e) now) else - 1) 1
      else 1)"
  by (simp_all add: serve_entry_def Let_def case_prod_beta not_less)

lemma serve_entry_entry:
  "ce_response (fst (serve_entry cfg e access now)) = ce_response e"
  "ce_size (fst (serve_entry cfg e access now)) = ce_size e"
  "ce_expires_at (fst (serve_entry cfg e access now)) = ce_expires_at e"
  "ce_last_used (fst (serve_entry cfg e access now)) = access"
  by (simp_all add: serve_entry_def Let_def claim_refresh_def case_prod_beta)


lemma lookup_Some:
  assumes "snd (cache_lookup c key now) = Some hit"
  shows "\<exists>e. map_of (dc_entries c) key = Some e \<and> keep_entry (dc_config c) now e \<and>
    hit = snd (serve_entry (dc_config c) e (dc_access_counter c + 1) now) \<and>
    dc_entries (fst (cache_lookup c key now)) = AList.update key
      (fst (serve_entry (dc_config c) e (dc_access_counter c + 1) now)) (dc_entries c)"
  using assms by (auto simp: lookup_unfold Let_def split: option.splits if_splits)


lemma unat_ucast_small: "x \<le> 0xffffffff \<Longrightarrow> unat (ucast (x :: u64) :: u32) = unat x"
proof -
  assume "x \<le> 0xffffffff"
  then have "unat x < 2 ^ 32" by (simp add: word_le_nat_alt)
  then show ?thesis by (simp add: unsigned_ucast_eq take_bit_nat_eq_self)
qed

lemma ttl_bound:
  assumes "now < (x :: u64)"
  shows "unat (max (if sat_sub x now \<le> 0xffffffff then ucast (sat_sub x now) else - 1) (1 :: u32))
    \<le> unat x - unat now"
proof -
  have pos: "1 \<le> unat x - unat now" using assms by (simp add: word_less_nat_alt)
  show ?thesis
  proof (cases "sat_sub x now \<le> 0xffffffff")
    case True
    then show ?thesis
      using unat_ucast_small[OF True] pos by (simp add: unat_sat_sub max_def)
  next
    case False
    then have "unat (0xffffffff :: u64) < unat x - unat now"
      by (simp add: not_le word_less_nat_alt unat_sat_sub)
    moreover have "unat (- 1 :: u32) = 0xffffffff" by (simp add: unat_minus_one_word)
    ultimately show ?thesis using False pos by (auto simp: max_def)
  qed
qed



section \<open>One refresh in flight\<close>




definition shard_inv :: "dns_cache \<Rightarrow> bool" where
  "shard_inv c = (cache_inv c \<and> dc_total_size c \<le> cc_max_size_bytes (dc_config c))"

lemma lookup_inv:
  assumes "shard_inv c"
  shows "shard_inv (fst (cache_lookup c key now)) \<and> dc_config (fst (cache_lookup c key now)) = dc_config c"
proof (cases "map_of (dc_entries c) key")
  case None
  then show ?thesis using assms by (simp add: lookup_unfold Let_def shard_inv_def cache_inv_def)
next
  case (Some e)
  have d: "distinct (map fst (dc_entries c))" and inv: "entries_inv (dc_entries c)"
    using assms by (simp_all add: shard_inv_def cache_inv_def entries_inv_def)
  have "ce_size e = entry_size key (ce_response e)"
    using inv map_of_SomeD[OF Some] by (auto simp: entries_inv_def)
  then have "entries_inv (AList.update key (fst (serve_entry cfg e a now)) (dc_entries c))" for cfg a
    using entries_inv_update[OF inv] by (simp add: serve_entry_entry)
  moreover have "sum_sizes (AList.update key (fst (serve_entry cfg e a now)) (dc_entries c)) = sum_sizes (dc_entries c)" for cfg a
    using sum_sizes_update[OF d Some] by (simp add: serve_entry_entry)
  ultimately show ?thesis
    using assms Some by (simp add: lookup_unfold Let_def shard_inv_def cache_inv_def)
qed

lemma finish_inv:
  assumes "shard_inv c"
  shows "shard_inv (cache_finish_refresh c key) \<and> dc_config (cache_finish_refresh c key) = dc_config c"
proof (cases "map_of (dc_entries c) key")
  case None
  then show ?thesis using assms by (simp add: cache_finish_refresh_def)
next
  case (Some e)
  have d: "distinct (map fst (dc_entries c))" and inv: "entries_inv (dc_entries c)"
    using assms by (simp_all add: shard_inv_def cache_inv_def entries_inv_def)
  have "ce_size e = entry_size key (ce_response e)"
    using inv map_of_SomeD[OF Some] by (auto simp: entries_inv_def)
  then show ?thesis
    using assms Some entries_inv_update[OF inv, of "e\<lparr>ce_refreshing := False\<rparr>" key]
      sum_sizes_update[OF d Some, of "e\<lparr>ce_refreshing := False\<rparr>"]
    by (simp add: cache_finish_refresh_def shard_inv_def cache_inv_def)
qed

lemma clear_inv: "shard_inv (cache_clear c) \<and> dc_config (cache_clear c) = dc_config c"
  by (simp add: cache_clear_def shard_inv_def cache_inv_def entries_inv_def)

lemma insert_inv:
  "iter_ok iter \<Longrightarrow> shard_inv c \<Longrightarrow> \<exists>c' out. cache_insert_with_ttl iter c key response now t = Some (c', out) \<and>
    shard_inv c' \<and> dc_config c' = dc_config c"
  using insert_ok[of iter c key response now t] by (auto simp: shard_inv_def)











section \<open>The store\<close>

inductive store_reach ::
  "(entries \<Rightarrow> entries) \<Rightarrow> (cache_key \<Rightarrow> u64) \<Rightarrow> cache_config \<Rightarrow> nat \<Rightarrow> cache_store \<Rightarrow> bool"
  for iter hash cfg n where
  reach_init: "store_from_config cfg n = Some s \<Longrightarrow> store_reach iter hash cfg n s"
| reach_lookup: "store_reach iter hash cfg n s \<Longrightarrow>
    store_reach iter hash cfg n (fst (store_lookup hash s key now))"
| reach_insert: "store_reach iter hash cfg n s \<Longrightarrow>
    store_insert_with_ttl iter hash s key response now t = Some (s', ok) \<Longrightarrow>
    store_reach iter hash cfg n s'"
| reach_finish: "store_reach iter hash cfg n s \<Longrightarrow>
    store_reach iter hash cfg n (store_finish_refresh hash s key)"
| reach_clear: "store_reach iter hash cfg n s \<Longrightarrow> store_reach iter hash cfg n (store_clear s)"
| reach_started: "store_reach iter hash cfg n s \<Longrightarrow>
    store_reach iter hash cfg n (record_refresh_started s reason)"
| reach_completed: "store_reach iter hash cfg n s \<Longrightarrow>
    store_reach iter hash cfg n (record_refresh_completed s reason)"
| reach_failed: "store_reach iter hash cfg n s \<Longrightarrow>
    store_reach iter hash cfg n (record_refresh_failed s reason)"

definition shard_size :: "cache_config \<Rightarrow> nat \<Rightarrow> nat" where
  "shard_size cfg n = max (cc_max_size_bytes cfg div store_shard_count cfg n) 1"

definition store_inv :: "cache_config \<Rightarrow> nat \<Rightarrow> cache_store \<Rightarrow> bool" where
  "store_inv cfg n s =
     (0 < cc_max_size_bytes cfg \<and> length (cs_shards s) = store_shard_count cfg n \<and>
      (\<forall>c \<in> set (cs_shards s). shard_inv c \<and> cc_max_size_bytes (dc_config c) = shard_size cfg n))"

lemma store_inv_update:
  assumes "store_inv cfg n s" and "get_at (cs_shards s) i = Some c"
    and "shard_inv c' \<and> dc_config c' = dc_config c"
  shows "store_inv cfg n (s\<lparr>cs_shards := (cs_shards s)[i := c']\<rparr>)"
proof -
  have "c \<in> set (cs_shards s)" using assms(2) by (auto simp: get_at_Some)
  then show ?thesis
    using assms set_update_subset_insert[of "cs_shards s" i c'] by (fastforce simp: store_inv_def)
qed

lemma store_inv_metrics: "store_inv cfg n s \<Longrightarrow> store_inv cfg n (s\<lparr>cs_metrics := m\<rparr>)"
  by (simp add: store_inv_def)

lemma store_from_config_inv:
  assumes "store_from_config cfg n = Some s"
  shows "store_inv cfg n s"
proof -
  have m: "List.map_filter (\<lambda>_. Some x) (xs :: nat list) = replicate (length xs) x" for x :: dns_cache and xs
    by (induction xs) (simp_all add: List.map_filter_def)
  show ?thesis
    using assms
    by (auto simp: store_from_config_def store_inv_def cache_from_config_def m Let_def shard_size_def
        shard_inv_def cache_inv_def entries_inv_def split: if_splits)
qed

lemma store_reach_inv:
  assumes i: "iter_ok iter" and r: "store_reach iter hash cfg n s"
  shows "store_inv cfg n s"
  using r
proof (induction rule: store_reach.induct)
  case (reach_init s)
  then show ?case by (rule store_from_config_inv)
next
  case (reach_lookup s key now)
  let ?i = "shard_index hash key (length (cs_shards s))"
  show ?case
  proof (cases "get_at (cs_shards s) ?i")
    case None
    then show ?thesis using reach_lookup.IH by (simp add: store_lookup_def Let_def store_inv_metrics)
  next
    case (Some c)
    have "shard_inv c" using reach_lookup.IH Some by (auto simp: store_inv_def get_at_Some)
    then have "store_inv cfg n (s\<lparr>cs_shards := (cs_shards s)[?i := fst (cache_lookup c key now)]\<rparr>)"
      using store_inv_update[OF reach_lookup.IH Some] lookup_inv by blast
    then show ?thesis using Some by (simp add: store_lookup_def Let_def case_prod_beta store_inv_def)
  qed
next
  case (reach_insert s key response now t s' ok)
  let ?i = "shard_index hash key (length (cs_shards s))"
  show ?case
  proof (cases "get_at (cs_shards s) ?i")
    case None
    then show ?thesis using reach_insert by (simp add: store_insert_with_ttl_def Let_def)
  next
    case (Some c)
    have "shard_inv c" using reach_insert.IH Some by (auto simp: store_inv_def get_at_Some)
    then obtain c' out where c': "cache_insert_with_ttl iter c key response now t = Some (c', out)"
      "shard_inv c' \<and> dc_config c' = dc_config c"
      using insert_inv[OF i] by blast
    have "store_inv cfg n (s\<lparr>cs_shards := (cs_shards s)[?i := c']\<rparr>)"
      by (rule store_inv_update[OF reach_insert.IH Some c'(2)])
    then show ?thesis
      using reach_insert.hyps(2) Some c'(1) by (auto simp: store_insert_with_ttl_def Let_def store_inv_def)
  qed
next
  case (reach_finish s key)
  let ?i = "shard_index hash key (length (cs_shards s))"
  show ?case
  proof (cases "get_at (cs_shards s) ?i")
    case None
    then show ?thesis using reach_finish.IH by (simp add: store_finish_refresh_def Let_def)
  next
    case (Some c)
    have "shard_inv c" using reach_finish.IH Some by (auto simp: store_inv_def get_at_Some)
    then show ?thesis
      using Some store_inv_update[OF reach_finish.IH Some] finish_inv
      by (simp add: store_finish_refresh_def Let_def)
  qed
next
  case (reach_clear s)
  then show ?case using clear_inv by (auto simp: store_clear_def store_inv_def)
qed (auto simp: record_refresh_started_def record_refresh_completed_def record_refresh_failed_def
    Let_def store_inv_metrics)

lemma shards_fit:
  assumes "0 < cc_max_size_bytes cfg"
  shows "store_shard_count cfg n * shard_size cfg n \<le> cc_max_size_bytes cfg"
proof -
  let ?m = "cc_max_size_bytes cfg" let ?k = "store_shard_count cfg n"
  have k: "0 < ?k" "?k \<le> ?m" using assms by (auto simp: store_shard_count_def)
  then have "1 \<le> ?m div ?k" by (simp add: div_greater_zero_iff Suc_le_eq)
  then have "shard_size cfg n = ?m div ?k" by (simp add: shard_size_def max_def)
  then show ?thesis by (simp add: times_div_less_eq_dividend)
qed

lemma sum_le_mult: "\<forall>c \<in> set cs. f c \<le> b \<Longrightarrow> sum_list (map f cs) \<le> length cs * (b :: nat)"
  by (induction cs) auto

section \<open>Properties\<close>

text \<open>C9. Whatever the operations on the cache, in whatever order and for whatever iteration order
  and hash of its tables, the accounted size of all shards stays within the configured size.\<close>

theorem cache_within_limit:
  assumes "iter_ok iter" and "store_reach iter hash cfg n s"
  shows "sum_list (map dc_total_size (cs_shards s)) \<le> cc_max_size_bytes cfg"
proof -
  have inv: "store_inv cfg n s" by (rule store_reach_inv[OF assms])
  then have "sum_list (map dc_total_size (cs_shards s)) \<le> length (cs_shards s) * shard_size cfg n"
    by (intro sum_le_mult) (auto simp: store_inv_def shard_inv_def)
  then show ?thesis using inv shards_fit[of cfg n] by (simp add: store_inv_def)
qed

definition sample_config :: cache_config where
  "sample_config = \<lparr>cc_enabled = True, cc_max_size_bytes = 200, cc_min_ttl = 0, cc_max_ttl = 0,
     cc_optimistic = True, cc_max_stale_seconds = 30, cc_prefetch_enabled = False,
     cc_prefetch_hit_threshold = 0\<rparr>"

definition sample_key :: cache_key where
  "sample_key = \<lparr>ck_domain = ''a.b'', ck_qtype = 1, ck_qclass = 1, ck_recursion_desired = True,
     ck_authentic_data = False, ck_checking_disabled = False, ck_dnssec_ok = False, ck_edns = False,
     ck_route = None\<rparr>"

definition sample_cache :: dns_cache where
  "sample_cache = \<lparr>dc_config = sample_config, dc_entries = [], dc_total_size = 0,
     dc_access_counter = 0, dc_last_expired_scan_at = 0\<rparr>"

theorem cache_within_limit_witness:
  "\<exists>s s'. store_from_config sample_config 1 = Some s \<and>
    sum_list (map dc_total_size (cs_shards (fst (store_lookup (\<lambda>_. 0) s sample_key 5)))) \<le> 200"
proof -
  obtain s where s: "store_from_config sample_config 1 = Some s"
    by (simp add: store_from_config_def sample_config_def store_shard_count_def cache_from_config_def
        List.map_filter_def)
  have "store_reach id (\<lambda>_. 0) sample_config 1 (fst (store_lookup (\<lambda>_. 0) s sample_key 5))"
    by (intro reach_lookup reach_init s)
  then show ?thesis
    using cache_within_limit[of id "\<lambda>_. 0" sample_config 1] s by (simp add: iter_ok_def sample_config_def)
qed



text \<open>C11. What a lookup serves is fresh enough: the response is the stored one, a response that is
  not marked stale is served for no longer than its entry still lives, and one that is stale is
  only served in the optimistic mode, within the configured window, for one second.\<close>

theorem served_lifetime_bounded:
  assumes "snd (cache_lookup c key now) = Some hit"
  shows "\<exists>e. map_of (dc_entries c) key = Some e \<and> rh_response hit = ce_response e \<and>
    (if rh_stale hit
     then cc_optimistic (dc_config c) \<and> rh_ttl hit = 1 \<and>
       unat now - unat (ce_expires_at e) \<le> unat (cc_max_stale_seconds (dc_config c))
     else unat (rh_ttl hit) \<le> unat (ce_expires_at e) - unat now)"
proof -
  obtain e where e: "map_of (dc_entries c) key = Some e" "keep_entry (dc_config c) now e"
    "hit = snd (serve_entry (dc_config c) e (dc_access_counter c + 1) now)"
    using lookup_Some[OF assms] by blast
  show ?thesis
  proof (cases "now < ce_expires_at e")
    case True
    then have "\<not> ce_expires_at e \<le> now" by simp
    then show ?thesis using e True ttl_bound[OF True] by (simp add: serve_entry_hit)
  next
    case False
    then have "sat_sub now (ce_expires_at e) \<le> ucast (cc_max_stale_seconds (dc_config c))"
      "cc_optimistic (dc_config c)"
      using e(2) by (auto simp: keep_entry_def)
    then have "unat now - unat (ce_expires_at e) \<le> unat (cc_max_stale_seconds (dc_config c))"
      by (simp add: word_le_nat_alt unat_sat_sub unat_ucast_u64)
    then show ?thesis
      using e False \<open>cc_optimistic (dc_config c)\<close> by (simp add: serve_entry_hit)
  qed
qed

theorem served_lifetime_bounded_witness:
  "\<exists>e. map_of [(sample_key, new_entry sample_key [9] 0 60 1)] sample_key = Some e \<and> [9] = ce_response e \<and>
    unat (75 :: u64) - unat (ce_expires_at e) \<le> 30"
proof -
  let ?c = "sample_cache\<lparr>dc_entries := [(sample_key, new_entry sample_key [9] 0 60 1)]\<rparr>"
  let ?h = "\<lparr>rh_response = [9], rh_ttl = 1, rh_stale = True, rh_refresh_reason = Some Expired\<rparr>"
  have "snd (cache_lookup ?c sample_key 75) = Some ?h" by code_simp
  from served_lifetime_bounded[OF this] show ?thesis
    by (simp add: sample_cache_def sample_config_def)
qed



end
