(* ===== verification/ConfigUpstream.thy ===== *)
theory ConfigUpstream
  imports PolicyText
begin

text \<open>
  \<open>config.rs\<close>: the texts that name upstream servers and routes.  The URL parser is
  a library (\<open>reqwest::Url\<close>): its result is a parameter, a record of the accessors the
  code calls.  Socket addresses are parsed as the standard library does.
\<close>

section \<open>Socket addresses\<close>

datatype socket_addr = SocketV4 u32 u16 | SocketV6 u128 u16 u32

fun socket_new :: "ip_addr \<Rightarrow> u16 \<Rightarrow> socket_addr" where
  "socket_new (IpV4 ip) port = SocketV4 ip port"
| "socket_new (IpV6 ip) port = SocketV6 ip port 0"

fun socket_is_ipv4 :: "socket_addr \<Rightarrow> bool" where
  "socket_is_ipv4 (SocketV4 _ _) = True"
| "socket_is_ipv4 (SocketV6 _ _ _) = False"

definition read_port :: "string \<Rightarrow> (u16 \<times> string) option" where
  "read_port s = do {
     s1 \<leftarrow> strip_prefix '':'' s;
     (p, r) \<leftarrow> read_number 10 (length s1) True 65535 s1;
     Some (of_nat p, r) }"

definition read_socket_v4 :: "string \<Rightarrow> (socket_addr \<times> string) option" where
  "read_socket_v4 s = do {
     (ip, s1) \<leftarrow> read_ipv4 s;
     (port, r) \<leftarrow> read_port s1;
     Some (SocketV4 ip port, r) }"

definition read_scope :: "string \<Rightarrow> nat \<times> string" where
  "read_scope s =
     (case strip_prefix ''%'' s of
        None \<Rightarrow> (0, s)
      | Some s1 \<Rightarrow>
          (case read_number 10 (length s1) True (2 ^ 32 - 1) s1 of
             None \<Rightarrow> (0, s)
           | Some r \<Rightarrow> r))"

definition read_socket_v6 :: "string \<Rightarrow> (socket_addr \<times> string) option" where
  "read_socket_v6 s = do {
     s1 \<leftarrow> strip_prefix ''['' s;
     (ip, s2) \<leftarrow> read_ipv6 s1;
     s4 \<leftarrow> strip_prefix '']'' (snd (read_scope s2));
     (port, r) \<leftarrow> read_port s4;
     Some (SocketV6 ip port (of_nat (fst (read_scope s2))), r) }"

definition parse_socket :: "string \<Rightarrow> socket_addr option" where
  "parse_socket s =
     (case read_socket_v4 s of
        Some (a, r) \<Rightarrow> if r = [] then Some a else None
      | None \<Rightarrow> at_end (read_socket_v6 s))"

section \<open>Host names\<close>

definition hostname_char :: "char \<Rightarrow> bool" where
  "hostname_char c = (is_alnum c \<or> c = CHR ''-'' \<or> c = CHR ''.'')"

definition normalize_hostname :: "string \<Rightarrow> string option" where
  "normalize_hostname value =
     (let hostname = to_lower (trim_end_matches (CHR ''.'') (trim value))
      in if hostname = [] \<or> 253 < length hostname then None
         else if list_ex (\<lambda>label. label = [] \<or> 63 < length label \<or> starts_with ''-'' label \<or> ends_with ''-'' label)
                   (split_on (CHR ''.'') hostname) then None
         else if \<not> list_all hostname_char hostname then None
         else Some hostname)"

definition rsplit_once :: "char \<Rightarrow> string \<Rightarrow> (string \<times> string) option" where
  "rsplit_once c s = map_option (\<lambda>(a, b). (rev b, rev a)) (split_once c (rev s))"

definition trim_brackets :: "string \<Rightarrow> string" where
  "trim_brackets s =
     (let bracket = (\<lambda>c. c = CHR ''['' \<or> c = CHR '']'')
      in rev (dropWhile bracket (rev (dropWhile bracket s))))"

definition split_host_port :: "string \<Rightarrow> (string \<times> u16) option" where
  "split_host_port value =
     (case Option.bind (rsplit_once (CHR '':'') value)
             (\<lambda>(host, port). map_option (\<lambda>p. (trim_brackets host, p)) (parse_u16 port)) of
        Some hp \<Rightarrow> Some hp
      | None \<Rightarrow> map_option (\<lambda>_. (value, 53)) (normalize_hostname value))"

section \<open>Upstream servers\<close>

datatype upstream_server =
    Udp socket_addr
  | UdpHostname string u16
  | Doh string
  | Tls string u16
  | Quic string u16

datatype upstream_error =
    NoUpstreams | EmptyUpstream | InsecureHttp | BadUrl | BadEncrypted string | NoHostname | HostIsIp
  | BadDoh | BadDnsServer

record url_parts =
  url_scheme :: string
  url_username :: string
  url_password :: "string option"
  url_query :: "string option"
  url_fragment :: "string option"
  url_path :: string
  url_host_str :: "string option"
  url_port :: "u16 option"
  url_port_or_known_default :: "u16 option"

type_synonym url_parser = "string \<Rightarrow> url_parts option"

definition parse_encrypted_upstream ::
  "url_parser \<Rightarrow> string \<Rightarrow> string \<Rightarrow> (string \<Rightarrow> u16 \<Rightarrow> upstream_server) \<Rightarrow> upstream_error + upstream_server" where
  "parse_encrypted_upstream url_parse value expected build =
     (case url_parse value of
        None \<Rightarrow> Inl BadUrl
      | Some url \<Rightarrow>
          if url_scheme url \<noteq> expected \<or> url_username url \<noteq> [] \<or> url_password url \<noteq> None \<or>
             url_query url \<noteq> None \<or> url_fragment url \<noteq> None \<or> url_path url \<notin> {[], ''/''}
          then Inl (BadEncrypted expected)
          else (case Option.bind (url_host_str url) normalize_hostname of
              None \<Rightarrow> Inl NoHostname
            | Some hostname \<Rightarrow>
                if parse_ip hostname \<noteq> None then Inl HostIsIp
                else Inr (build hostname (case url_port url of None \<Rightarrow> 853 | Some p \<Rightarrow> p))))"

definition parse_doh_upstream :: "url_parser \<Rightarrow> string \<Rightarrow> upstream_error + upstream_server" where
  "parse_doh_upstream url_parse value =
     (case url_parse value of
        None \<Rightarrow> Inl BadUrl
      | Some url \<Rightarrow>
          if url_host_str url = None \<or> url_port_or_known_default url = None then Inl BadDoh
          else Inr (Doh value))"

definition parse_dns_upstream :: "string \<Rightarrow> upstream_error + upstream_server" where
  "parse_dns_upstream value =
     (let trimmed = trim value
      in if trimmed = [] then Inl EmptyUpstream
         else (case parse_socket trimmed of
             Some addr \<Rightarrow> Inr (Udp addr)
           | None \<Rightarrow>
               (case parse_ip trimmed of
                  Some ip \<Rightarrow> Inr (Udp (socket_new ip 53))
                | None \<Rightarrow>
                    (case split_host_port trimmed of
                       None \<Rightarrow> Inl BadDnsServer
                     | Some (h, port) \<Rightarrow>
                         (case normalize_hostname h of
                            None \<Rightarrow> Inl BadDnsServer
                          | Some host \<Rightarrow> Inr (UdpHostname host port))))))"

definition parse_upstream_server :: "url_parser \<Rightarrow> string \<Rightarrow> bool \<Rightarrow> upstream_error + upstream_server" where
  "parse_upstream_server url_parse value allow_http =
     (if starts_with ''tls://'' value then parse_encrypted_upstream url_parse value ''tls'' Tls
      else if starts_with ''quic://'' value then parse_encrypted_upstream url_parse value ''quic'' Quic
      else if starts_with ''https://'' value then parse_doh_upstream url_parse value
      else if starts_with ''http://'' value
      then (if allow_http then parse_doh_upstream url_parse value else Inl InsecureHttp)
      else parse_dns_upstream value)"

definition content_lines :: "string \<Rightarrow> string list" where
  "content_lines value = filter (\<lambda>l. \<not> skip_line l) (map trim (str_lines value))"

definition parse_optional_upstream_servers ::
  "url_parser \<Rightarrow> string \<Rightarrow> bool \<Rightarrow> upstream_error + upstream_server list" where
  "parse_optional_upstream_servers url_parse value allow_http =
     collect_results (map (\<lambda>l. parse_upstream_server url_parse l allow_http) (content_lines value))"

definition parse_upstream_servers ::
  "url_parser \<Rightarrow> string \<Rightarrow> bool \<Rightarrow> upstream_error + upstream_server list" where
  "parse_upstream_servers url_parse value allow_http =
     (case collect_results (map (\<lambda>l. parse_upstream_server url_parse l allow_http) (content_lines value)) of
        Inl e \<Rightarrow> Inl e
      | Inr servers \<Rightarrow> if servers = [] then Inl NoUpstreams else Inr servers)"

fun bootstrap_lines :: "(nat \<times> string) list \<Rightarrow> nat + socket_addr list" where
  "bootstrap_lines [] = Inr []"
| "bootstrap_lines ((i, line) # lines) =
     (let item = trim (case split_whitespace line of [] \<Rightarrow> [] | w # _ \<Rightarrow> w)
      in if skip_line item then bootstrap_lines lines
         else (case (case parse_socket item of
                       Some addr \<Rightarrow> Some addr
                     | None \<Rightarrow> map_option (\<lambda>ip. socket_new ip 53) (parse_ip item)) of
             None \<Rightarrow> Inl i
           | Some addr \<Rightarrow>
               (case bootstrap_lines lines of Inl e \<Rightarrow> Inl e | Inr addrs \<Rightarrow> Inr (addr # addrs))))"

definition parse_bootstrap_servers :: "string \<Rightarrow> nat + socket_addr list" where
  "parse_bootstrap_servers value = bootstrap_lines (enumerate 1 (str_lines value))"

section \<open>Routes\<close>

datatype route_error =
    RouteFormat nat | RouteDomain nat string | RouteNetwork nat string
  | RouteUpstream nat upstream_error | RouteEmpty nat

record domain_route_spec =
  dr_pattern :: string
  dr_include_subdomains :: bool
  dr_upstreams :: "upstream_server list"

record client_route_spec =
  cl_network :: string
  cl_upstreams :: "upstream_server list"

definition parse_route_line :: "nat \<times> string \<Rightarrow> (route_error + (nat \<times> string \<times> string)) option" where
  "parse_route_line il =
     (case il of (i, line) \<Rightarrow>
        let trimmed = trim line
        in if skip_line trimmed then None
           else (case split_once_str ''=>'' trimmed of
               None \<Rightarrow> Some (Inl (RouteFormat i))
             | Some (s, u) \<Rightarrow>
                 if trim s = [] \<or> trim u = [] then Some (Inl (RouteFormat i))
                 else Some (Inr (i, trim s, trim u))))"

definition parse_route_upstreams ::
  "url_parser \<Rightarrow> nat \<Rightarrow> string \<Rightarrow> bool \<Rightarrow> route_error + upstream_server list" where
  "parse_route_upstreams url_parse i value allow_http =
     (case collect_results (map (\<lambda>v. parse_upstream_server url_parse v allow_http)
             (filter (\<lambda>v. v \<noteq> []) (map trim (split_on (CHR '','') value)))) of
        Inl e \<Rightarrow> Inl (RouteUpstream i e)
      | Inr upstreams \<Rightarrow> if upstreams = [] then Inl (RouteEmpty i) else Inr upstreams)"

definition domain_route_spec_of ::
  "url_parser \<Rightarrow> bool \<Rightarrow> route_error + (nat \<times> string \<times> string) \<Rightarrow> route_error + domain_route_spec" where
  "domain_route_spec_of url_parse allow_http result =
     (case result of
        Inl e \<Rightarrow> Inl e
      | Inr (i, selector, upstreams) \<Rightarrow>
          (case (case strip_prefix ''*.'' selector of Some p \<Rightarrow> (p, True) | None \<Rightarrow> (selector, False)) of
             (p, sub) \<Rightarrow>
               (case normalize_hostname p of
                  None \<Rightarrow> Inl (RouteDomain i p)
                | Some pattern \<Rightarrow>
                    (case parse_route_upstreams url_parse i upstreams allow_http of
                       Inl e \<Rightarrow> Inl e
                     | Inr us \<Rightarrow> Inr \<lparr>dr_pattern = pattern, dr_include_subdomains = sub, dr_upstreams = us\<rparr>))))"

definition client_route_spec_of ::
  "url_parser \<Rightarrow> bool \<Rightarrow> route_error + (nat \<times> string \<times> string) \<Rightarrow> route_error + client_route_spec" where
  "client_route_spec_of url_parse allow_http result =
     (case result of
        Inl e \<Rightarrow> Inl e
      | Inr (i, network, upstreams) \<Rightarrow>
          if \<not> validate_ip_or_cidr network then Inl (RouteNetwork i network)
          else (case parse_route_upstreams url_parse i upstreams allow_http of
              Inl e \<Rightarrow> Inl e
            | Inr us \<Rightarrow> Inr \<lparr>cl_network = network, cl_upstreams = us\<rparr>))"

definition route_lines :: "string \<Rightarrow> (route_error + (nat \<times> string \<times> string)) list" where
  "route_lines value = List.map_filter parse_route_line (enumerate 1 (str_lines value))"

definition parse_domain_upstream_rules ::
  "url_parser \<Rightarrow> string \<Rightarrow> bool \<Rightarrow> route_error + domain_route_spec list" where
  "parse_domain_upstream_rules url_parse value allow_http =
     collect_results (map (domain_route_spec_of url_parse allow_http) (route_lines value))"

definition parse_client_upstream_rules ::
  "url_parser \<Rightarrow> string \<Rightarrow> bool \<Rightarrow> route_error + client_route_spec list" where
  "parse_client_upstream_rules url_parse value allow_http =
     collect_results (map (client_route_spec_of url_parse allow_http) (route_lines value))"

end
