(* ===== verification/NetShow.thy ===== *)
theory NetShow
  imports ConfigUpstream
begin

text \<open>
  How the standard library prints addresses: decimal and hexadecimal numbers, the dotted
  form of IPv4, and IPv6 with its longest run of two or more zero groups compressed.
\<close>

definition digit_char :: "nat \<Rightarrow> char" where
  "digit_char d = char_of (if d < 10 then 48 + d else 87 + d)"

fun show_dec :: "nat \<Rightarrow> string" where
  "show_dec n = (if n < 10 then [digit_char n] else show_dec (n div 10) @ [digit_char (n mod 10)])"

fun show_hex :: "nat \<Rightarrow> string" where
  "show_hex n = (if n < 16 then [digit_char n] else show_hex (n div 16) @ [digit_char (n mod 16)])"

declare show_dec.simps [simp del] show_hex.simps [simp del]

definition show_ipv4 :: "u32 \<Rightarrow> string" where
  "show_ipv4 ip = join ''.'' (map (\<lambda>b. show_dec (unat b)) (be32 ip))"

definition v6_segments :: "u128 \<Rightarrow> u16 list" where
  "v6_segments ip = map (\<lambda>i. ucast (drop_bit (16 * (7 - i)) ip)) [0..<8]"

definition to_ipv4_mapped :: "u128 \<Rightarrow> u32 option" where
  "to_ipv4_mapped ip = (if drop_bit 32 ip = 0xffff then Some (ucast ip) else None)"

text \<open>The longest run of zero groups as start and length; the arguments are the index, the
  current run and the longest so far.\<close>

fun zero_run :: "nat \<Rightarrow> nat \<times> nat \<Rightarrow> nat \<times> nat \<Rightarrow> u16 list \<Rightarrow> nat \<times> nat" where
  "zero_run i cur best [] = best"
| "zero_run i cur best (s # ss) =
     (if s = 0
      then (let cur' = (if snd cur = 0 then i else fst cur, snd cur + 1)
            in zero_run (i + 1) cur' (if snd best < snd cur' then cur' else best) ss)
      else zero_run (i + 1) (0, 0) best ss)"

definition show_groups :: "u16 list \<Rightarrow> string" where
  "show_groups gs = join '':'' (map (\<lambda>g. show_hex (unat g)) gs)"

definition show_ipv6 :: "u128 \<Rightarrow> string" where
  "show_ipv6 ip =
     (case to_ipv4_mapped ip of
        Some v4 \<Rightarrow> ''::ffff:'' @ show_ipv4 v4
      | None \<Rightarrow>
          (let gs = v6_segments ip;
               (start, len) = zero_run 0 (0, 0) (0, 0) gs
           in if 1 < len
              then show_groups (take start gs) @ ''::'' @ show_groups (drop (start + len) gs)
              else show_groups gs))"

fun show_ip :: "ip_addr \<Rightarrow> string" where
  "show_ip (IpV4 ip) = show_ipv4 ip"
| "show_ip (IpV6 ip) = show_ipv6 ip"

definition show_port :: "u16 \<Rightarrow> string" where
  "show_port p = '':'' @ show_dec (unat p)"

fun show_socket :: "socket_addr \<Rightarrow> string" where
  "show_socket (SocketV4 ip p) = show_ipv4 ip @ show_port p"
| "show_socket (SocketV6 ip p scope) =
     ''['' @ show_ipv6 ip @ (if scope = 0 then [] else ''%'' @ show_dec (unat scope)) @ '']'' @ show_port p"

end
