(* ===== verification/Bootstrap.thy ===== *)
theory Bootstrap
  imports DnsWire ConfigUpstream
begin

text \<open>
  \<open>config.rs\<close>: how the name of an upstream server is resolved by the bootstrap servers.  Two queries, for
  IPv4 and IPv6 addresses, are sent to a server; their answers are merged.  The exchange is the
  environment: \<open>ask server query\<close> is what came back, if anything.  The readers \<open>skip_dns_name\<close> and \<open>read_u16\<close>
  of \<open>config.rs\<close> are those of \<open>dns/protocol.rs\<close>.
\<close>

definition MAX_RESOLVED_UPSTREAM_ADDRESSES :: nat where "MAX_RESOLVED_UPSTREAM_ADDRESSES = 16"

datatype bootstrap_error =
    LabelTooLong | BadHostname | SocketFailed | ResponseInvalid | ServerRefused | QuestionMissing | QuestionMalformed
  | AnswerMalformed | NoAddresses | BootstrapTimeout | NoBootstrapServers | NotResolved

section \<open>The query\<close>

fun push_labels :: "string list \<Rightarrow> packet \<Rightarrow> bootstrap_error + packet" where
  "push_labels [] p = Inr p"
| "push_labels (l # ls) p =
     (if 255 < length l then Inl LabelTooLong
      else if l = [] \<or> 63 < length l then Inl BadHostname
      else push_labels ls (p @ of_nat (length l) # str_bytes l))"

text \<open>The identifier is the next of a counter of the process, which wraps.\<close>

definition build_dns_query :: "u16 \<Rightarrow> string \<Rightarrow> u16 \<Rightarrow> u16 \<times> (bootstrap_error + packet)" where
  "build_dns_query query_id host rtype =
     (query_id + 1,
      case push_labels (split_on (CHR ''.'') (trim_end_matches (CHR ''.'') host))
             (be16 query_id @ [0x01, 0x00, 0x00, 0x01, 0, 0, 0, 0, 0, 0]) of
        Inl e \<Rightarrow> Inl e
      | Inr p \<Rightarrow> Inr (p @ [0] @ be16 rtype @ be16 1))"

section \<open>The answer\<close>

fun skip_bootstrap_questions :: "nat \<Rightarrow> packet \<Rightarrow> nat \<Rightarrow> bootstrap_error + nat" where
  "skip_bootstrap_questions 0 p off = Inr off"
| "skip_bootstrap_questions (Suc n) p off =
     (case skip_dns_name p off of
        None \<Rightarrow> Inl QuestionMalformed
      | Some off1 \<Rightarrow> if length p < off1 + 4 then Inl QuestionMalformed else skip_bootstrap_questions n p (off1 + 4))"

definition read_u16_or_0 :: "packet \<Rightarrow> nat \<Rightarrow> u16" where
  "read_u16_or_0 p off = (case read_u16 p off of None \<Rightarrow> 0 | Some v \<Rightarrow> v)"

definition answer_ip :: "packet \<Rightarrow> u16 \<Rightarrow> nat \<Rightarrow> nat \<Rightarrow> ip_addr list" where
  "answer_ip p rtype doff dlen =
     (if rtype = TYPE_A \<and> dlen = 4 then [IpV4 (from_be (slice p doff (doff + 4)))]
      else if rtype = TYPE_AAAA \<and> dlen = 16 then [IpV6 (from_be (slice p doff (doff + 16)))]
      else [])"

fun read_answers :: "nat \<Rightarrow> packet \<Rightarrow> u16 \<Rightarrow> nat \<Rightarrow> ip_addr list \<Rightarrow> bootstrap_error + ip_addr list" where
  "read_answers 0 p rtype off ips = Inr ips"
| "read_answers (Suc n) p rtype off ips =
     (case skip_dns_name p off of
        None \<Rightarrow> Inl AnswerMalformed
      | Some h \<Rightarrow>
          if length p < h + 10 then Inl AnswerMalformed
          else (let dlen = unat (read_u16_or_0 p (h + 8)); doff = h + 10; dend = doff + dlen
                in if length p < dend then Inl AnswerMalformed
                   else read_answers n p rtype dend
                          (if read_u16_or_0 p (h + 2) = 1 \<and> read_u16_or_0 p h = rtype
                           then ips @ answer_ip p rtype doff dlen else ips)))"

definition parse_bootstrap_ip_response :: "packet \<Rightarrow> packet \<Rightarrow> u16 \<Rightarrow> bootstrap_error + ip_addr list" where
  "parse_bootstrap_ip_response response query rtype =
     (if length response < 12 \<or> length query < 2 \<or> take 2 response \<noteq> take 2 query then Inl ResponseInvalid
      else if (response ! 3) AND 0x0f \<noteq> 0 then Inl ServerRefused
      else (case (read_u16 response 4, read_u16 response 6) of
          (Some qs, Some ans) \<Rightarrow>
            (case skip_bootstrap_questions (unat qs) response 12 of
               Inl e \<Rightarrow> Inl e
             | Inr off \<Rightarrow>
                 (case read_answers (unat ans) response rtype off [] of
                    Inl e \<Rightarrow> Inl e
                  | Inr ips \<Rightarrow> if ips = [] then Inl NoAddresses else Inr ips))
        | _ \<Rightarrow> Inl QuestionMissing))"

section \<open>Resolving a name\<close>

type_synonym bootstrap_env = "socket_addr \<Rightarrow> packet \<Rightarrow> packet option"

text \<open>At most 4096 bytes of a response are read.\<close>

definition query_bootstrap_records ::
  "bootstrap_env \<Rightarrow> u16 \<Rightarrow> string \<Rightarrow> socket_addr \<Rightarrow> u16 \<Rightarrow> u16 \<times> (bootstrap_error + ip_addr list)" where
  "query_bootstrap_records ask query_id host server rtype =
     (case build_dns_query query_id host rtype of
        (next_id, Inl e) \<Rightarrow> (next_id, Inl e)
      | (next_id, Inr query) \<Rightarrow>
          (next_id, case ask server query of
             None \<Rightarrow> Inl SocketFailed
           | Some response \<Rightarrow> parse_bootstrap_ip_response (take 4096 response) query rtype))"

fun push_unseen :: "'a list \<Rightarrow> 'a list \<Rightarrow> 'a list" where
  "push_unseen addrs [] = addrs"
| "push_unseen addrs (a # as) = push_unseen (if a \<in> set addrs then addrs else addrs @ [a]) as"

definition ok_or_empty :: "'e + 'a list \<Rightarrow> 'a list" where
  "ok_or_empty r = (case r of Inl _ \<Rightarrow> [] | Inr xs \<Rightarrow> xs)"

text \<open>The two queries run in threads of their own; which of them takes the first identifier is left to
  the argument \<open>swap\<close>.\<close>

definition resolve_hostname_with_bootstrap ::
  "bootstrap_env \<Rightarrow> bool \<Rightarrow> u16 \<Rightarrow> string \<Rightarrow> u16 \<Rightarrow> socket_addr \<Rightarrow> u16 \<times> (bootstrap_error + socket_addr list)" where
  "resolve_hostname_with_bootstrap ask swap query_id host port server =
     (let ipv4 = snd (query_bootstrap_records ask (if swap then query_id + 1 else query_id) host server TYPE_A);
          ipv6 = snd (query_bootstrap_records ask (if swap then query_id else query_id + 1) host server TYPE_AAAA);
          ordered = (if socket_is_ipv4 server then ok_or_empty ipv4 @ ok_or_empty ipv6 else ok_or_empty ipv6 @ ok_or_empty ipv4);
          addrs = push_unseen [] (map (\<lambda>ip. socket_new ip port) ordered)
      in (query_id + 2, if addrs = [] then Inl NoAddresses else Inr (take MAX_RESOLVED_UPSTREAM_ADDRESSES addrs)))"

fun try_bootstrap_servers ::
  "bootstrap_env \<Rightarrow> (nat \<Rightarrow> bool) \<Rightarrow> u16 \<Rightarrow> string \<Rightarrow> u16 \<Rightarrow> socket_addr list \<Rightarrow> (u16 \<times> socket_addr list) option" where
  "try_bootstrap_servers ask swap query_id host port [] = None"
| "try_bootstrap_servers ask swap query_id host port (server # servers) =
     (case resolve_hostname_with_bootstrap ask (swap (length servers)) query_id host port server of
        (next_id, Inr addrs) \<Rightarrow>
          if addrs \<noteq> [] then Some (next_id, addrs) else try_bootstrap_servers ask swap next_id host port servers
      | (next_id, Inl _) \<Rightarrow> try_bootstrap_servers ask swap next_id host port servers)"

text \<open>\<open>system\<close>: what the resolver of the system returns.\<close>

definition resolve_hostname_socket_addrs ::
  "bootstrap_env \<Rightarrow> (nat \<Rightarrow> bool) \<Rightarrow> socket_addr list option \<Rightarrow> u16 \<Rightarrow> string \<Rightarrow> u16 \<Rightarrow> socket_addr list \<Rightarrow>
    bootstrap_error + socket_addr list" where
  "resolve_hostname_socket_addrs ask swap system query_id host port servers =
     (case try_bootstrap_servers ask swap query_id host port servers of
        Some (_, addrs) \<Rightarrow> Inr addrs
      | None \<Rightarrow>
          (case system of
             None \<Rightarrow> Inl NotResolved
           | Some found \<Rightarrow>
               (let addrs = take MAX_RESOLVED_UPSTREAM_ADDRESSES (push_unseen [] found)
                in if addrs = [] then Inl NotResolved else Inr addrs)))"

text \<open>While queries are forwarded only the bootstrap servers are asked, each with what is left of the
  time; \<open>time_left k\<close>: is any left before the k-th from the end.\<close>

fun try_bootstrap_servers_until ::
  "bootstrap_env \<Rightarrow> (nat \<Rightarrow> bool) \<Rightarrow> (nat \<Rightarrow> bool) \<Rightarrow> u16 \<Rightarrow> string \<Rightarrow> u16 \<Rightarrow> socket_addr list \<Rightarrow>
    bootstrap_error + socket_addr list" where
  "try_bootstrap_servers_until ask swap time_left query_id host port [] = Inl NotResolved"
| "try_bootstrap_servers_until ask swap time_left query_id host port (server # servers) =
     (if \<not> time_left (length servers) then Inl BootstrapTimeout
      else (case resolve_hostname_with_bootstrap ask (swap (length servers)) query_id host port server of
          (next_id, Inr addrs) \<Rightarrow>
            if addrs \<noteq> [] then Inr addrs else try_bootstrap_servers_until ask swap time_left next_id host port servers
        | (next_id, Inl _) \<Rightarrow> try_bootstrap_servers_until ask swap time_left next_id host port servers))"

definition resolve_hostname_socket_addrs_until ::
  "bootstrap_env \<Rightarrow> (nat \<Rightarrow> bool) \<Rightarrow> (nat \<Rightarrow> bool) \<Rightarrow> u16 \<Rightarrow> string \<Rightarrow> u16 \<Rightarrow> socket_addr list \<Rightarrow>
    bootstrap_error + socket_addr list" where
  "resolve_hostname_socket_addrs_until ask swap time_left query_id host port servers =
     (if servers = [] then Inl NoBootstrapServers
      else try_bootstrap_servers_until ask swap time_left query_id host port servers)"

section \<open>What is asked and what is found\<close>

lemma push_labels_encode: "push_labels ls p = Inr r \<Longrightarrow> \<exists>e. encode_labels ls = Some e \<and> r = p @ e"
proof (induction ls arbitrary: p)
  case (Cons a ls)
  then have "push_labels ls (p @ of_nat (length a) # str_bytes a) = Inr r" "a \<noteq> []" "\<not> 63 < length a"
    by (simp_all split: if_splits)
  then show ?case using Cons.IH by fastforce
qed simp

text \<open>A query is well formed and asks for the name it was built for.\<close>

lemma bootstrap_query_asks:
  assumes "build_dns_query query_id host rtype = (next_id, Inr q)" and "ascii_str host"
    and "length (trim_end_matches (CHR ''.'') host) \<le> 253"
  shows "parse_question q =
      Inr \<lparr>domain = to_lower (trim_end_matches (CHR ''.'') host), qtype = rtype, qclass = 1, question_end = length q\<rparr>"
    and "take 2 q = be16 query_id"
proof -
  let ?t = "trim_end_matches (CHR ''.'') host"
  let ?hdr = "be16 query_id @ [0x01, 0x00, 0x00, 0x01, 0, 0, 0, 0, 0, 0]"
  obtain r where r: "push_labels (split_on (CHR ''.'') ?t) ?hdr = Inr r" and q: "q = r @ [0] @ be16 rtype @ be16 1"
    using assms(1) by (auto simp: build_dns_query_def split: sum.splits)
  obtain e where e: "encode_labels (split_on (CHR ''.'') ?t) = Some e" "r = ?hdr @ e"
    using push_labels_encode[OF r] by blast
  have ne: "?t \<noteq> []" using e(1) by (auto split: if_splits)
  then have "host \<noteq> ''.''" by (auto simp: trim_end_matches_def)
  then have enc: "encode_dns_name host = Some (e @ [0])"
    using e(1) ne assms(3) by (simp add: encode_dns_name_def Let_def)
  have four: "read_u16 ?hdr 4 = Some 1" by (simp add: read_u16_def be16_def get_at_def from_be_def)
  have "parse_question (?hdr @ (e @ [0]) @ be16 rtype @ be16 1 @ []) =
      Inr \<lparr>domain = to_lower ?t, qtype = rtype, qclass = 1, question_end = 16 + length (e @ [0])\<rparr>"
    using enc assms(2) four by (intro parse_question_encoded) simp_all
  then show "parse_question q = Inr \<lparr>domain = to_lower ?t, qtype = rtype, qclass = 1, question_end = length q\<rparr>"
    using e(2) by (simp add: q)
  show "take 2 q = be16 query_id" by (simp add: q e(2))
qed

lemma push_unseen_spec:
  "distinct addrs \<Longrightarrow> distinct (push_unseen addrs xs) \<and> set (push_unseen addrs xs) = set addrs \<union> set xs"
  by (induction addrs xs rule: push_unseen.induct) auto

fun socket_port :: "socket_addr \<Rightarrow> u16" where
  "socket_port (SocketV4 _ p) = p"
| "socket_port (SocketV6 _ p _) = p"

definition usable_addresses :: "u16 \<Rightarrow> socket_addr list \<Rightarrow> bool" where
  "usable_addresses port addrs =
     (addrs \<noteq> [] \<and> distinct addrs \<and> length addrs \<le> MAX_RESOLVED_UPSTREAM_ADDRESSES \<and> (\<forall>a\<in>set addrs. socket_port a = port))"

lemma socket_port_new [simp]: "socket_port (socket_new ip port) = port"
  by (cases ip) simp_all

lemma usable_take:
  assumes "addrs \<noteq> []" and "distinct addrs" and "\<forall>a\<in>set addrs. socket_port a = port"
  shows "usable_addresses port (take MAX_RESOLVED_UPSTREAM_ADDRESSES addrs)"
  using assms set_take_subset[of MAX_RESOLVED_UPSTREAM_ADDRESSES addrs]
  by (auto simp: usable_addresses_def MAX_RESOLVED_UPSTREAM_ADDRESSES_def)

lemma bootstrap_usable:
  assumes "resolve_hostname_with_bootstrap ask swap query_id host port server = (next_id, Inr addrs)"
  shows "usable_addresses port addrs"
  using assms push_unseen_spec[of "[]"]
  by (auto simp: resolve_hostname_with_bootstrap_def Let_def split: if_splits intro!: usable_take)

lemma try_bootstrap_usable:
  "try_bootstrap_servers ask swap query_id host port servers = Some (n, addrs) \<Longrightarrow> usable_addresses port addrs"
  by (induction servers arbitrary: query_id) (auto split: prod.splits sum.splits if_splits dest: bootstrap_usable)

lemma resolved_usable:
  assumes "resolve_hostname_socket_addrs ask swap system query_id host port servers = Inr addrs"
    and "\<And>found. system = Some found \<Longrightarrow> \<forall>a\<in>set found. socket_port a = port"
  shows "usable_addresses port addrs"
  using assms push_unseen_spec[of "[]"]
  by (auto simp: resolve_hostname_socket_addrs_def Let_def split: option.splits if_splits prod.splits
      dest: try_bootstrap_usable intro!: usable_take)

lemma resolved_until_usable:
  "resolve_hostname_socket_addrs_until ask swap time_left query_id host port servers = Inr addrs \<Longrightarrow>
    usable_addresses port addrs"
proof -
  have "try_bootstrap_servers_until ask swap time_left query_id host port servers = Inr addrs \<Longrightarrow>
      usable_addresses port addrs"
    by (induction servers arbitrary: query_id) (auto split: prod.splits sum.splits if_splits dest: bootstrap_usable)
  then show "resolve_hostname_socket_addrs_until ask swap time_left query_id host port servers = Inr addrs \<Longrightarrow>
      usable_addresses port addrs"
    by (simp add: resolve_hostname_socket_addrs_until_def split: if_splits)
qed

end
