(* ===== verification/Upstream.thy ===== *)
theory Upstream
  imports NetShow DnsReply Bootstrap
begin

text \<open>
  \<open>dns/upstream.rs\<close>: the health of upstream servers and the load-balanced forwarding.
  A server that failed is avoided for a while; when all are, one probe for all servers
  together is let through per interval.  The exchange itself (sockets, TLS, HTTP,
  name resolution) is the environment: for each attempt of a query it says whether the
  deadline has passed, what came back, and the second at which that was.
  A \<open>RuntimeUpstream\<close> shares its atomic fields between clones; here the servers of
  a query are indices into the pool, and the pool is the shared state.
\<close>

section \<open>Servers\<close>

definition UPSTREAM_FAILURE_BACKOFF_SECONDS :: u64 where "UPSTREAM_FAILURE_BACKOFF_SECONDS = 30"
definition UPSTREAM_HALF_OPEN_PROBE_INTERVAL_SECONDS :: u64 where
  "UPSTREAM_HALF_OPEN_PROBE_INTERVAL_SECONDS = 5"
definition MAX_PARALLEL_UPSTREAMS_PER_QUERY :: nat where "MAX_PARALLEL_UPSTREAMS_PER_QUERY = 8"

record runtime_upstream =
  ru_server :: upstream_server
  ru_label :: string
  ru_unhealthy_until :: u64
  ru_dnssec_enabled :: bool

definition normalize_doh_upstream_label :: "string \<Rightarrow> string" where
  "normalize_doh_upstream_label url =
     (case split_once_str ''://'' url of
        None \<Rightarrow> url
      | Some (scheme, rest) \<Rightarrow>
          (case (if scheme = ''https'' then Some ''443'' else if scheme = ''http'' then Some ''80'' else None) of
             None \<Rightarrow> url
           | Some port \<Rightarrow>
               (let authority = takeWhile (\<lambda>c. c \<noteq> CHR ''/'') rest
                in if CHR '':'' \<in> set authority then url
                   else scheme @ ''://'' @ authority @ '':'' @ port @ drop (length authority) rest)))"

fun format_upstream_server :: "upstream_server \<Rightarrow> string" where
  "format_upstream_server (Udp addr) = show_socket addr"
| "format_upstream_server (UdpHostname hostname port) = hostname @ show_port port"
| "format_upstream_server (Doh url) = normalize_doh_upstream_label url"
| "format_upstream_server (Tls hostname port) = ''tls://'' @ hostname @ show_port port"
| "format_upstream_server (Quic hostname port) = ''quic://'' @ hostname @ show_port port"

definition new_upstream :: "bool \<Rightarrow> upstream_server \<Rightarrow> runtime_upstream" where
  "new_upstream dnssec server =
     \<lparr>ru_server = server, ru_label = format_upstream_server server, ru_unhealthy_until = 0,
      ru_dnssec_enabled = dnssec\<rparr>"

definition build_runtime_upstreams_with_dnssec :: "upstream_server list \<Rightarrow> bool \<Rightarrow> runtime_upstream list" where
  "build_runtime_upstreams_with_dnssec servers dnssec = map (new_upstream dnssec) servers"

definition is_upstream_temporarily_unhealthy :: "runtime_upstream \<Rightarrow> u64 \<Rightarrow> bool" where
  "is_upstream_temporarily_unhealthy u now = (now < ru_unhealthy_until u)"

definition mark_upstream_unhealthy :: "runtime_upstream \<Rightarrow> u64 \<Rightarrow> runtime_upstream" where
  "mark_upstream_unhealthy u now =
     u\<lparr>ru_unhealthy_until := sat_add now UPSTREAM_FAILURE_BACKOFF_SECONDS\<rparr>"

section \<open>The shared probe\<close>

record probe_state =
  hp_after :: u64
  hp_cursor :: u64

definition try_claim_half_open_probe :: "probe_state \<Rightarrow> u64 \<Rightarrow> probe_state \<times> bool" where
  "try_claim_half_open_probe p now =
     (if now < hp_after p then (p, False)
      else (p\<lparr>hp_after := sat_add now UPSTREAM_HALF_OPEN_PROBE_INTERVAL_SECONDS\<rparr>, True))"

definition reset_half_open_probe :: "probe_state \<Rightarrow> probe_state" where
  "reset_half_open_probe p = p\<lparr>hp_after := 0\<rparr>"

text \<open>The indices of the servers to ask, in order.\<close>

definition select_available_upstreams ::
  "runtime_upstream list \<Rightarrow> probe_state \<Rightarrow> u64 \<Rightarrow> nat \<Rightarrow> nat \<Rightarrow> probe_state \<times> nat list" where
  "select_available_upstreams servers p now start limit =
     (let n = length servers
      in if n = 0 then (p, [])
         else (let healthy = take limit
                     (filter (\<lambda>i. \<not> is_upstream_temporarily_unhealthy (servers ! i) now)
                       (map (\<lambda>offset. (start + offset) mod n) [0..<n]))
               in if healthy \<noteq> [] then (p, healthy)
                  else (case try_claim_half_open_probe p now of
                      (p', False) \<Rightarrow> (p', [])
                    | (p', True) \<Rightarrow>
                        (p'\<lparr>hp_cursor := hp_cursor p' + 1\<rparr>, [unat (hp_cursor p') mod n]))))"

definition select_parallel_upstreams ::
  "runtime_upstream list \<Rightarrow> probe_state \<Rightarrow> u64 \<Rightarrow> nat \<Rightarrow> probe_state \<times> nat list" where
  "select_parallel_upstreams servers p now start =
     select_available_upstreams servers p now start MAX_PARALLEL_UPSTREAMS_PER_QUERY"

section \<open>One exchange\<close>

record upstream_traffic =
  ut_sent :: u64
  ut_received :: u64

text \<open>What can go wrong between a query and its response; \<open>SlicePanic\<close> stands for a panic.\<close>

datatype wire_error =
    OutOfTotalTime | RetryLater | NoAddress | ResolveFailed bootstrap_error | AtAddress socket_addr wire_error
  | BindFailed | ConnectFailed | SendFailed | SetTimeoutFailed | ReadTimedOut | ReadFailed | SlicePanic
  | TcpQueryTooLong | TcpConnectFailed | TcpWriteFailed | TcpReadFailed | TcpEmptyResponse
  | DohBadUrl | DohNoHost | DohNoPort | DohInsecure | DohRequestFailed | DohStatus nat | DohContentType string
  | DohTooLong | DohReadFailed
  | HickoryQueryTooShort | HickoryQueryInvalid | HickoryRuntimeFailed | HickoryConnectFailed | HickoryFailed

record attempt =
  at_deadline_passed :: bool
  at_no_time_left :: bool
  at_result :: "wire_error + packet"
  at_second :: u64
  at_duration_ms :: u64

datatype forward_error =
    NoServer | AllUnavailable | OutOfTime | InvalidResponse string dns_error | DnssecFailed string
  | TransportFailed wire_error

record forward_response =
  fw_response :: packet
  fw_upstream :: string
  fw_duration_ms :: u64

record forward_state =
  fo_servers :: "runtime_upstream list"
  fo_probe :: probe_state
  fo_traffic :: upstream_traffic

definition set_server :: "forward_state \<Rightarrow> nat \<Rightarrow> (runtime_upstream \<Rightarrow> runtime_upstream) \<Rightarrow> forward_state" where
  "set_server s i f = s\<lparr>fo_servers := (fo_servers s)[i := f (fo_servers s ! i)]\<rparr>"

definition record_sent :: "forward_state \<Rightarrow> nat \<Rightarrow> forward_state" where
  "record_sent s bytes = s\<lparr>fo_traffic := (fo_traffic s)\<lparr>ut_sent := ut_sent (fo_traffic s) + of_nat bytes\<rparr>\<rparr>"

definition record_received :: "forward_state \<Rightarrow> nat \<Rightarrow> forward_state" where
  "record_received s bytes =
     s\<lparr>fo_traffic := (fo_traffic s)\<lparr>ut_received := ut_received (fo_traffic s) + of_nat bytes\<rparr>\<rparr>"

definition mark_upstream_available :: "forward_state \<Rightarrow> nat \<Rightarrow> forward_state" where
  "mark_upstream_available s i =
     (let s' = set_server s i (\<lambda>u. u\<lparr>ru_unhealthy_until := 0\<rparr>)
      in s'\<lparr>fo_probe := reset_half_open_probe (fo_probe s')\<rparr>)"

definition response_is_servfail :: "packet \<Rightarrow> bool" where
  "response_is_servfail r = (case get_at r 3 of None \<Rightarrow> False | Some flags \<Rightarrow> and flags 0x0f = 2)"

definition forward_to_upstream ::
  "packet \<Rightarrow> forward_state \<Rightarrow> nat \<Rightarrow> attempt \<Rightarrow> forward_state \<times> (forward_error + forward_response)" where
  "forward_to_upstream query s0 i a =
     (if at_no_time_left a then (s0, Inl OutOfTime)
      else (let s = record_sent s0 (length query); u = fo_servers s ! i
            in case at_result a of
                Inl e \<Rightarrow> (set_server s i (\<lambda>u. mark_upstream_unhealthy u (at_second a)), Inl (TransportFailed e))
              | Inr response \<Rightarrow>
                  (let s1 = record_received s (length response)
                   in case validate_response_for_query query response of
                       Inl e \<Rightarrow> (set_server s1 i (\<lambda>u. mark_upstream_unhealthy u (at_second a)),
                                 Inl (InvalidResponse (ru_label u) e))
                     | Inr _ \<Rightarrow>
                         if ru_dnssec_enabled u \<and> response_is_servfail response
                         then (set_server s1 i (\<lambda>u. mark_upstream_unhealthy u (at_second a)),
                               Inl (DnssecFailed (ru_label u)))
                         else (mark_upstream_available s1 i,
                               Inr \<lparr>fw_response = response, fw_upstream = ru_label u,
                                    fw_duration_ms = at_duration_ms a\<rparr>))))"

section \<open>Load balancing\<close>

text \<open>The attempts of one query are numbered; \<open>env k i\<close> is what happens in the k-th when it goes
  to the server \<open>i\<close>.\<close>

fun try_servers ::
  "packet \<Rightarrow> (nat \<Rightarrow> nat \<Rightarrow> attempt) \<Rightarrow> nat \<Rightarrow> forward_state \<Rightarrow> nat list \<Rightarrow> forward_error option \<Rightarrow>
    forward_state \<times> (forward_error + forward_response)" where
  "try_servers query env k s [] err = (s, Inl (case err of None \<Rightarrow> AllUnavailable | Some e \<Rightarrow> e))"
| "try_servers query env k s (i # is) err =
     (if at_deadline_passed (env k i)
      then (s, Inl (case err of None \<Rightarrow> AllUnavailable | Some e \<Rightarrow> e))
      else (case forward_to_upstream query s i (env k i) of
          (s', Inr response) \<Rightarrow> (s', Inr response)
        | (s', Inl e) \<Rightarrow> try_servers query env (k + 1) s' is (Some e)))"

definition forward_load_balanced ::
  "packet \<Rightarrow> forward_state \<Rightarrow> u64 \<Rightarrow> u64 \<Rightarrow> (nat \<Rightarrow> nat \<Rightarrow> attempt) \<Rightarrow>
    forward_state \<times> u64 \<times> (forward_error + forward_response)" where
  "forward_load_balanced query s next now env =
     (let n = length (fo_servers s)
      in if n = 0 then (s, next, Inl NoServer)
         else (case select_available_upstreams (fo_servers s) (fo_probe s) now (unat next mod n) (2 ^ 64 - 1) of
             (p, is) \<Rightarrow>
               (case try_servers query env 0 (s\<lparr>fo_probe := p\<rparr>) is None of
                  (s', r) \<Rightarrow> (s', next + 1, r))))"

end
