(* ===== verification/UpstreamSpec.thy ===== *)
theory UpstreamSpec
  imports Upstream
begin

text \<open>What load-balanced forwarding promises: which servers a selection may name, that a returned
  response is valid for its query, that a server that answers is reached, and how often a pool is
  probed while every server is avoided.\<close>

section \<open>Selection\<close>

definition healthy :: "runtime_upstream list \<Rightarrow> u64 \<Rightarrow> nat \<Rightarrow> bool" where
  "healthy servers now i = (i < length servers \<and> \<not> is_upstream_temporarily_unhealthy (servers ! i) now)"

lemma rotation_set: "(n :: nat) > 0 \<Longrightarrow> set (map (\<lambda>offset. (start + offset) mod n) [0..<n]) = {..<n}"
proof -
  assume n: "n > 0"
  have "i \<in> (\<lambda>offset. (start + offset) mod n) ` {0..<n}" if "i < n" for i
  proof -
    let ?o = "(i + (n - start mod n)) mod n"
    have "(start + ?o) mod n = (start mod n + (i + (n - start mod n))) mod n"
      by (metis mod_add_left_eq mod_add_right_eq)
    also have "start mod n + (i + (n - start mod n)) = i + n"
      using mod_less_divisor[OF n, of start] by linarith
    also have "(i + n) mod n = i" using that by simp
    finally have "(start + ?o) mod n = i" .
    then show ?thesis using n by (intro image_eqI[of _ _ ?o]) simp_all
  qed
  then show ?thesis using n by auto
qed

lemma select_spec:
  assumes "select_available_upstreams servers p now start limit = (p', idxs)"
  shows "set idxs \<subseteq> {..<length servers} \<and>
    (\<forall>i\<in>set idxs. \<not> healthy servers now i \<longrightarrow> (\<nexists>j. healthy servers now j) \<or> limit = 0) \<and>
    (length servers \<le> limit \<longrightarrow> (\<forall>i. healthy servers now i \<longrightarrow> i \<in> set idxs))"
proof (cases "length servers = 0")
  case True
  then show ?thesis using assms by (simp add: select_available_upstreams_def healthy_def)
next
  case False
  let ?n = "length servers"
  let ?rot = "map (\<lambda>offset. (start + offset) mod ?n) [0..<?n]"
  let ?all = "filter (\<lambda>i. \<not> is_upstream_temporarily_unhealthy (servers ! i) now) ?rot"
  have set_all: "set ?all = {i. healthy servers now i}"
    using rotation_set[of ?n start] False by (auto simp: healthy_def)
  have len: "length ?all \<le> ?n" by (metis length_filter_le length_map length_upt minus_nat.diff_0)
  show ?thesis
  proof (cases "take limit ?all = []")
    case ne: False
    then have idxs: "idxs = take limit ?all" using assms False by (simp add: select_available_upstreams_def Let_def)
    then have "set idxs \<subseteq> {i. healthy servers now i}" using set_all set_take_subset by metis
    moreover have "?n \<le> limit \<Longrightarrow> idxs = ?all" using idxs len by simp
    ultimately show ?thesis using set_all by (auto simp: healthy_def)
  next
    case empty: True
    then have "?all = [] \<or> limit = 0" by auto
    then have none: "(\<nexists>j. healthy servers now j) \<or> limit = 0" using set_all by (metis empty_iff list.set(1) mem_Collect_eq)
    have "idxs = [] \<or> (\<exists>c. idxs = [unat (c :: u64) mod ?n])"
      using assms False empty
      by (auto simp: select_available_upstreams_def Let_def split: prod.splits bool.splits)
    then have "set idxs \<subseteq> {..<?n}" using False by auto
    then show ?thesis using none by (auto simp: healthy_def)
  qed
qed

section \<open>Forwarding\<close>

definition good_attempt :: "packet \<Rightarrow> runtime_upstream \<Rightarrow> attempt \<Rightarrow> bool" where
  "good_attempt query u a =
     (\<not> at_no_time_left a \<and>
      (case at_result a of
         Inl _ \<Rightarrow> False
       | Inr r \<Rightarrow> validate_response_for_query query r = Inr () \<and>
                  \<not> (ru_dnssec_enabled u \<and> response_is_servfail r)))"

lemma forward_result:
  assumes "forward_to_upstream query s i a = (s', r)"
  shows "(good_attempt query (fo_servers s ! i) a \<longleftrightarrow> (\<exists>resp. r = Inr resp)) \<and>
    (\<forall>resp. r = Inr resp \<longrightarrow> validate_response_for_query query (fw_response resp) = Inr () \<and>
       \<not> (ru_dnssec_enabled (fo_servers s ! i) \<and> response_is_servfail (fw_response resp)) \<and>
       fw_upstream resp = ru_label (fo_servers s ! i)) \<and>
    length (fo_servers s') = length (fo_servers s) \<and>
    map ru_dnssec_enabled (fo_servers s') = map ru_dnssec_enabled (fo_servers s) \<and>
    map ru_label (fo_servers s') = map ru_label (fo_servers s)"
proof -
  have upd: "map f (xs[i := g (xs ! i)]) = map f xs" if "\<And>x. f (g x) = f x" for f :: "runtime_upstream \<Rightarrow> 'b" and g xs
    using that by (cases "i < length xs") (auto intro!: nth_equalityI simp: nth_list_update)
  show ?thesis
    using assms
    by (auto simp: forward_to_upstream_def good_attempt_def record_sent_def record_received_def
        set_server_def mark_upstream_available_def mark_upstream_unhealthy_def Let_def upd
        split: if_splits sum.splits)
qed

lemma same_server:
  assumes "forward_to_upstream query s i a = (s', r)" and "j < length (fo_servers s)"
  shows "ru_label (fo_servers s' ! j) = ru_label (fo_servers s ! j)"
    and "ru_dnssec_enabled (fo_servers s' ! j) = ru_dnssec_enabled (fo_servers s ! j)"
  using forward_result[OF assms(1)] assms(2) by (metis nth_map)+

definition answered_by :: "packet \<Rightarrow> runtime_upstream \<Rightarrow> forward_response \<Rightarrow> bool" where
  "answered_by query u resp =
     (validate_response_for_query query (fw_response resp) = Inr () \<and>
      \<not> (ru_dnssec_enabled u \<and> response_is_servfail (fw_response resp)) \<and>
      fw_upstream resp = ru_label u)"

lemma try_servers_valid:
  assumes "try_servers query env k s idxs err = (s', Inr resp)" and "set idxs \<subseteq> {..<length (fo_servers s)}"
  shows "\<exists>i\<in>set idxs. answered_by query (fo_servers s ! i) resp"
  using assms
proof (induction idxs arbitrary: k s err)
  case (Cons i idxs)
  obtain s1 r where f: "forward_to_upstream query s i (env k i) = (s1, r)"
    by (cases "forward_to_upstream query s i (env k i)")
  note fr = forward_result[OF f]
  have dl: "\<not> at_deadline_passed (env k i)" using Cons.prems(1) by (auto split: if_splits)
  show ?case
  proof (cases r)
    case (Inr x)
    then have "resp = x" using Cons.prems(1) f dl by simp
    then show ?thesis using fr Inr by (simp add: answered_by_def)
  next
    case (Inl e)
    have "\<exists>j\<in>set idxs. answered_by query (fo_servers s1 ! j) resp"
      using Cons.prems f Inl dl fr by (intro Cons.IH[of "k + 1" s1 "Some e"]) simp_all
    then obtain j where j: "j \<in> set idxs" "answered_by query (fo_servers s1 ! j) resp" by blast
    then have "j < length (fo_servers s)" using Cons.prems(2) by auto
    then show ?thesis using j same_server[OF f] by (auto simp: answered_by_def)
  qed
qed simp

lemma try_servers_answers:
  assumes "j \<in> set idxs" and "\<forall>i\<in>set idxs. i < length (fo_servers s)"
    and "\<And>k. good_attempt query ((fo_servers s) ! j) (env k j)"
    and "\<And>k i. \<not> at_deadline_passed (env k i)"
  shows "\<exists>s' resp. try_servers query env k s idxs err = (s', Inr resp)"
  using assms(1-3)
proof (induction idxs arbitrary: k s err)
  case (Cons i idxs)
  obtain s1 r where f: "forward_to_upstream query s i (env k i) = (s1, r)"
    by (cases "forward_to_upstream query s i (env k i)")
  note fr = forward_result[OF f]
  show ?case
  proof (cases r)
    case (Inr x)
    then show ?thesis using f assms(4) by simp
  next
    case (Inl e)
    then have "j \<noteq> i" using fr Cons.prems(3) by auto
    then have "j \<in> set idxs" using Cons.prems(1) by simp
    moreover have jl: "j < length (fo_servers s)" using Cons.prems(1,2) by auto
    moreover have "ru_dnssec_enabled (fo_servers s1 ! j) = ru_dnssec_enabled (fo_servers s ! j)"
      using same_server(2)[OF f jl] .
    then have "good_attempt query (fo_servers s1 ! j) (env k j)" for k
      using Cons.prems(3)[of k] by (simp add: good_attempt_def split: sum.splits)
    ultimately have "\<exists>s' resp. try_servers query env (k + 1) s1 idxs (Some e) = (s', Inr resp)"
      using Cons.prems(2) fr by (intro Cons.IH) simp_all
    then show ?thesis using f Inl assms(4) by simp
  qed
qed simp

section \<open>An outage\<close>






section \<open>Properties\<close>

lemma pool_answers:
  assumes "length (fo_servers s) < 2 ^ 64" and "healthy (fo_servers s) now j"
    and "\<And>k. good_attempt query (fo_servers s ! j) (env k j)"
    and "\<And>k i. \<not> at_deadline_passed (env k i)"
  shows "\<exists>s' resp. forward_load_balanced query s n now env = (s', n + 1, Inr resp)"
proof -
  obtain p idxs where sel: "select_available_upstreams (fo_servers s) (fo_probe s) now
      (unat n mod length (fo_servers s)) (2 ^ 64 - 1) = (p, idxs)" by (meson surj_pair)
  note spec = select_spec[OF sel]
  have "length (fo_servers s) \<le> 2 ^ 64 - 1" using assms(1) by linarith
  then have "j \<in> set idxs" using conjunct2[OF conjunct2[OF spec]] assms(2) by blast
  moreover have "\<forall>i\<in>set idxs. i < length (fo_servers s)" using conjunct1[OF spec] by blast
  ultimately obtain s' resp where "try_servers query env 0 (s\<lparr>fo_probe := p\<rparr>) idxs None = (s', Inr resp)"
    using try_servers_answers[of j idxs "s\<lparr>fo_probe := p\<rparr>" query env 0 None] assms(3,4) by auto
  then show ?thesis
    using sel assms(2) by (auto simp: forward_load_balanced_def Let_def healthy_def)
qed

text \<open>C21. Only an answer to the query is passed on: a load-balanced query that returns a response
  returns one of a server of the pool that is valid for the query, and with DNSSEC never a
  failed validation.\<close>

theorem forwarded_response_answers:
  assumes "forward_load_balanced query s n now env = (s', n', Inr resp)"
  shows "\<exists>i<length (fo_servers s). answered_by query (fo_servers s ! i) resp"
proof -
  obtain p idxs where sel: "select_available_upstreams (fo_servers s) (fo_probe s) now
      (unat n mod length (fo_servers s)) (2 ^ 64 - 1) = (p, idxs)"
    and tried: "try_servers query env 0 (s\<lparr>fo_probe := p\<rparr>) idxs None = (s', Inr resp)"
    using assms by (auto simp: forward_load_balanced_def Let_def split: if_splits prod.splits)
  have "set idxs \<subseteq> {..<length (fo_servers s)}" using select_spec[OF sel] by blast
  then show ?thesis using try_servers_valid[OF tried] by auto
qed

definition sample_query :: packet where
  "sample_query = [0, 7, 1, 0, 0, 1, 0, 0, 0, 0, 0, 0, 1, 97, 0, 0, 1, 0, 1]"

definition sample_response :: packet where
  "sample_response = [0, 7, 0x81, 0x80, 0, 1, 0, 0, 0, 0, 0, 0, 1, 97, 0, 0, 1, 0, 1]"

definition sample_env :: "nat \<Rightarrow> nat \<Rightarrow> attempt" where
  "sample_env k i = \<lparr>at_deadline_passed = False, at_no_time_left = False,
     at_result = (if i = 0 then Inl ReadTimedOut else Inr sample_response), at_second = 100, at_duration_ms = 9\<rparr>"

definition sample_pool :: forward_state where
  "sample_pool = \<lparr>fo_servers = build_runtime_upstreams_with_dnssec [Doh ''https://a/'', Doh ''https://b/''] False,
     fo_probe = \<lparr>hp_after = 0, hp_cursor = 0\<rparr>, fo_traffic = \<lparr>ut_sent = 0, ut_received = 0\<rparr>\<rparr>"

lemma sample_valid: "validate_response_for_query sample_query sample_response = Inr ()"
  by code_simp

lemma sample_second_good: "good_attempt sample_query (fo_servers sample_pool ! 1) (sample_env k 1)"
  by (simp add: good_attempt_def sample_env_def sample_valid sample_pool_def new_upstream_def
      build_runtime_upstreams_with_dnssec_def)

theorem forwarded_response_answers_witness:
  "\<exists>s' resp. forward_load_balanced sample_query sample_pool 1 90 sample_env = (s', 2, Inr resp) \<and>
     (\<exists>i<2. answered_by sample_query (fo_servers sample_pool ! i) resp)"
proof -
  have two: "length (fo_servers sample_pool) = 2"
    by (simp add: sample_pool_def build_runtime_upstreams_with_dnssec_def)
  have h: "healthy (fo_servers sample_pool) 90 1"
    by (simp add: healthy_def sample_pool_def build_runtime_upstreams_with_dnssec_def new_upstream_def
        is_upstream_temporarily_unhealthy_def)
  obtain s' resp where r: "forward_load_balanced sample_query sample_pool 1 90 sample_env = (s', 1 + 1, Inr resp)"
    using pool_answers[where s = sample_pool and now = 90 and j = 1 and query = sample_query and env = sample_env
      and n = 1] h sample_second_good two by (auto simp: sample_env_def)
  then show ?thesis using forwarded_response_answers[OF r] two by auto
qed

text \<open>C22. A query is answered when some server that is not avoided answers: whatever the other
  servers do, as long as the deadline does not pass, the loop reaches it.\<close>

theorem healthy_server_answers:
  assumes "length (fo_servers s) < 2 ^ 64" and "healthy (fo_servers s) now j"
    and "\<And>k. good_attempt query (fo_servers s ! j) (env k j)"
    and "\<And>k i. \<not> at_deadline_passed (env k i)"
  shows "\<exists>s' resp. forward_load_balanced query s n now env = (s', n + 1, Inr resp)"
  using pool_answers assms by blast

theorem healthy_server_answers_witness:
  "\<exists>s' resp. forward_load_balanced sample_query sample_pool 0 90 sample_env = (s', 0 + 1, Inr resp)"
proof (rule healthy_server_answers[where j = 1])
  show "healthy (fo_servers sample_pool) 90 1"
    by (simp add: healthy_def sample_pool_def build_runtime_upstreams_with_dnssec_def new_upstream_def
        is_upstream_temporarily_unhealthy_def)
  show "length (fo_servers sample_pool) < 2 ^ 64"
    by (simp add: sample_pool_def build_runtime_upstreams_with_dnssec_def)
  show "good_attempt sample_query (fo_servers sample_pool ! 1) (sample_env k 1)" for k
    by (rule sample_second_good)
  show "\<not> at_deadline_passed (sample_env k i)" for k i by (simp add: sample_env_def)
qed



end
