(* ===== verification/Config.thy ===== *)
theory Config
  imports AppConfig ConfigUpstream Access ClientPolicy Cache
begin

text \<open>
  \<open>config.rs\<close>: the checks of \<open>AppConfig::validate\<close>, in the order of the code; the first
  that fails gives the error.  A message is replaced by the name of the
  check, with the line and the item where the message has them.
\<close>

section \<open>Listening addresses\<close>

datatype config_error =
    Invalid string
  | InvalidItem string string
  | InvalidLine string nat string
  | BadUpstreams upstream_error
  | BadRoutes route_error
  | BadPolicies policy_error
  | BadBootstrap nat

definition listen_socket_addr :: "app_config \<Rightarrow> config_error + socket_addr" where
  "listen_socket_addr c =
     (let host = trim (ac_listen_host c)
      in if host = [] then Inl (Invalid ''listen empty'')
         else if ac_listen_port c = 0 then Inl (Invalid ''listen port'')
         else (case parse_ip host of
             None \<Rightarrow> Inl (Invalid ''listen ip'')
           | Some ip \<Rightarrow> Inr (socket_new ip (ac_listen_port c))))"

definition listen_socket_addrs :: "app_config \<Rightarrow> config_error + socket_addr list" where
  "listen_socket_addrs c =
     (case listen_socket_addr c of
        Inl e \<Rightarrow> Inl e
      | Inr addr \<Rightarrow>
          if \<not> ac_listen_ipv6 c then Inr [addr]
          else if \<not> socket_is_ipv4 addr then Inl (Invalid ''listen not v4'')
          else (let host = trim (ac_listen_ipv6_host c)
                in if host = [] then Inl (Invalid ''listen v6 empty'')
                   else (case parse_ipv6 host of
                       None \<Rightarrow> Inl (Invalid ''listen v6'')
                     | Some ip \<Rightarrow> Inr [addr, socket_new (IpV6 ip) (ac_listen_port c)])))"

fun is_loopback :: "ip_addr \<Rightarrow> bool" where
  "is_loopback (IpV4 ip) = (drop_bit 24 ip = 127)"
| "is_loopback (IpV6 ip) = (ip = 1)"

definition monitoring_api_socket_addr :: "app_config \<Rightarrow> config_error + socket_addr" where
  "monitoring_api_socket_addr c =
     (case parse_ip (trim (ac_monitoring_api_listen_host c)) of
        None \<Rightarrow> Inl (Invalid ''monitoring host'')
      | Some ip \<Rightarrow>
          if ac_monitoring_api_port c = 0 then Inl (Invalid ''monitoring port'')
          else if ac_monitoring_api_enabled c \<and> \<not> is_loopback ip \<and>
                  length (trim (ac_monitoring_api_token c)) < 16 then Inl (Invalid ''monitoring token'')
          else if ac_monitoring_api_enabled c \<and> ac_monitoring_api_port c = ac_listen_port c
          then Inl (Invalid ''monitoring same port'')
          else if 256 < length (ac_monitoring_api_token c) then Inl (Invalid ''monitoring token length'')
          else Inr (socket_new ip (ac_monitoring_api_port c)))"

section \<open>Checks of the texts\<close>

fun is_insecure_doh :: "upstream_server \<Rightarrow> bool" where
  "is_insecure_doh (Doh url) = starts_with ''http://'' url"
| "is_insecure_doh _ = False"

definition validate_filter_proxy :: "url_parser \<Rightarrow> app_config \<Rightarrow> config_error option" where
  "validate_filter_proxy url_parse c =
     (case (case ac_filter_proxy_mode c of
              DirectProxy \<Rightarrow> None
            | SystemProxy \<Rightarrow> Some (trim (ac_filter_system_proxy_url c))
            | CustomProxy \<Rightarrow> Some (trim (ac_filter_proxy_url c))) of
        None \<Rightarrow> None
      | Some url \<Rightarrow>
          if url = [] then (if ac_filter_proxy_mode c = CustomProxy then Some (Invalid ''proxy missing'') else None)
          else (case url_parse url of
              None \<Rightarrow> Some (Invalid ''proxy url'')
            | Some parsed \<Rightarrow>
                if url_scheme parsed \<notin> {''http'', ''https''} \<or> url_host_str parsed = None
                then Some (Invalid ''proxy scheme'') else None))"

definition validate_blocking_config :: "app_config \<Rightarrow> config_error option" where
  "validate_blocking_config c =
     (if ac_blocking_mode c \<noteq> CustomIp then None
      else (let ipv4 = trim (ac_blocking_custom_ipv4 c); ipv6 = trim (ac_blocking_custom_ipv6 c)
            in if ipv4 = [] \<and> ipv6 = [] then Some (Invalid ''blocking ip missing'')
               else if ipv4 \<noteq> [] \<and> parse_ipv4 ipv4 = None then Some (InvalidItem ''blocking ipv4'' ipv4)
               else if ipv6 \<noteq> [] \<and> parse_ipv6 ipv6 = None then Some (InvalidItem ''blocking ipv6'' ipv6)
               else None))"

text \<open>The first error of a check over the lines of a text.\<close>

fun first_error :: "'e option list \<Rightarrow> 'e option" where
  "first_error [] = None"
| "first_error (r # rs) = (case r of None \<Rightarrow> first_error rs | Some e \<Rightarrow> Some e)"

definition strip_wildcard :: "string \<Rightarrow> string" where
  "strip_wildcard d = (case strip_prefix ''*.'' d of None \<Rightarrow> d | Some r \<Rightarrow> r)"

fun rewrite_line_error :: "nat \<times> string \<Rightarrow> config_error option" where
  "rewrite_line_error (i, line) =
     (case split_whitespace line of
        d # ip # extra \<Rightarrow>
          (let dn = strip_wildcard d
           in if normalize_hostname dn = None then Some (InvalidLine ''rewrite domain'' i dn)
              else if parse_ip ip = None then Some (InvalidLine ''rewrite ip'' i ip)
              else if extra \<noteq> [] then Some (InvalidLine ''rewrite extra'' i [])
              else None)
      | _ \<Rightarrow> Some (InvalidLine ''rewrite format'' i []))"

definition validate_dns_rewrites :: "string \<Rightarrow> config_error option" where
  "validate_dns_rewrites value = first_error (map rewrite_line_error (entry_lines value))"

fun client_name_error :: "nat \<times> string \<Rightarrow> config_error option" where
  "client_name_error (i, line) =
     (case (case split_once_ws line of Some (a, b) \<Rightarrow> (a, trim b) | None \<Rightarrow> (line, [])) of
        (ip, name) \<Rightarrow>
          if parse_ip ip = None then Some (InvalidLine ''client name ip'' i ip)
          else if name = [] then Some (InvalidLine ''client name missing'' i [])
          else None)"

definition validate_client_names :: "string \<Rightarrow> config_error option" where
  "validate_client_names value = first_error (map client_name_error (entry_lines value))"

fun domain_line_error :: "nat \<times> string \<Rightarrow> config_error option" where
  "domain_line_error (i, line) =
     (if normalize_hostname (strip_wildcard line) = None then Some (InvalidLine ''domain line'' i line) else None)"

definition validate_domain_list :: "string \<Rightarrow> config_error option" where
  "validate_domain_list value = first_error (map domain_line_error (entry_lines value))"

fun client_list_error :: "bool \<Rightarrow> nat \<times> string \<Rightarrow> config_error option" where
  "client_list_error allowed (i, line) =
     (let item = trim (case split_whitespace line of [] \<Rightarrow> [] | w # _ \<Rightarrow> w)
      in if skip_line item then None
         else if \<not> validate_ip_or_cidr item then Some (InvalidLine (if allowed then ''allowed clients'' else ''denied clients'') i item)
         else None)"

definition validate_client_list :: "bool \<Rightarrow> string \<Rightarrow> config_error option" where
  "validate_client_list allowed value =
     first_error (map (client_list_error allowed) (enumerate 1 (str_lines value)))"

fun validate_filters :: "string set \<Rightarrow> filter_subscription list \<Rightarrow> bool \<Rightarrow> config_error option" where
  "validate_filters ids [] allow_http = None"
| "validate_filters ids (f # fs) allow_http =
     (let i = trim (fs_id f); url = trim (fs_url f)
      in if i = [] then Some (Invalid ''filter id empty'')
         else if \<not> list_all policy_name_char i then Some (InvalidItem ''filter id'' i)
         else if i \<in> ids then Some (InvalidItem ''filter id twice'' i)
         else if trim (fs_name f) = [] then Some (Invalid ''filter name'')
         else if url = [] then Some (InvalidItem ''filter url empty'' (fs_name f))
         else if starts_with ''https://'' url then validate_filters (insert i ids) fs allow_http
         else if starts_with ''http://'' url
         then (if allow_http then validate_filters (insert i ids) fs allow_http
               else Some (InvalidItem ''filter insecure'' (fs_name f)))
         else Some (InvalidItem ''filter url'' (fs_name f)))"

section \<open>The validation\<close>

definition validate_limits :: "url_parser \<Rightarrow> app_config \<Rightarrow> config_error option" where
  "validate_limits url_parse c = first_error
     [if 10 \<le> ac_runtime_watchdog_interval_seconds c \<and> ac_runtime_watchdog_interval_seconds c \<le> 3600
      then None else Some (Invalid ''watchdog interval''),
      (case monitoring_api_socket_addr c of Inl e \<Rightarrow> Some e | Inr _ \<Rightarrow> None),
      if 5 \<le> ac_web_admin_session_idle_minutes c \<and> ac_web_admin_session_idle_minutes c \<le> 720
      then None else Some (Invalid ''session idle''),
      if CURRENT_CONFIG_SCHEMA_VERSION < ac_schema_version c then Some (Invalid ''schema version'') else None,
      if ac_filter_update_interval_hours c \<in> {6, 12, 24, 72, 168} then None else Some (Invalid ''filter interval''),
      if 1 \<le> ac_filter_max_size_mb c \<and> ac_filter_max_size_mb c \<le> 256 then None else Some (Invalid ''filter size''),
      validate_filter_proxy url_parse c,
      validate_client_list True (ac_allowed_clients c),
      validate_client_list False (ac_blocked_clients c),
      if 100000 < ac_rate_limit_per_second c then Some (Invalid ''rate limit'') else None,
      if ac_query_log_retention_hours c = 0 \<or> 24 * 365 < ac_query_log_retention_hours c
      then Some (Invalid ''log retention'') else None,
      if 24 * 365 < ac_statistics_retention_hours c then Some (Invalid ''statistics retention'') else None,
      if ac_security_event_retention_hours c = 0 \<or> 24 * 365 < ac_security_event_retention_hours c
      then Some (Invalid ''security retention'') else None,
      if ac_dns_cache_enabled c \<and> ac_dns_cache_size c = 0 then Some (Invalid ''cache empty'') else None,
      if 512 * 1024 * 1024 < ac_dns_cache_size c then Some (Invalid ''cache size'') else None,
      if 7 * 24 * 3600 < ac_dns_cache_min_ttl c \<or> 7 * 24 * 3600 < ac_dns_cache_max_ttl c
      then Some (Invalid ''cache ttl'') else None,
      if 0 < ac_dns_cache_max_ttl c \<and> ac_dns_cache_max_ttl c < ac_dns_cache_min_ttl c
      then Some (Invalid ''cache ttl order'') else None,
      if 60 \<le> ac_dns_cache_optimistic_max_stale_seconds c \<and>
         ac_dns_cache_optimistic_max_stale_seconds c \<le> 7 * 24 * 3600 then None else Some (Invalid ''cache stale''),
      if 2 \<le> ac_dns_cache_prefetch_hit_threshold c \<and> ac_dns_cache_prefetch_hit_threshold c \<le> 10000
      then None else Some (Invalid ''cache prefetch''),
      if 7 * 24 * 3600 < ac_blocking_response_ttl c then Some (Invalid ''blocking ttl'') else None,
      validate_filters {} (ac_filters c) (ac_allow_insecure_http c),
      validate_blocking_config c,
      validate_dns_rewrites (ac_dns_rewrites c),
      validate_client_names (ac_client_names c),
      validate_domain_list (ac_query_log_ignored_domains c),
      validate_domain_list (ac_statistics_ignored_domains c),
      validate_domain_list (ac_rebinding_allowed_domains c)]"

definition sum_error :: "('e \<Rightarrow> config_error) \<Rightarrow> 'e + 'a \<Rightarrow> ('a \<Rightarrow> config_error option) \<Rightarrow> config_error option" where
  "sum_error err r k = (case r of Inl e \<Rightarrow> Some (err e) | Inr x \<Rightarrow> k x)"

definition validate :: "url_parser \<Rightarrow> app_config \<Rightarrow> config_error option" where
  "validate url_parse c =
     (let http = ac_allow_insecure_http c
      in sum_error id (listen_socket_addrs c) (\<lambda>_.
         sum_error BadUpstreams (parse_upstream_servers url_parse (ac_upstream_dns c) http) (\<lambda>upstreams.
         sum_error BadUpstreams (parse_optional_upstream_servers url_parse (ac_fallback_dns c) http) (\<lambda>fallbacks.
         sum_error BadRoutes (parse_domain_upstream_rules url_parse (ac_domain_upstream_rules c) http) (\<lambda>domains.
         sum_error BadRoutes (parse_client_upstream_rules url_parse (ac_client_upstream_rules c) http) (\<lambda>clients.
         sum_error BadPolicies (parse_client_filtering_rules (ac_client_filtering_rules c)) (\<lambda>rules.
         sum_error BadPolicies (parse_client_policy_groups (ac_client_policy_groups c)) (\<lambda>groups.
         (case validate_client_policy_profiles rules groups of
            Some e \<Rightarrow> Some (BadPolicies e)
          | None \<Rightarrow>
              sum_error BadPolicies (parse_blocked_services (ac_family_blocked_services c)) (\<lambda>_.
              if ac_dnssec_enabled c \<and>
                 list_ex is_insecure_doh (upstreams @ fallbacks @ concat (map dr_upstreams domains) @
                   concat (map cl_upstreams clients))
              then Some (Invalid ''dnssec insecure'')
              else sum_error BadBootstrap (parse_bootstrap_servers (ac_bootstrap_dns c)) (\<lambda>_.
                validate_limits url_parse c)))))))))))"

section \<open>What the cache reads\<close>

text \<open>\<open>DnsCacheConfig::from_config\<close>.\<close>

definition cache_config_of :: "app_config \<Rightarrow> cache_config" where
  "cache_config_of c =
     \<lparr>cc_enabled = ac_dns_cache_enabled c, cc_max_size_bytes = ac_dns_cache_size c,
      cc_min_ttl = ac_dns_cache_min_ttl c, cc_max_ttl = ac_dns_cache_max_ttl c,
      cc_optimistic = ac_dns_cache_optimistic c,
      cc_max_stale_seconds = ac_dns_cache_optimistic_max_stale_seconds c,
      cc_prefetch_enabled = ac_dns_cache_prefetch_enabled c,
      cc_prefetch_hit_threshold = ac_dns_cache_prefetch_hit_threshold c\<rparr>"

end
