(* ===== verification/UpstreamRoutes.thy ===== *)
theory UpstreamRoutes
  imports UpstreamSpec Config "HOL-Library.Product_Lexorder"
begin

text \<open>
  \<open>dns/upstream_routes.rs\<close>: which pool of servers a query uses.  A route for the client's
  network comes before a route for the name; among the first the longest prefix wins,
  among the second the longest pattern, and of two routes with one pattern the exact one.
  The pools are shared (\<open>Arc\<close>); the model returns the pool, whose key identifies it.
\<close>

section \<open>Routes\<close>

record route_pool =
  rp_key :: string
  rp_upstreams :: "runtime_upstream list"
  rp_next :: u64

record domain_route =
  do_pattern :: string
  do_include_subdomains :: bool
  do_pool :: route_pool

record client_route =
  co_network :: ip_network
  co_pool :: route_pool

record upstream_routes =
  us_domains :: "domain_route list"
  us_clients :: "client_route list"

definition build_domain_route :: "bool \<Rightarrow> domain_route_spec \<Rightarrow> domain_route" where
  "build_domain_route dnssec spec =
     \<lparr>do_pattern = dr_pattern spec, do_include_subdomains = dr_include_subdomains spec,
      do_pool = \<lparr>rp_key = ''domain:'' @ (if dr_include_subdomains spec then ''*.'' else []) @ dr_pattern spec,
                 rp_upstreams = build_runtime_upstreams_with_dnssec (dr_upstreams spec) dnssec, rp_next = 0\<rparr>\<rparr>"

definition build_client_route :: "bool \<Rightarrow> client_route_spec \<Rightarrow> network_error + client_route" where
  "build_client_route dnssec spec =
     (case parse_network (cl_network spec) ''client upstream'' of
        Inl e \<Rightarrow> Inl e
      | Inr n \<Rightarrow> Inr
          \<lparr>co_network = n,
           co_pool = \<lparr>rp_key = ''client:'' @ cl_network spec,
                      rp_upstreams = build_runtime_upstreams_with_dnssec (cl_upstreams spec) dnssec, rp_next = 0\<rparr>\<rparr>)"

datatype routes_error = RoutesBootstrap nat | RoutesText route_error | RoutesNetwork network_error

definition routes_from_config :: "url_parser \<Rightarrow> app_config \<Rightarrow> routes_error + upstream_routes" where
  "routes_from_config url_parse config =
     (case parse_bootstrap_servers (ac_bootstrap_dns config) of
        Inl i \<Rightarrow> Inl (RoutesBootstrap i)
      | Inr _ \<Rightarrow>
          (case parse_domain_upstream_rules url_parse (ac_domain_upstream_rules config) (ac_allow_insecure_http config) of
             Inl e \<Rightarrow> Inl (RoutesText e)
           | Inr domains \<Rightarrow>
               (case parse_client_upstream_rules url_parse (ac_client_upstream_rules config) (ac_allow_insecure_http config) of
                  Inl e \<Rightarrow> Inl (RoutesText e)
                | Inr clients \<Rightarrow>
                    (case collect_results (map (build_client_route (ac_dnssec_enabled config)) clients) of
                       Inl e \<Rightarrow> Inl (RoutesNetwork e)
                     | Inr cs \<Rightarrow>
                         Inr \<lparr>us_domains = map (build_domain_route (ac_dnssec_enabled config)) domains,
                              us_clients = cs\<rparr>))))"

section \<open>Selection\<close>

definition route_matches :: "domain_route \<Rightarrow> string \<Rightarrow> bool" where
  "route_matches r name =
     (name = do_pattern r \<or>
      (do_include_subdomains r \<and>
       (case strip_suffix (do_pattern r) name of None \<Rightarrow> False | Some p \<Rightarrow> ends_with ''.'' p)))"

definition select_domain :: "upstream_routes \<Rightarrow> string \<Rightarrow> route_pool option" where
  "select_domain rs name = map_option do_pool
     (max_by_key (\<lambda>r. (length (do_pattern r), \<not> do_include_subdomains r))
       (filter (\<lambda>r. route_matches r name) (us_domains rs)))"

definition select_route :: "upstream_routes \<Rightarrow> string \<Rightarrow> ip_addr \<Rightarrow> route_pool option" where
  "select_route rs name client =
     (case max_by_key (\<lambda>r. prefix_len (co_network r))
             (filter (\<lambda>r. network_contains (co_network r) client) (us_clients rs)) of
        Some r \<Rightarrow> Some (co_pool r)
      | None \<Rightarrow> select_domain rs name)"

section \<open>What a selection means\<close>

text \<open>The names below a pattern end in it at a label boundary, so their matching patterns are
  nested: the longer one is below the shorter.\<close>

lemma route_matches_iff:
  "route_matches r name \<longleftrightarrow> name = do_pattern r \<or>
     (do_include_subdomains r \<and> (\<exists>p. name = p @ ''.'' @ do_pattern r))"
proof -
  have "(case strip_suffix pat name of None \<Rightarrow> False | Some p \<Rightarrow> ends_with ''.'' p) \<longleftrightarrow>
      (\<exists>p. name = p @ ''.'' @ pat)" for pat
  proof (cases "strip_suffix pat name")
    case None
    then have "name \<noteq> (p @ ''.'') @ pat" for p by (simp add: strip_suffix_None del: append_assoc)
    then show ?thesis using None by simp
  next
    case (Some q)
    then have "name = q @ pat" by (simp add: strip_suffix_Some)
    moreover have "q @ pat = p @ ''.'' @ pat \<longleftrightarrow> q = p @ ''.''" for p
      using append_same_eq[of q pat "p @ ''.''"] by simp
    ultimately show ?thesis using Some by (simp add: ends_with_iff)
  qed
  then show ?thesis by (simp add: route_matches_def)
qed

lemma client_route_wf:
  assumes "routes_from_config url_parse config = Inr rs" and "r \<in> set (us_clients rs)"
  shows "wf_network (co_network r)"
proof -
  obtain clients where "collect_results (map (build_client_route (ac_dnssec_enabled config)) clients) =
      Inr (us_clients rs)"
    using assms(1) by (auto simp: routes_from_config_def split: sum.splits)
  then have "map (build_client_route (ac_dnssec_enabled config)) clients = map Inr (us_clients rs)"
    by (simp add: collect_results_Inr)
  then obtain c where c: "build_client_route (ac_dnssec_enabled config) c = Inr r"
    using assms(2) by (metis image_iff list.set_map)
  obtain n where "parse_network (cl_network c) ''client upstream'' = Inr n" "co_network r = n"
    using c by (cases "parse_network (cl_network c) ''client upstream''") (auto simp: build_client_route_def)
  then show ?thesis using parse_network_wf by simp
qed

text \<open>The order of \<open>select_domain\<close>: the pattern of the first is below the second's, and of equal
  patterns the exact route comes before the one for subdomains.\<close>

definition more_specific :: "domain_route \<Rightarrow> domain_route \<Rightarrow> bool" where
  "more_specific r r' =
     ((do_pattern r = do_pattern r' \<and> (do_include_subdomains r \<longrightarrow> do_include_subdomains r')) \<or>
      ends_with (CHR ''.'' # do_pattern r') (do_pattern r))"

lemma specific_of_key:
  assumes "route_matches r name" and "route_matches r' name"
    and "(length (do_pattern r'), \<not> do_include_subdomains r') \<le> (length (do_pattern r), \<not> do_include_subdomains r)"
  shows "more_specific r r'"
proof -
  have suffix: "\<exists>q. name = q @ do_pattern x \<and> (q = [] \<or> (\<exists>p. q = p @ ''.''))" if "route_matches x name" for x
    using that unfolding route_matches_iff by (metis append_Nil append.assoc)
  obtain q where q: "name = q @ do_pattern r" "q = [] \<or> (\<exists>p. q = p @ ''.'')" using suffix[OF assms(1)] by blast
  obtain q' where q': "name = q' @ do_pattern r'" "q' = [] \<or> (\<exists>p. q' = p @ ''.'')"
    using suffix[OF assms(2)] by blast
  have le: "length (do_pattern r') \<le> length (do_pattern r)" using assms(3) by auto
  obtain m where m: "do_pattern r = m @ do_pattern r'" "q' = q @ m"
  proof -
    have "q @ do_pattern r = q' @ do_pattern r'" using q(1) q'(1) by simp
    then obtain us where "q = q' @ us \<and> us @ do_pattern r = do_pattern r' \<or>
        q @ us = q' \<and> do_pattern r = us @ do_pattern r'" by (auto simp: append_eq_append_conv2)
    moreover have "us = []" if "us @ do_pattern r = do_pattern r'" using le arg_cong[OF that, of length] by (simp flip: length_0_conv)
    ultimately show thesis using that by auto
  qed
  show ?thesis
  proof (cases "m = []")
    case True
    then show ?thesis using assms(3) m(1) by (auto simp: more_specific_def)
  next
    case False
    then obtain p where p: "m = p @ ''.''" using m(2) q'(2)
      by (metis append_is_Nil_conv last_appendR last_snoc append_butlast_last_id)
    then show ?thesis using m(1) by (auto simp: more_specific_def ends_with_def)
  qed
qed

section \<open>Properties\<close>

text \<open>C24. Of the routes of a validated text, the pool of a client route comes first, and the network
  of the chosen one lies within that of every other route for the client.\<close>

theorem client_route_most_specific:
  assumes "routes_from_config url_parse config = Inr rs"
    and "r \<in> set (us_clients rs)" and "network_contains (co_network r) client"
  shows "\<exists>r'\<in>set (us_clients rs). select_route rs name client = Some (co_pool r') \<and>
    network_contains (co_network r') client \<and>
    (\<forall>ip. network_contains (co_network r') ip \<longrightarrow> network_contains (co_network r) ip)"
proof -
  let ?m = "max_by_key (\<lambda>r. prefix_len (co_network r))
    (filter (\<lambda>r. network_contains (co_network r) client) (us_clients rs))"
  have "?m \<noteq> None" using assms(2,3) by (auto simp: filter_empty_conv)
  then obtain r' where r': "?m = Some r'" by blast
  have mem: "r' \<in> set (us_clients rs)" "network_contains (co_network r') client"
    using max_by_key_mem[OF r'] by auto
  have "prefix_len (co_network r) \<le> prefix_len (co_network r')"
    using max_by_key_max[OF r', of r] assms(2,3) by simp
  then have "network_contains (co_network r) ip" if "network_contains (co_network r') ip" for ip
    using cidr.nested[OF client_route_wf[OF assms(1,2)] client_route_wf[OF assms(1) mem(1)] assms(3) mem(2) _ that]
    by (simp add: word_le_nat_alt)
  then show ?thesis using mem r' by (auto simp: select_route_def)
qed

theorem client_route_most_specific_witness:
  "\<exists>rs r'. routes_from_config (\<lambda>_. None) (default_config\<lparr>ac_client_upstream_rules :=
       ''10.0.0.7/8 => 1.1.1.1'' @ CHR 0x0A # ''10.0.0.7 => 9.9.9.9''\<rparr>) = Inr rs \<and>
     r' \<in> set (us_clients rs) \<and> select_route rs ''a.b'' (IpV4 0x0A000007) = Some (co_pool r')"
proof -
  let ?text = "''10.0.0.7/8 => 1.1.1.1'' @ CHR 0x0A # ''10.0.0.7 => 9.9.9.9''"
  let ?config = "default_config\<lparr>ac_client_upstream_rules := ?text\<rparr>"
  have parts: "parse_client_upstream_rules (\<lambda>_. None) ?text False =
      Inr [\<lparr>cl_network = ''10.0.0.7/8'', cl_upstreams = [Udp (SocketV4 0x01010101 53)]\<rparr>,
           \<lparr>cl_network = ''10.0.0.7'', cl_upstreams = [Udp (SocketV4 0x09090909 53)]\<rparr>]"
    "parse_domain_upstream_rules (\<lambda>_. None) [] False = Inr []"
    "case parse_bootstrap_servers default_bootstrap_dns of Inl _ \<Rightarrow> False | Inr _ \<Rightarrow> True"
    "split_once (CHR ''/'') ''10.0.0.7/8'' = Some (''10.0.0.7'', ''8'')" "parse_u8 ''8'' = Some 8"
    "split_once (CHR ''/'') ''10.0.0.7'' = None" "parse_ip ''10.0.0.7'' = Some (IpV4 0x0A000007)"
    by code_simp+
  define net :: "u8 \<Rightarrow> ip_network" where "net l = \<lparr>family = FamV4, network = prefix_network (ucast (0x0A000007 :: u32)) 32 l, prefix_len = l\<rparr>" for l
  have nets: "parse_network ''10.0.0.7/8'' ''client upstream'' = Inr (net 8)"
    "parse_network ''10.0.0.7'' ''client upstream'' = Inr (net 32)"
    using parts(4-7) by (simp_all add: parse_network_def net_def)
  obtain rs where rs: "routes_from_config (\<lambda>_. None) ?config = Inr rs"
    and net: "map co_network (us_clients rs) = [net 8, net 32]"
    using parts(1-3) nets
    by (cases "parse_bootstrap_servers default_bootstrap_dns")
      (auto simp: routes_from_config_def default_config_def build_client_route_def)
  then obtain r where r: "r \<in> set (us_clients rs)" "co_network r = net 8" by (cases "us_clients rs") auto
  have "network_contains (co_network r) (IpV4 0x0A000007)"
    unfolding r(2) by (simp add: net_def network_contains_def)
  from client_route_most_specific[OF rs r(1) this] show ?thesis using rs by blast
qed

text \<open>Without a client route, a name that some pattern covers uses the pool of a route that
  covers it and is at least as specific as every other: its pattern lies below theirs.\<close>

theorem domain_route_most_specific:
  assumes "\<forall>r\<in>set (us_clients rs). \<not> network_contains (co_network r) client"
    and "r \<in> set (us_domains rs)" and "route_matches r name"
  shows "\<exists>r'\<in>set (us_domains rs). select_route rs name client = Some (do_pool r') \<and>
    route_matches r' name \<and> more_specific r' r"
proof -
  let ?m = "max_by_key (\<lambda>r. (length (do_pattern r), \<not> do_include_subdomains r))
    (filter (\<lambda>r. route_matches r name) (us_domains rs))"
  have "?m \<noteq> None" using assms(2,3) by (auto simp: filter_empty_conv)
  then obtain r' where r': "?m = Some r'" by blast
  have mem: "r' \<in> set (us_domains rs)" "route_matches r' name" using max_by_key_mem[OF r'] by auto
  have "more_specific r' r"
    using max_by_key_max[OF r', of r] assms(2,3) by (intro specific_of_key[OF mem(2) assms(3)]) simp
  moreover have "select_route rs name client = Some (do_pool r')"
    using assms(1) r' by (simp add: select_route_def select_domain_def filter_False)
  ultimately show ?thesis using mem by blast
qed

theorem domain_route_most_specific_witness:
  "\<exists>r'. select_route \<lparr>us_domains = map (build_domain_route False)
        [\<lparr>dr_pattern = ''corp.lan'', dr_include_subdomains = True, dr_upstreams = []\<rparr>,
         \<lparr>dr_pattern = ''lan'', dr_include_subdomains = True, dr_upstreams = []\<rparr>], us_clients = []\<rparr>
      ''a.corp.lan'' (IpV4 0x0A000007) = Some (do_pool r') \<and> route_matches r' ''a.corp.lan''"
proof -
  let ?r = "build_domain_route False \<lparr>dr_pattern = ''lan'', dr_include_subdomains = True, dr_upstreams = []\<rparr>"
  have "route_matches ?r ''a.corp.lan''"
    by (simp add: build_domain_route_def route_matches_def strip_suffix_def ends_with_def)
  then show ?thesis
    using domain_route_most_specific[of "\<lparr>us_domains = map (build_domain_route False)
        [\<lparr>dr_pattern = ''corp.lan'', dr_include_subdomains = True, dr_upstreams = []\<rparr>,
         \<lparr>dr_pattern = ''lan'', dr_include_subdomains = True, dr_upstreams = []\<rparr>], us_clients = []\<rparr>"
      "IpV4 0x0A000007" ?r "''a.corp.lan''"] by auto
qed

end
