(* ===== verification/ConfigSpec.thy ===== *)
theory ConfigSpec
  imports UpstreamRoutes
begin

text \<open>What a validated configuration guarantees to the constructors that read it, that the default
  configuration is valid, which servers a validated configuration can name, and that the checks of
  the client lists agree with the access control.\<close>

section \<open>An address has no slash\<close>

definition consumed :: "string \<Rightarrow> string \<Rightarrow> bool" where
  "consumed s r = (\<exists>p. s = p @ r \<and> CHR ''/'' \<notin> set p)"

lemma consumed_refl [simp]: "consumed s s" by (simp add: consumed_def)

lemma consumed_trans [trans]: "consumed a b \<Longrightarrow> consumed b c \<Longrightarrow> consumed a c"
  unfolding consumed_def by (metis Un_iff append.assoc set_append)

lemma consumed_Cons: "c \<noteq> CHR ''/'' \<Longrightarrow> consumed s r \<Longrightarrow> consumed (c # s) r"
  unfolding consumed_def by (metis Cons_eq_appendI set_ConsD)

lemma consumed_Nil: "consumed s [] \<Longrightarrow> CHR ''/'' \<notin> set s"
  by (auto simp: consumed_def)

lemma slash_no_digit: "to_digit radix (CHR ''/'') = None"
  by (simp add: to_digit_def)

lemma read_digits_consumed: "read_digits radix m n acc s = Some (k, v, r) \<Longrightarrow> consumed s r"
proof (induction radix m n acc s rule: read_digits.induct)
  case (2 radix m n acc c s)
  show ?case
  proof (cases "to_digit radix c")
    case (Some d)
    then have "c \<noteq> CHR ''/''" using slash_no_digit by auto
    then show ?thesis using 2 Some by (auto split: if_splits intro: consumed_Cons)
  qed (use 2 in simp)
qed simp

lemma read_number_consumed: "read_number radix m z mx s = Some (v, r) \<Longrightarrow> consumed s r"
  by (auto simp: read_number_def split: option.splits prod.splits if_splits dest: read_digits_consumed)

lemma strip_prefix_consumed: "strip_prefix p s = Some r \<Longrightarrow> CHR ''/'' \<notin> set p \<Longrightarrow> consumed s r"
  by (auto simp: strip_prefix_Some consumed_def)

lemma read_sep_consumed: "read_sep c i s = Some r \<Longrightarrow> c \<noteq> CHR ''/'' \<Longrightarrow> consumed s r"
  by (auto simp: read_sep_def split: if_splits dest: strip_prefix_consumed)

lemma read_v4_octets_consumed: "read_v4_octets k i s = Some (vs, r) \<Longrightarrow> consumed s r"
proof (induction k i s arbitrary: vs rule: read_v4_octets.induct)
  case (2 k i s)
  then obtain s1 v s2 ws where "read_sep (CHR ''.'') i s = Some s1" "read_number 10 3 False 255 s1 = Some (v, s2)"
    "read_v4_octets k (Suc i) s2 = Some (ws, r)" by (auto split: bind_splits)
  then show ?case using 2(1)
    using consumed_trans[OF read_sep_consumed consumed_trans[OF read_number_consumed]] by simp
qed simp

lemma read_ipv4_consumed: "read_ipv4 s = Some (v, r) \<Longrightarrow> consumed s r"
  by (auto simp: read_ipv4_def dest: read_v4_octets_consumed)

lemma read_groups_consumed: "read_groups k i gs s = (hs, v4, r) \<Longrightarrow> consumed s r"
proof (induction k i gs s rule: read_groups.induct)
  case (2 k i gs s)
  consider v r1 where "0 < k" "Option.bind (read_sep (CHR '':'') i s) read_ipv4 = Some (v, r1)"
    | g r1 where "(if 0 < k then Option.bind (read_sep (CHR '':'') i s) read_ipv4 else None) = None"
        "Option.bind (read_sep (CHR '':'') i s) (read_number 16 4 True 65535) = Some (g, r1)"
    | "(if 0 < k then Option.bind (read_sep (CHR '':'') i s) read_ipv4 else None) = None"
      "Option.bind (read_sep (CHR '':'') i s) (read_number 16 4 True 65535) = None"
    by (metis not_None_eq surj_pair)
  then show ?case
  proof cases
    case 1
    then obtain s1 where "read_sep (CHR '':'') i s = Some s1" "read_ipv4 s1 = Some (v, r1)"
      by (auto simp: bind_eq_Some_conv)
    then have "consumed s r1" using consumed_trans[OF read_sep_consumed read_ipv4_consumed] by simp
    then show ?thesis using 2 1 by simp
  next
    case c: 2
    then obtain s1 where "read_sep (CHR '':'') i s = Some s1" "read_number 16 4 True 65535 s1 = Some (g, r1)"
      by (auto simp: bind_eq_Some_conv)
    then have "consumed s r1" using consumed_trans[OF read_sep_consumed read_number_consumed] by simp
    moreover have "consumed r1 r" using 2 c by simp
    ultimately show ?thesis by (rule consumed_trans)
  next
    case 3
    then show ?thesis using 2 by simp
  qed
qed simp

lemma read_ipv6_consumed: "read_ipv6 s = Some (v, r) \<Longrightarrow> consumed s r"
proof -
  assume r: "read_ipv6 s = Some (v, r)"
  obtain hs v4 r1 where g: "read_groups 8 0 [] s = (hs, v4, r1)" by (metis surj_pair)
  note c1 = read_groups_consumed[OF g]
  show ?thesis
  proof (cases "length hs = 8")
    case True
    then show ?thesis using r g c1 by (simp add: read_ipv6_def)
  next
    case False
    then obtain r2 where r2: "strip_prefix ''::'' r1 = Some r2"
      using r g by (auto simp: read_ipv6_def split: if_splits option.splits)
    obtain ts w r3 where g2: "read_groups (8 - (length hs + 1)) 0 [] r2 = (ts, w, r3)" by (metis surj_pair)
    have "r = r3" using r g g2 r2 False by (simp add: read_ipv6_def split: if_splits)
    moreover have "consumed r1 r2" using strip_prefix_consumed[OF r2] by simp
    ultimately show ?thesis using c1 read_groups_consumed[OF g2] consumed_trans by blast
  qed
qed

lemma parse_ip_no_slash: "parse_ip s = Some ip \<Longrightarrow> CHR ''/'' \<notin> set s"
  by (auto simp: parse_ip_def at_end_def split: option.splits prod.splits if_splits list.splits
      dest!: read_ipv4_consumed read_ipv6_consumed dest: consumed_Nil)

lemma split_once_mem: "split_once c s = Some (a, b) \<Longrightarrow> c \<in> set s"
  by (induction s arbitrary: a) (auto split: if_splits option.splits)

lemma ip_no_split: "parse_ip s = Some ip \<Longrightarrow> split_once (CHR ''/'') s = None"
  using parse_ip_no_slash split_once_mem by (metis not_None_eq surj_pair)

section \<open>A checked network parses\<close>

lemma cidr_parts:
  assumes "validate_ip_or_cidr s" and "parse_ip s = None"
  obtains a b ip p where "split_once (CHR ''/'') s = Some (a, b)" "parse_ip a = Some ip" "parse_u8 b = Some p"
    "\<not> fst (snd (ip_parts ip)) < p"
proof -
  obtain a b ip p where "split_once (CHR ''/'') s = Some (a, b)" "parse_ip a = Some ip" "parse_u8 b = Some p"
    "case ip of IpV4 _ \<Rightarrow> p \<le> 32 | IpV6 _ \<Rightarrow> p \<le> 128"
    using assms by (auto simp: validate_ip_or_cidr_def split: option.splits)
  then show ?thesis using that by (cases ip) (simp_all add: not_less)
qed

lemma checked_network:
  assumes "validate_ip_or_cidr s"
  shows "\<exists>n. parse_network s label = Inr n"
proof (cases "parse_ip s")
  case (Some ip)
  then show ?thesis using ip_no_split[OF Some] by (cases ip) (simp_all add: parse_network_def)
next
  case None
  show ?thesis by (rule cidr_parts[OF assms None]) (auto simp: parse_network_def split: prod.splits)
qed

lemma checked_prefix:
  assumes "validate_ip_or_cidr s" and "parse_ip s = None"
  shows "ip_prefix_parse s \<noteq> None"
  by (rule cidr_parts[OF assms]) (auto simp: ip_prefix_parse_def ip_prefix_new_def split: prod.splits)


section \<open>The checks\<close>

lemma sum_error_None [simp]: "sum_error err r k = None \<longleftrightarrow> (\<exists>x. r = Inr x \<and> k x = None)"
  by (simp add: sum_error_def split: sum.splits)

lemma first_error_None: "first_error xs = None \<longleftrightarrow> (\<forall>x\<in>set xs. x = None)"
  by (induction xs) (auto split: option.splits)

lemma check_None: "(if P then Some e else None) = None \<longleftrightarrow> \<not> P" "(if P then None else Some e) = None \<longleftrightarrow> P"
  by simp_all

lemma collect_ok: "(\<And>x. x \<in> set xs \<Longrightarrow> \<exists>y. f x = Inr y) \<Longrightarrow> \<exists>ys. collect_results (map f xs) = Inr ys"
proof (induction xs)
  case (Cons x xs)
  then obtain y ys where "f x = Inr y" "collect_results (map f xs) = Inr ys" by (meson list.set_intros)
  then show ?case by simp
qed simp

lemma collect_mem: "collect_results (map f xs) = Inr ys \<Longrightarrow> y \<in> set ys \<Longrightarrow> \<exists>x\<in>set xs. f x = Inr y"
proof -
  assume "collect_results (map f xs) = Inr ys" and y: "y \<in> set ys"
  then have "map f xs = map Inr ys" by (simp add: collect_results_Inr)
  moreover have "Inr y \<in> set (map Inr ys)" using y by simp
  ultimately have "Inr y \<in> set (map f xs)" by simp
  then show ?thesis by auto
qed

lemma client_list_accepted:
  "first_error (map (client_list_error allowed) (enumerate i lines)) = None \<Longrightarrow> \<exists>m'. matcher_lines j m lines = Inr m'"
proof (induction lines arbitrary: i j m)
  case (Cons line lines)
  let ?item = "trim (case split_whitespace line of [] \<Rightarrow> [] | w # _ \<Rightarrow> w)"
  have hd: "client_list_error allowed (i, line) = None"
    and tl: "first_error (map (client_list_error allowed) (enumerate (Suc i) lines)) = None"
    using Cons.prems by (auto split: option.splits simp del: client_list_error.simps)
  note IH = Cons.IH[OF tl]
  show ?case
  proof (cases "skip_line ?item")
    case True
    then show ?thesis using IH by (simp add: skip_line_def Let_def)
  next
    case False
    then have v: "validate_ip_or_cidr ?item" using hd by (simp add: Let_def split: if_splits)
    show ?thesis
    proof (cases "parse_ip ?item")
      case None
      then show ?thesis using IH False checked_prefix[OF v None] by (auto simp: skip_line_def Let_def)
    next
      case (Some ip)
      then show ?thesis using IH False by (simp add: skip_line_def Let_def)
    qed
  qed
qed simp

lemma validated_list: "validate_client_list allowed value = None \<Longrightarrow> \<exists>m. matcher_parse value = Inr m"
  unfolding validate_client_list_def matcher_parse_def by (rule client_list_accepted)

lemma validated_access:
  assumes "validate_client_list True a = None" and "validate_client_list False b = None"
  shows "\<exists>x. access_from_config a b limit = Inr x"
  using validated_list[OF assms(1)] validated_list[OF assms(2)] by (auto simp: access_from_config_def)

lemma route_spec_network:
  "client_route_spec_of url_parse http r = Inr spec \<Longrightarrow> validate_ip_or_cidr (cl_network spec)"
  by (auto simp: client_route_spec_of_def split: sum.splits prod.splits if_splits)

lemma validated_client_routes:
  assumes "parse_client_upstream_rules url_parse value http = Inr specs"
  shows "\<exists>cs. collect_results (map (build_client_route dnssec) specs) = Inr cs"
proof (rule collect_ok)
  fix spec assume "spec \<in> set specs"
  then have v: "validate_ip_or_cidr (cl_network spec)"
    using collect_mem[OF assms[unfolded parse_client_upstream_rules_def]] route_spec_network by blast
  show "\<exists>y. build_client_route dnssec spec = Inr y"
    using checked_network[OF v, of "''client upstream''"] by (auto simp: build_client_route_def)
qed

lemma filtering_rule_network: "parse_filtering_rule il = Inr spec \<Longrightarrow> validate_ip_or_cidr (fr_network spec)"
  by (cases il) (auto simp: Let_def split: option.splits prod.splits if_splits sum.splits)

lemma profiles_defined:
  assumes "name \<in> set RESERVED_PROFILES \<or> name \<in> set (map pg_name groups)"
  shows "\<exists>p. build_profiles groups safe services name = Some p"
proof -
  have dom_foldl: "dom (foldl (\<lambda>m p. m(pf_name p \<mapsto> p)) m ps) = dom m \<union> pf_name ` set ps" for m and ps :: "policy_profile list"
    by (induction ps arbitrary: m) auto
  have "pf_name ` set (map profile_from_spec groups) = set (map pg_name groups)"
    by (simp add: image_image profile_from_spec_def)
  then have "dom (build_profiles groups safe services) = set RESERVED_PROFILES \<union> set (map pg_name groups)"
    unfolding build_profiles_def dom_map_upds dom_fun_upd dom_foldl by (auto simp: RESERVED_PROFILES_def)
  then have "name \<in> dom (build_profiles groups safe services)" using assms by blast
  then show ?thesis by blast
qed

lemma validated_policies:
  assumes "parse_client_filtering_rules value = Inr specs"
    and "validate_client_policy_profiles specs groups = None"
  shows "\<exists>rules. collect_results (map (build_rule (build_profiles groups safe services)) specs) = Inr rules"
proof (rule collect_ok)
  fix spec assume s: "spec \<in> set specs"
  then have v: "validate_ip_or_cidr (fr_network spec)"
    using collect_mem[OF assms(1)[unfolded parse_client_filtering_rules_def]] filtering_rule_network by blast
  have "fr_profile spec \<in> set RESERVED_PROFILES \<or> fr_profile spec \<in> set (map pg_name groups)"
  proof (rule ccontr)
    assume "\<not> ?thesis"
    then have "find (\<lambda>r. fr_profile r \<notin> set RESERVED_PROFILES \<and> fr_profile r \<notin> set (map pg_name groups)) specs \<noteq> None"
      using s unfolding find_None_iff by blast
    then show False using assms(2) by (auto simp: validate_client_policy_profiles_def)
  qed
  then obtain p where "build_profiles groups safe services (fr_profile spec) = Some p" using profiles_defined by blast
  then show "\<exists>y. build_rule (build_profiles groups safe services) spec = Inr y"
    using checked_network[OF v, of "''client policy''"] by (auto simp: build_rule_def)
qed


lemma validated_cache:
  assumes "ac_dns_cache_enabled c" and "\<not> (ac_dns_cache_enabled c \<and> ac_dns_cache_size c = 0)"
  shows "\<exists>s. store_from_config (cache_config_of c) n = Some s \<and> cs_shards s \<noteq> []"
proof -
  have "List.map_filter (\<lambda>_. Some x) ys = map (\<lambda>_. x) ys" for x :: dns_cache and ys :: "nat list"
    by (simp add: List.map_filter_def)
  then show ?thesis
    using assms by (simp add: store_from_config_def cache_config_of_def cache_from_config_def Let_def
        store_shard_count_def less_max_iff_disj)
qed

lemma validated_custom_ip:
  assumes "validate_blocking_config c = None"
  shows "ac_blocking_mode c = CustomIp \<longrightarrow>
    (let policy = policy_from_config (ac_blocking_mode c) (ac_blocking_response_ttl c)
           (ac_blocking_custom_ipv4 c) (ac_blocking_custom_ipv6 c)
     in bp_custom_ipv4 policy \<noteq> None \<or> bp_custom_ipv6 policy \<noteq> None)"
  using assms by (auto simp: validate_blocking_config_def policy_from_config_def Let_def split: if_splits)

lemma validate_parts:
  assumes "validate url_parse c = None"
  obtains addrs upstreams fallbacks domains clients rules groups services bootstrap
  where "listen_socket_addrs c = Inr addrs"
    "parse_upstream_servers url_parse (ac_upstream_dns c) (ac_allow_insecure_http c) = Inr upstreams"
    "parse_optional_upstream_servers url_parse (ac_fallback_dns c) (ac_allow_insecure_http c) = Inr fallbacks"
    "parse_domain_upstream_rules url_parse (ac_domain_upstream_rules c) (ac_allow_insecure_http c) = Inr domains"
    "parse_client_upstream_rules url_parse (ac_client_upstream_rules c) (ac_allow_insecure_http c) = Inr clients"
    "parse_client_filtering_rules (ac_client_filtering_rules c) = Inr rules"
    "parse_client_policy_groups (ac_client_policy_groups c) = Inr groups"
    "validate_client_policy_profiles rules groups = None"
    "parse_blocked_services (ac_family_blocked_services c) = Inr services"
    "parse_bootstrap_servers (ac_bootstrap_dns c) = Inr bootstrap"
    "ac_dnssec_enabled c \<Longrightarrow> \<not> list_ex is_insecure_doh (upstreams @ fallbacks @ concat (map dr_upstreams domains) @
       concat (map cl_upstreams clients))"
    "validate_limits url_parse c = None"
  using assms unfolding validate_def Let_def sum_error_None
  by (auto split: option.splits if_splits simp del: list_ex_append)

section \<open>The default configuration\<close>

text \<open>The URL parser of the witnesses: it reads nothing of an \<open>https\<close> address but its host and the
  default port.\<close>

definition sample_url :: url_parser where
  "sample_url s = (if starts_with ''https://'' s
     then Some \<lparr>url_scheme = ''https'', url_username = [], url_password = None, url_query = None,
       url_fragment = None, url_path = ''/dns-query'',
       url_host_str = Some (takeWhile (\<lambda>c. c \<noteq> CHR ''/'') (drop 8 s)), url_port = None,
       url_port_or_known_default = Some 443\<rparr> else None)"

definition knows_url :: "url_parser \<Rightarrow> string \<Rightarrow> bool" where
  "knows_url url_parse s =
     (case url_parse s of None \<Rightarrow> False
      | Some u \<Rightarrow> url_host_str u \<noteq> None \<and> url_port_or_known_default u \<noteq> None)"

lemma knows_doh: "knows_url url_parse s \<Longrightarrow> parse_doh_upstream url_parse s = Inr (Doh s)"
  by (auto simp: knows_url_def parse_doh_upstream_def split: option.splits)

lemma default_upstreams:
  assumes "knows_url url_parse ''https://dns.alidns.com/dns-query''" "knows_url url_parse ''https://doh.pub/dns-query''"
  shows "parse_upstream_servers url_parse default_upstream_dns False =
    Inr [Doh ''https://dns.alidns.com/dns-query'', Doh ''https://doh.pub/dns-query'',
         Udp (SocketV4 0xDF050505 53), Udp (SocketV4 0x771D1D1D 53)]"
proof -
  have l: "content_lines default_upstream_dns = [''https://dns.alidns.com/dns-query'', ''https://doh.pub/dns-query'',
      ''223.5.5.5'', ''119.29.29.29'']"
    by code_simp
  have p: "parse_dns_upstream ''223.5.5.5'' = Inr (Udp (SocketV4 0xDF050505 53))"
    "parse_dns_upstream ''119.29.29.29'' = Inr (Udp (SocketV4 0x771D1D1D 53))" by code_simp+
  have k: "parse_upstream_server url_parse ''https://dns.alidns.com/dns-query'' False =
      parse_doh_upstream url_parse ''https://dns.alidns.com/dns-query''"
    "parse_upstream_server url_parse ''https://doh.pub/dns-query'' False =
      parse_doh_upstream url_parse ''https://doh.pub/dns-query''"
    "parse_upstream_server url_parse ''223.5.5.5'' False = parse_dns_upstream ''223.5.5.5''"
    "parse_upstream_server url_parse ''119.29.29.29'' False = parse_dns_upstream ''119.29.29.29''"
    by (simp_all add: parse_upstream_server_def starts_with_def)
  show ?thesis
    unfolding parse_upstream_servers_def l list.map k knows_doh[OF assms(1)] knows_doh[OF assms(2)] p by simp
qed

lemma default_services: "case parse_blocked_services default_family_blocked_services of Inl _ \<Rightarrow> False | Inr _ \<Rightarrow> True"
  by code_simp

lemma default_bootstrap: "case parse_bootstrap_servers default_bootstrap_dns of Inl _ \<Rightarrow> False | Inr _ \<Rightarrow> True"
  by code_simp

lemma default_fallback: "parse_optional_upstream_servers url_parse default_fallback_dns False = 
    Inr [Udp (SocketV4 0x72727272 53), Udp (SocketV4 0xB44C4C4C 53)]"
  by code_simp

text \<open>A text of the form \<open>head::tail\<close> is an address; its value is not computed here.\<close>

lemma short_v6:
  assumes "read_ipv4 s = None" and "read_groups 8 0 [] s = (h, False, r)" and "length h < 8"
    and "strip_prefix ''::'' r = Some rest" and "read_groups (8 - (length h + 1)) 0 [] rest = (t, v, [])"
  shows "\<exists>a. parse_ipv6 s = Some a \<and> parse_ip s = Some (IpV6 a)"
  using assms by (simp add: parse_ip_def parse_ipv6_def read_ipv6_def at_end_def)

lemma unspecified_v6: "\<exists>a. parse_ipv6 ''::'' = Some a \<and> parse_ip ''::'' = Some (IpV6 a)"
  by (rule short_v6[where h = "[]" and r = "''::''" and rest = "[]" and t = "[]" and v = False]) code_simp+

lemma loopback_v6: "\<exists>a. parse_ipv6 ''::1'' = Some a \<and> parse_ip ''::1'' = Some (IpV6 a)"
  by (rule short_v6[where h = "[]" and r = "''::1''" and rest = "''1''" and t = "[1]" and v = False]) code_simp+

lemma unique_local_v6: "\<exists>a. parse_ipv6 ''fc00::'' = Some a \<and> parse_ip ''fc00::'' = Some (IpV6 a)"
  by (rule short_v6[where h = "[0xfc00]" and r = "''::''" and rest = "[]" and t = "[]" and v = False]) code_simp+

lemma link_local_v6: "\<exists>a. parse_ipv6 ''fe80::'' = Some a \<and> parse_ip ''fe80::'' = Some (IpV6 a)"
  by (rule short_v6[where h = "[0xfe80]" and r = "''::''" and rest = "[]" and t = "[]" and v = False]) code_simp+

lemma default_listen: "\<exists>a. listen_socket_addrs default_config = Inr [SocketV4 0 53, SocketV6 a 53 0]"
proof -
  have t: "trim ''0.0.0.0'' = ''0.0.0.0''" "trim ''::'' = ''::''" "parse_ip ''0.0.0.0'' = Some (IpV4 0)" by code_simp+
  show ?thesis
    using unspecified_v6 t
    by (auto simp: listen_socket_addrs_def listen_socket_addr_def default_config_def default_listen_host_def
        default_listen_port_def default_listen_ipv6_def default_listen_ipv6_host_def Let_def)
qed

lemma default_filters: "validate_filters {} default_filters False = None"
  by code_simp

lemma default_clients: "validate_client_list True default_allowed_clients = None"
proof -
  have v4: "list_all validate_ip_or_cidr [''127.0.0.0/8'', ''10.0.0.0/8'', ''172.16.0.0/12'', ''192.168.0.0/16'']"
    by code_simp
  have parts: "split_once (CHR ''/'') ''::1/128'' = Some (''::1'', ''128'')" "parse_u8 ''128'' = Some 128"
    "split_once (CHR ''/'') ''fc00::/7'' = Some (''fc00::'', ''7'')" "parse_u8 ''7'' = Some 7"
    "split_once (CHR ''/'') ''fe80::/10'' = Some (''fe80::'', ''10'')" "parse_u8 ''10'' = Some 10" by code_simp+
  have v6: "validate_ip_or_cidr ''::1/128''" "validate_ip_or_cidr ''fc00::/7''" "validate_ip_or_cidr ''fe80::/10''"
    using parts loopback_v6 unique_local_v6 link_local_v6 by (auto simp: validate_ip_or_cidr_def)
  have lines: "map (\<lambda>(i, line). trim (case split_whitespace line of [] \<Rightarrow> [] | w # _ \<Rightarrow> w))
      (enumerate 1 (str_lines default_allowed_clients)) =
      [''127.0.0.0/8'', ''::1/128'', ''10.0.0.0/8'', ''172.16.0.0/12'', ''192.168.0.0/16'', ''fc00::/7'', ''fe80::/10'']"
    by code_simp
  have "client_list_error True il = None" if "validate_ip_or_cidr ((\<lambda>(i, line). trim (case split_whitespace line of [] \<Rightarrow> [] | w # _ \<Rightarrow> w)) il)" for il
    using that by (cases il) (simp add: Let_def)
  moreover have "\<forall>x\<in>set (map (\<lambda>(i, line). trim (case split_whitespace line of [] \<Rightarrow> [] | w # _ \<Rightarrow> w))
      (enumerate 1 (str_lines default_allowed_clients))). validate_ip_or_cidr x"
    unfolding lines using v4 v6 by simp
  ultimately show ?thesis by (auto simp: validate_client_list_def first_error_None simp del: client_list_error.simps)
qed

lemma default_domains: "validate_domain_list default_rebinding_allowed_domains = None"
  by code_simp

lemma default_monitoring:
  "case monitoring_api_socket_addr default_config of Inl _ \<Rightarrow> False | Inr _ \<Rightarrow> True"
  by code_simp

lemma trim_Nil: "trim [] = []" by code_simp

lemmas default_numbers = default_filter_update_interval_hours_def default_filter_max_size_mb_def
  default_web_admin_session_idle_minutes_def default_query_log_retention_hours_def
  default_statistics_retention_hours_def default_security_event_retention_hours_def
  default_dns_cache_size_def default_dns_cache_min_ttl_def default_dns_cache_max_ttl_def
  default_dns_cache_optimistic_max_stale_seconds_def default_dns_cache_prefetch_hit_threshold_def
  default_blocking_response_ttl_def default_rate_limit_per_second_def
  default_runtime_watchdog_interval_seconds_def

lemma default_limits: "validate_limits url_parse default_config = None"
proof -
  have m: "(case monitoring_api_socket_addr default_config of Inl e \<Rightarrow> Some e | Inr _ \<Rightarrow> None) = None"
    using default_monitoring by (auto split: sum.splits)
  have p: "validate_filter_proxy url_parse default_config = None"
    by (simp add: validate_filter_proxy_def default_config_def trim_Nil)
  have e: "validate_client_list False [] = None" "validate_dns_rewrites [] = None" "validate_client_names [] = None"
    "validate_domain_list [] = None" by code_simp+
  have b: "validate_blocking_config default_config = None"
    by (simp add: validate_blocking_config_def default_config_def)
  have f: "ac_filters default_config = default_filters" "ac_allowed_clients default_config = default_allowed_clients"
    "ac_blocked_clients default_config = []" "ac_allow_insecure_http default_config = False"
    "ac_rebinding_allowed_domains default_config = default_rebinding_allowed_domains"
    "ac_dns_rewrites default_config = []" "ac_client_names default_config = []"
    "ac_query_log_ignored_domains default_config = []" "ac_statistics_ignored_domains default_config = []"
    by (simp_all add: default_config_def)
  show ?thesis
    unfolding validate_limits_def first_error_None list.set ball_simps check_None f
    by (simp add: m p b e default_filters default_clients default_domains,
      simp add: default_config_def default_numbers CURRENT_CONFIG_SCHEMA_VERSION_def)
qed

lemma default_valid:
  assumes "knows_url url_parse ''https://dns.alidns.com/dns-query''" "knows_url url_parse ''https://doh.pub/dns-query''"
  shows "validate url_parse default_config = None"
proof -
  have e: "parse_domain_upstream_rules url_parse [] False = Inr []" "parse_client_upstream_rules url_parse [] False = Inr []"
    "parse_client_filtering_rules [] = Inr []" "parse_client_policy_groups [] = Inr []"
    "validate_client_policy_profiles [] [] = None" by code_simp+
  obtain l s b where r: "listen_socket_addrs default_config = Inr l"
    "parse_blocked_services default_family_blocked_services = Inr s"
    "parse_bootstrap_servers default_bootstrap_dns = Inr b"
    using default_listen default_services default_bootstrap by (auto split: sum.splits)
  have f: "ac_allow_insecure_http default_config = False" "ac_upstream_dns default_config = default_upstream_dns"
    "ac_fallback_dns default_config = default_fallback_dns" "ac_domain_upstream_rules default_config = []"
    "ac_client_upstream_rules default_config = []" "ac_client_filtering_rules default_config = []"
    "ac_client_policy_groups default_config = []" "ac_bootstrap_dns default_config = default_bootstrap_dns"
    "ac_family_blocked_services default_config = default_family_blocked_services"
    "ac_dnssec_enabled default_config = False"
    by (simp_all add: default_config_def)
  show ?thesis
    unfolding validate_def Let_def f sum_error_None
    using e r default_upstreams[OF assms] default_fallback default_limits by simp
qed

section \<open>Servers without encryption\<close>

text \<open>The servers a configuration names, over its four texts.\<close>

definition configured_server :: "url_parser \<Rightarrow> app_config \<Rightarrow> upstream_server \<Rightarrow> bool" where
  "configured_server url_parse c u =
     (let http = ac_allow_insecure_http c
      in (case parse_upstream_servers url_parse (ac_upstream_dns c) http of Inl _ \<Rightarrow> False | Inr us \<Rightarrow> u \<in> set us) \<or>
         (case parse_optional_upstream_servers url_parse (ac_fallback_dns c) http of
            Inl _ \<Rightarrow> False | Inr us \<Rightarrow> u \<in> set us) \<or>
         (case parse_domain_upstream_rules url_parse (ac_domain_upstream_rules c) http of
            Inl _ \<Rightarrow> False | Inr rs \<Rightarrow> u \<in> set (concat (map dr_upstreams rs))) \<or>
         (case parse_client_upstream_rules url_parse (ac_client_upstream_rules c) http of
            Inl _ \<Rightarrow> False | Inr rs \<Rightarrow> u \<in> set (concat (map cl_upstreams rs))))"

lemma secure_server: "parse_upstream_server url_parse v False = Inr u \<Longrightarrow> \<not> is_insecure_doh u"
proof -
  assume p: "parse_upstream_server url_parse v False = Inr u"
  have "\<not> is_insecure_doh u" if "parse_encrypted_upstream url_parse v scheme build = Inr u" "build \<in> {Tls, Quic}" for scheme build
    using that by (auto simp: parse_encrypted_upstream_def split: option.splits if_splits)
  moreover have "\<not> is_insecure_doh u" if "parse_dns_upstream v = Inr u"
    using that by (auto simp: parse_dns_upstream_def Let_def split: option.splits if_splits prod.splits)
  moreover have "\<not> is_insecure_doh u" if "starts_with ''https://'' v" "parse_doh_upstream url_parse v = Inr u"
    using that by (auto simp: parse_doh_upstream_def starts_with_def split: option.splits if_splits
        dest!: arg_cong[where f = "\<lambda>s. s ! 4"])
  ultimately show ?thesis
    using p by (auto simp: parse_upstream_server_def split: if_splits)
qed

lemma secure_route:
  "parse_route_upstreams url_parse i v False = Inr us \<Longrightarrow> u \<in> set us \<Longrightarrow> \<not> is_insecure_doh u"
  by (auto simp: parse_route_upstreams_def split: sum.splits if_splits dest!: collect_mem dest: secure_server)

lemma secure_spec:
  "domain_route_spec_of url_parse False r = Inr d \<Longrightarrow> u \<in> set (dr_upstreams d) \<Longrightarrow> \<not> is_insecure_doh u"
  "client_route_spec_of url_parse False r = Inr cl \<Longrightarrow> u \<in> set (cl_upstreams cl) \<Longrightarrow> \<not> is_insecure_doh u"
  by (auto simp: domain_route_spec_of_def client_route_spec_of_def split: sum.splits prod.splits option.splits if_splits
      dest: secure_route)

lemma secure_texts:
  "parse_upstream_servers url_parse v False = Inr us \<Longrightarrow> u \<in> set us \<Longrightarrow> \<not> is_insecure_doh u"
  "parse_optional_upstream_servers url_parse v False = Inr us \<Longrightarrow> u \<in> set us \<Longrightarrow> \<not> is_insecure_doh u"
  "parse_domain_upstream_rules url_parse v False = Inr ds \<Longrightarrow> d \<in> set ds \<Longrightarrow> u \<in> set (dr_upstreams d) \<Longrightarrow> \<not> is_insecure_doh u"
  "parse_client_upstream_rules url_parse v False = Inr cs \<Longrightarrow> x \<in> set cs \<Longrightarrow> u \<in> set (cl_upstreams x) \<Longrightarrow> \<not> is_insecure_doh u"
  by (auto simp: parse_upstream_servers_def parse_optional_upstream_servers_def parse_domain_upstream_rules_def
      parse_client_upstream_rules_def split: sum.splits if_splits dest!: collect_mem dest: secure_server secure_spec)

section \<open>The same errors in two places\<close>

lemma unchecked_prefix: "\<not> validate_ip_or_cidr s \<Longrightarrow> parse_ip s = None \<and> ip_prefix_parse s = None"
proof -
  assume n: "\<not> validate_ip_or_cidr s"
  have "ip_prefix_parse s = None"
  proof (rule ccontr)
    assume "ip_prefix_parse s \<noteq> None"
    then obtain a b ip p where "split_once (CHR ''/'') s = Some (a, b)" "parse_ip a = Some ip" "parse_u8 b = Some p"
      "ip_prefix_new ip p \<noteq> None" by (auto simp: ip_prefix_parse_def split: bind_splits)
    then show False using n by (cases ip) (auto simp: validate_ip_or_cidr_def ip_prefix_new_def split: if_splits)
  qed
  then show ?thesis using n by (auto simp: validate_ip_or_cidr_def)
qed

lemma client_list_rejected:
  "matcher_lines j m lines = Inl i \<Longrightarrow>
    \<exists>item. first_error (map (client_list_error allowed) (enumerate (Suc j) lines)) =
      Some (InvalidLine (if allowed then ''allowed clients'' else ''denied clients'') i item)"
proof (induction lines arbitrary: j m)
  case (Cons line lines)
  let ?item = "trim (case split_whitespace line of [] \<Rightarrow> [] | w # _ \<Rightarrow> w)"
  show ?case
  proof (cases "skip_line ?item \<or> validate_ip_or_cidr ?item")
    case True
    then have "client_list_error allowed (Suc j, line) = None" by (auto simp: Let_def)
    moreover have "\<exists>m'. matcher_lines (j + 1) m' lines = Inl i"
    proof (cases "skip_line ?item")
      case True
      then show ?thesis using Cons.prems by (auto simp: skip_line_def Let_def)
    next
      case False
      then have "validate_ip_or_cidr ?item" using True by simp
      then show ?thesis using Cons.prems False checked_prefix[of ?item]
        by (auto simp: skip_line_def Let_def split: option.splits)
    qed
    ultimately show ?thesis using Cons.IH by (auto simp del: client_list_error.simps)
  next
    case False
    then show ?thesis using Cons.prems unchecked_prefix[of ?item]
      by (simp add: skip_line_def Let_def)
  qed
qed simp

lemma client_list_refused:
  "first_error (map (client_list_error allowed) (enumerate i lines)) \<noteq> None \<Longrightarrow> \<exists>k. matcher_lines j m lines = Inl k"
proof (induction lines arbitrary: i j m)
  case (Cons line lines)
  let ?item = "trim (case split_whitespace line of [] \<Rightarrow> [] | w # _ \<Rightarrow> w)"
  show ?case
  proof (cases "skip_line ?item \<or> validate_ip_or_cidr ?item")
    case True
    then have "client_list_error allowed (i, line) = None" by (auto simp: Let_def)
    then have "first_error (map (client_list_error allowed) (enumerate (Suc i) lines)) \<noteq> None"
      using Cons.prems by (simp del: client_list_error.simps)
    note IH = Cons.IH[OF this]
    show ?thesis using IH checked_prefix[of ?item] True by (auto simp: skip_line_def Let_def split: option.splits)
  next
    case False
    then show ?thesis using unchecked_prefix[of ?item] by (simp add: skip_line_def Let_def)
  qed
qed simp

section \<open>Properties\<close>

text \<open>A validated configuration can be run: there is an address to listen on and a server to
  ask, every constructor that reads the configuration succeeds, an enabled cache has a shard and
  a custom blocking mode has an address to answer with.\<close>

theorem validated_config_builds:
  assumes "validate url_parse c = None"
  shows "(\<exists>addr addrs. listen_socket_addrs c = Inr (addr # addrs)) \<and>
    (\<exists>u us. parse_upstream_servers url_parse (ac_upstream_dns c) (ac_allow_insecure_http c) = Inr (u # us)) \<and>
    (\<exists>rs. routes_from_config url_parse c = Inr rs) \<and>
    (\<exists>p. policies_from_config c = Inr p) \<and>
    (\<exists>a. access_from_config (ac_allowed_clients c) (ac_blocked_clients c) (ac_rate_limit_per_second c) = Inr a) \<and>
    (ac_dns_cache_enabled c \<longrightarrow> (\<exists>s. store_from_config (cache_config_of c) n = Some s \<and> cs_shards s \<noteq> [])) \<and>
    (ac_blocking_mode c = CustomIp \<longrightarrow>
       (let policy = policy_from_config (ac_blocking_mode c) (ac_blocking_response_ttl c)
              (ac_blocking_custom_ipv4 c) (ac_blocking_custom_ipv6 c)
        in bp_custom_ipv4 policy \<noteq> None \<or> bp_custom_ipv6 policy \<noteq> None))"
  using assms
proof (rule validate_parts)
  fix addrs upstreams fallbacks domains clients rules groups services bootstrap
  assume parts: "listen_socket_addrs c = Inr addrs"
    "parse_upstream_servers url_parse (ac_upstream_dns c) (ac_allow_insecure_http c) = Inr upstreams"
    "parse_domain_upstream_rules url_parse (ac_domain_upstream_rules c) (ac_allow_insecure_http c) = Inr domains"
    "parse_client_upstream_rules url_parse (ac_client_upstream_rules c) (ac_allow_insecure_http c) = Inr clients"
    "parse_client_filtering_rules (ac_client_filtering_rules c) = Inr rules"
    "parse_client_policy_groups (ac_client_policy_groups c) = Inr groups"
    "validate_client_policy_profiles rules groups = None"
    "parse_blocked_services (ac_family_blocked_services c) = Inr services"
    "parse_bootstrap_servers (ac_bootstrap_dns c) = Inr bootstrap"
    and limits: "validate_limits url_parse c = None"
  have lim: "validate_client_list True (ac_allowed_clients c) = None" "validate_client_list False (ac_blocked_clients c) = None"
    "\<not> (ac_dns_cache_enabled c \<and> ac_dns_cache_size c = 0)" "validate_blocking_config c = None"
    using limits unfolding validate_limits_def first_error_None
    by (simp_all only: list.set ball_simps check_None not_False_eq_True)
  have "\<exists>addr addrs. listen_socket_addrs c = Inr (addr # addrs)"
    using parts(1) by (auto simp: listen_socket_addrs_def Let_def split: sum.splits if_splits option.splits)
  moreover have "\<exists>u us. parse_upstream_servers url_parse (ac_upstream_dns c) (ac_allow_insecure_http c) = Inr (u # us)"
    using parts(2) by (cases upstreams) (auto simp: parse_upstream_servers_def split: sum.splits if_splits)
  moreover have "\<exists>rs. routes_from_config url_parse c = Inr rs"
    using parts(3,4,9) validated_client_routes[OF parts(4), of "ac_dnssec_enabled c"] by (auto simp: routes_from_config_def)
  moreover have "\<exists>p. policies_from_config c = Inr p"
    using parts(5,6,8) validated_policies[OF parts(5,7), of "ac_family_safe_search c" services] by (auto simp: policies_from_config_def)
  moreover have "ac_dns_cache_enabled c \<longrightarrow>
      (\<exists>s. store_from_config (cache_config_of c) n = Some s \<and> cs_shards s \<noteq> [])"
    using validated_cache lim(3) by simp
  ultimately show ?thesis
    by (intro conjI validated_access[OF lim(1,2)] validated_custom_ip[OF lim(4)])
qed

theorem validated_config_builds_witness:
  "\<exists>p. policies_from_config default_config = Inr p"
proof -
  have "validate sample_url default_config = None"
    by (rule default_valid) (simp_all add: knows_url_def sample_url_def starts_with_def)
  from validated_config_builds[OF this, of 1] show ?thesis by blast
qed



text \<open>C19. With DNSSEC on, or unless plain HTTP is allowed, no server of a validated configuration, in the
  upstream, fallback or routing texts, is reached over plain HTTP.\<close>

theorem no_plain_http:
  assumes "validate url_parse c = None" and "ac_dnssec_enabled c \<or> \<not> ac_allow_insecure_http c"
    and "configured_server url_parse c u"
  shows "\<not> is_insecure_doh u"
proof (cases "ac_allow_insecure_http c")
  case False
  then show ?thesis
    using assms(3) by (auto simp: configured_server_def Let_def split: sum.splits dest: secure_texts)
next
  case True
  then have "ac_dnssec_enabled c" using assms(2) by simp
  show ?thesis using assms(1)
  proof (rule validate_parts)
    fix addrs upstreams fallbacks domains clients rules groups services bootstrap
    assume parts: "parse_upstream_servers url_parse (ac_upstream_dns c) (ac_allow_insecure_http c) = Inr upstreams"
      "parse_optional_upstream_servers url_parse (ac_fallback_dns c) (ac_allow_insecure_http c) = Inr fallbacks"
      "parse_domain_upstream_rules url_parse (ac_domain_upstream_rules c) (ac_allow_insecure_http c) = Inr domains"
      "parse_client_upstream_rules url_parse (ac_client_upstream_rules c) (ac_allow_insecure_http c) = Inr clients"
      and sec: "ac_dnssec_enabled c \<Longrightarrow> \<not> list_ex is_insecure_doh (upstreams @ fallbacks @
        concat (map dr_upstreams domains) @ concat (map cl_upstreams clients))"
    have "u \<in> set (upstreams @ fallbacks @ concat (map dr_upstreams domains) @ concat (map cl_upstreams clients))"
      using assms(3) unfolding configured_server_def Let_def parts sum.case set_append by blast
    then show ?thesis using sec[OF \<open>ac_dnssec_enabled c\<close>] unfolding list_ex_iff by blast
  qed
qed

theorem no_plain_http_witness:
  "\<not> is_insecure_doh (Doh ''https://doh.pub/dns-query'')"
proof (rule no_plain_http[of sample_url default_config])
  have k: "knows_url sample_url ''https://dns.alidns.com/dns-query''" "knows_url sample_url ''https://doh.pub/dns-query''"
    by (simp_all add: knows_url_def sample_url_def starts_with_def)
  then show "validate sample_url default_config = None" by (rule default_valid)
  show "ac_dnssec_enabled default_config \<or> \<not> ac_allow_insecure_http default_config"
    by (simp add: default_config_def)
  have "ac_upstream_dns default_config = default_upstream_dns" "ac_allow_insecure_http default_config = False"
    by (simp_all add: default_config_def)
  then show "configured_server sample_url default_config (Doh ''https://doh.pub/dns-query'')"
    using default_upstreams[OF k] by (simp add: configured_server_def Let_def)
qed

text \<open>C18. A list of clients is refused by the validation exactly when the access control could not be
  built from it, and both name the same line.\<close>

theorem client_list_errors_agree:
  "case matcher_parse value of
     Inr _ \<Rightarrow> validate_client_list allowed value = None
   | Inl i \<Rightarrow> \<exists>item. validate_client_list allowed value =
       Some (InvalidLine (if allowed then ''allowed clients'' else ''denied clients'') i item)"
proof (cases "matcher_parse value")
  case (Inl i)
  then show ?thesis
    using client_list_rejected[of 0 empty_matcher "str_lines value" i allowed]
    by (simp add: matcher_parse_def validate_client_list_def)
next
  case (Inr m)
  have "validate_client_list allowed value = None"
  proof (rule ccontr)
    assume "validate_client_list allowed value \<noteq> None"
    with client_list_refused[of allowed "Suc 0" "str_lines value" 0 empty_matcher] Inr show False
      by (simp add: matcher_parse_def validate_client_list_def)
  qed
  then show ?thesis using Inr by simp
qed

end
