(* ===== verification/TaskPool.thy ===== *)
theory TaskPool
  imports Prelude
begin

text \<open>
  \<open>dns/task_pool.rs\<close>: the elastic pool of threads, as a step relation.  A worker thread and a caller
  of \<open>try_spawn\<close> each have a program counter; a step is one atomic operation of one of them: an
  access to an atomic counter, a critical section of the mutex, a wait or a notification.  The
  mutex is held across steps only by a worker that decides whether to retire.  Wake-ups may be
  spurious and a timeout may come at any time.  Whether the system may refuse a new thread is a
  parameter of the relation.  The two histories of accepted and started tasks are ghost state.
  The mutex is never poisoned, since no code that can panic runs while it is held.
\<close>

section \<open>The pool\<close>

definition TASK_POOL_MIN_THREADS :: nat where "TASK_POOL_MIN_THREADS = 8"
definition TASK_POOL_MAX_THREADS :: nat where "TASK_POOL_MAX_THREADS = 128"
definition TASK_POOL_MAX_THREADS_PER_CORE :: nat where "TASK_POOL_MAX_THREADS_PER_CORE = 8"
definition TASK_POOL_QUEUE_CAPACITY :: nat where "TASK_POOL_QUEUE_CAPACITY = 4096"
definition COORDINATION_POOL_THREADS :: nat where "COORDINATION_POOL_THREADS = 4"
definition COORDINATION_POOL_QUEUE_CAPACITY :: nat where "COORDINATION_POOL_QUEUE_CAPACITY = 256"

record pool_limits =
  pl_min :: nat
  pl_max :: nat
  pl_capacity :: nat

datatype pool_worker =
    AtLock | Waiting | Woken bool | Holding bool | Retiring nat | Running nat | Exited

datatype pool_client =
    Queueing nat | Notifying nat | CheckIdle nat | CheckCount | LoadCount | CasCount nat | Starting
  | Returned bool

record pool_state =
  tp_queue :: "nat list"
  tp_locked :: bool
  tp_count :: nat
  tp_idle :: nat
  tp_workers :: "pool_worker list"
  tp_clients :: "pool_client list"
  tp_accepted :: "nat list"
  tp_started :: "nat list"

definition pool_limits_new :: "nat \<Rightarrow> nat \<Rightarrow> nat \<Rightarrow> pool_limits" where
  "pool_limits_new mn mx cap =
     (let mn = max mn 1 in \<lparr>pl_min = mn, pl_max = max mx mn, pl_capacity = max cap 1\<rparr>)"

definition clamp :: "nat \<Rightarrow> nat \<Rightarrow> nat \<Rightarrow> nat" where
  "clamp x lo hi = (if x < lo then lo else if hi < x then hi else x)"

text \<open>\<open>task_pool\<close> for a number of cores (a positive \<open>usize\<close>), and \<open>coordination_pool\<close>.\<close>

definition task_pool_limits :: "nat \<Rightarrow> pool_limits" where
  "task_pool_limits cores =
     (let mn = clamp cores TASK_POOL_MIN_THREADS 32;
          mx = clamp (min (cores * TASK_POOL_MAX_THREADS_PER_CORE) (2 ^ 64 - 1)) mn TASK_POOL_MAX_THREADS
      in pool_limits_new mn mx TASK_POOL_QUEUE_CAPACITY)"

definition coordination_pool_limits :: pool_limits where
  "coordination_pool_limits =
     pool_limits_new COORDINATION_POOL_THREADS COORDINATION_POOL_THREADS COORDINATION_POOL_QUEUE_CAPACITY"

text \<open>\<open>TaskPool::new\<close>: for each of the first threads, whether the system creates it.\<close>

fun start_workers :: "bool list \<Rightarrow> pool_state \<Rightarrow> pool_state" where
  "start_workers [] s = s"
| "start_workers (ok # oks) s =
     start_workers oks
       (if ok then s\<lparr>tp_count := tp_count s + 1, tp_workers := tp_workers s @ [AtLock]\<rparr> else s)"

definition pool_new :: "bool list \<Rightarrow> pool_state" where
  "pool_new oks = start_workers oks
     \<lparr>tp_queue = [], tp_locked = False, tp_count = 0, tp_idle = 0, tp_workers = [], tp_clients = [],
      tp_accepted = [], tp_started = []\<rparr>"

section \<open>Steps\<close>

abbreviation set_client :: "nat \<Rightarrow> pool_client \<Rightarrow> pool_state \<Rightarrow> pool_state" where
  "set_client i c s \<equiv> s\<lparr>tp_clients := (tp_clients s)[i := c]\<rparr>"

abbreviation set_worker :: "nat \<Rightarrow> pool_worker \<Rightarrow> pool_state \<Rightarrow> pool_state" where
  "set_worker w c s \<equiv> s\<lparr>tp_workers := (tp_workers s)[w := c]\<rparr>"

definition client_at :: "pool_state \<Rightarrow> nat \<Rightarrow> pool_client \<Rightarrow> bool" where
  "client_at s i c = (i < length (tp_clients s) \<and> tp_clients s ! i = c)"

definition worker_at :: "pool_state \<Rightarrow> nat \<Rightarrow> pool_worker \<Rightarrow> bool" where
  "worker_at s w c = (w < length (tp_workers s) \<and> tp_workers s ! w = c)"

text \<open>\<open>TaskPool::try_spawn\<close>.\<close>

inductive try_spawn_step :: "pool_limits \<Rightarrow> pool_state \<Rightarrow> pool_state \<Rightarrow> bool" for L where
  arrive: "try_spawn_step L s (s\<lparr>tp_clients := tp_clients s @ [Queueing t]\<rparr>)"
| reject: "client_at s i (Queueing t) \<Longrightarrow> \<not> tp_locked s \<Longrightarrow> pl_capacity L \<le> length (tp_queue s) \<Longrightarrow>
    try_spawn_step L s (set_client i (Returned False) s)"
| enqueue: "client_at s i (Queueing t) \<Longrightarrow> \<not> tp_locked s \<Longrightarrow> length (tp_queue s) < pl_capacity L \<Longrightarrow>
    try_spawn_step L s (set_client i (Notifying (length (tp_queue s) + 1))
      (s\<lparr>tp_queue := tp_queue s @ [t], tp_accepted := tp_accepted s @ [t]\<rparr>))"
| notify_one: "client_at s i (Notifying q) \<Longrightarrow> worker_at s w Waiting \<Longrightarrow>
    try_spawn_step L s (set_client i (CheckIdle q) (set_worker w (Woken False) s))"
| notify_none: "client_at s i (Notifying q) \<Longrightarrow> Waiting \<notin> set (tp_workers s) \<Longrightarrow>
    try_spawn_step L s (set_client i (CheckIdle q) s)"
| idle_enough: "client_at s i (CheckIdle q) \<Longrightarrow> q \<le> tp_idle s \<Longrightarrow>
    try_spawn_step L s (set_client i (Returned True) s)"
| idle_short: "client_at s i (CheckIdle q) \<Longrightarrow> tp_idle s < q \<Longrightarrow>
    try_spawn_step L s (set_client i CheckCount s)"
| count_full: "client_at s i CheckCount \<Longrightarrow> pl_max L \<le> tp_count s \<Longrightarrow>
    try_spawn_step L s (set_client i (Returned True) s)"
| count_room: "client_at s i CheckCount \<Longrightarrow> tp_count s < pl_max L \<Longrightarrow>
    try_spawn_step L s (set_client i LoadCount s)"

text \<open>\<open>spawn_worker\<close>: the loop of weak compare-and-exchange, then the new thread.\<close>

inductive spawn_worker_step :: "bool \<Rightarrow> pool_limits \<Rightarrow> pool_state \<Rightarrow> pool_state \<Rightarrow> bool" for fails L where
  load: "client_at s i LoadCount \<Longrightarrow> spawn_worker_step fails L s (set_client i (CasCount (tp_count s)) s)"
| cas_full: "client_at s i (CasCount c) \<Longrightarrow> pl_max L \<le> c \<Longrightarrow>
    spawn_worker_step fails L s (set_client i (Returned True) s)"
| cas_ok: "client_at s i (CasCount c) \<Longrightarrow> c < pl_max L \<Longrightarrow> tp_count s = c \<Longrightarrow>
    spawn_worker_step fails L s (set_client i Starting (s\<lparr>tp_count := c + 1\<rparr>))"
| cas_retry: "client_at s i (CasCount c) \<Longrightarrow> c < pl_max L \<Longrightarrow>
    spawn_worker_step fails L s (set_client i (CasCount (tp_count s)) s)"
| start_ok: "client_at s i Starting \<Longrightarrow>
    spawn_worker_step fails L s (set_client i (Returned True) (s\<lparr>tp_workers := tp_workers s @ [AtLock]\<rparr>))"
| start_fail: "fails \<Longrightarrow> client_at s i Starting \<Longrightarrow>
    spawn_worker_step fails L s (set_client i (Returned True) (s\<lparr>tp_count := tp_count s - 1\<rparr>))"

text \<open>\<open>worker_loop\<close> and \<open>try_retire_worker\<close>.\<close>

inductive worker_step :: "pool_limits \<Rightarrow> pool_state \<Rightarrow> pool_state \<Rightarrow> bool" for L where
  lock: "worker_at s w AtLock \<Longrightarrow> \<not> tp_locked s \<Longrightarrow>
    worker_step L s (set_worker w (Holding False) (s\<lparr>tp_locked := True\<rparr>))"
| pop: "worker_at s w (Holding b) \<Longrightarrow> tp_queue s = t # q \<Longrightarrow>
    worker_step L s (set_worker w (Running t)
      (s\<lparr>tp_queue := q, tp_locked := False, tp_started := tp_started s @ [t]\<rparr>))"
| sleep: "worker_at s w (Holding False) \<Longrightarrow> tp_queue s = [] \<Longrightarrow>
    worker_step L s (set_worker w Waiting (s\<lparr>tp_idle := tp_idle s + 1, tp_locked := False\<rparr>))"
| wake: "worker_at s w Waiting \<Longrightarrow> worker_step L s (set_worker w (Woken timed_out) s)"
| wake_lock: "worker_at s w (Woken b) \<Longrightarrow> \<not> tp_locked s \<Longrightarrow>
    worker_step L s (set_worker w (Holding b) (s\<lparr>tp_idle := tp_idle s - 1, tp_locked := True\<rparr>))"
| retire_load: "worker_at s w (Holding True) \<Longrightarrow> tp_queue s = [] \<Longrightarrow>
    worker_step L s (set_worker w (Retiring (tp_count s)) s)"
| retire_keep: "worker_at s w (Retiring c) \<Longrightarrow> c \<le> pl_min L \<Longrightarrow> worker_step L s (set_worker w (Holding False) s)"
| retire_ok: "worker_at s w (Retiring c) \<Longrightarrow> pl_min L < c \<Longrightarrow> tp_count s = c \<Longrightarrow>
    worker_step L s (set_worker w Exited (s\<lparr>tp_count := c - 1, tp_locked := False\<rparr>))"
| retire_retry: "worker_at s w (Retiring c) \<Longrightarrow> pl_min L < c \<Longrightarrow>
    worker_step L s (set_worker w (Retiring (tp_count s)) s)"
| finish: "worker_at s w (Running t) \<Longrightarrow> worker_step L s (set_worker w AtLock s)"

definition pool_step :: "bool \<Rightarrow> pool_limits \<Rightarrow> pool_state \<Rightarrow> pool_state \<Rightarrow> bool" where
  "pool_step fails L s s' = (try_spawn_step L s s' \<or> spawn_worker_step fails L s s' \<or> worker_step L s s')"

inductive pool_reachable :: "bool \<Rightarrow> pool_limits \<Rightarrow> pool_state \<Rightarrow> bool" for fails L where
  created: "length oks = pl_min L \<Longrightarrow> fails \<or> list_all id oks \<Longrightarrow> pool_reachable fails L (pool_new oks)"
| stepped: "pool_reachable fails L s \<Longrightarrow> pool_step fails L s s' \<Longrightarrow> pool_reachable fails L s'"

section \<open>Counting\<close>

definition cnt :: "('a \<Rightarrow> bool) \<Rightarrow> 'a list \<Rightarrow> nat" where "cnt P xs = length (filter P xs)"

lemma cnt_simps [simp]: "cnt P [] = 0" "cnt P (xs @ ys) = cnt P xs + cnt P ys" "cnt P [x] = (if P x then 1 else 0)"
  by (simp_all add: cnt_def)

lemma cnt_update:
  "i < length xs \<Longrightarrow> cnt P (xs[i := y]) + (if P (xs ! i) then 1 else 0) = cnt P xs + (if P y then 1 else 0)"
proof (induction xs arbitrary: i)
  case (Cons x xs)
  then show ?case by (cases i) (auto simp: cnt_def)
qed simp

lemma cnt_pos: "0 < cnt P xs \<longleftrightarrow> (\<exists>x\<in>set xs. P x)"
  by (auto simp: cnt_def filter_empty_conv)

definition live :: "pool_worker \<Rightarrow> bool" where "live p = (p \<noteq> Exited)"
definition idle :: "pool_worker \<Rightarrow> bool" where "idle p = (case p of Waiting \<Rightarrow> True | Woken _ \<Rightarrow> True | _ \<Rightarrow> False)"
definition holds :: "pool_worker \<Rightarrow> bool" where "holds p = (case p of Holding _ \<Rightarrow> True | Retiring _ \<Rightarrow> True | _ \<Rightarrow> False)"
definition active :: "pool_worker \<Rightarrow> bool" where
  "active p = (case p of Waiting \<Rightarrow> False | Exited \<Rightarrow> False | Retiring _ \<Rightarrow> False | _ \<Rightarrow> True)"
definition retiring :: "pool_worker \<Rightarrow> bool" where "retiring p = (case p of Retiring _ \<Rightarrow> True | _ \<Rightarrow> False)"
definition notifying :: "pool_client \<Rightarrow> bool" where "notifying c = (case c of Notifying _ \<Rightarrow> True | _ \<Rightarrow> False)"

lemmas phase_defs = live_def idle_def holds_def active_def retiring_def notifying_def

section \<open>The invariants\<close>

text \<open>The counters say what they are meant to.\<close>

definition pool_inv :: "pool_limits \<Rightarrow> pool_state \<Rightarrow> bool" where
  "pool_inv L s =
     (length (tp_queue s) \<le> pl_capacity L \<and> tp_count s \<le> pl_max L \<and>
      tp_count s = cnt live (tp_workers s) + cnt (\<lambda>c. c = Starting) (tp_clients s) \<and>
      tp_idle s = cnt idle (tp_workers s) \<and>
      cnt holds (tp_workers s) = (if tp_locked s then 1 else 0) \<and>
      tp_accepted s = tp_started s @ tp_queue s)"

lemma client_cnt:
  "client_at s i c \<Longrightarrow> cnt P ((tp_clients s)[i := c']) = cnt P (tp_clients s) + (if P c' then 1 else 0) - (if P c then 1 else 0)"
  using cnt_update[of i "tp_clients s" P c'] by (simp add: client_at_def)

lemma worker_cnt:
  "worker_at s w c \<Longrightarrow> cnt P ((tp_workers s)[w := c']) = cnt P (tp_workers s) + (if P c' then 1 else 0) - (if P c then 1 else 0)"
  using cnt_update[of w "tp_workers s" P c'] by (simp add: worker_at_def)

lemma client_pos: "client_at s i c \<Longrightarrow> P c \<Longrightarrow> 0 < cnt P (tp_clients s)"
  by (auto simp: cnt_pos client_at_def)

lemma worker_pos: "worker_at s w c \<Longrightarrow> P c \<Longrightarrow> 0 < cnt P (tp_workers s)"
  by (auto simp: cnt_pos worker_at_def)

lemmas count_simps = pool_inv_def phase_defs client_cnt worker_cnt

lemma try_spawn_inv: "try_spawn_step L s s' \<Longrightarrow> pool_inv L s \<Longrightarrow> pool_inv L s'"
  by (induction rule: try_spawn_step.induct) (simp_all add: count_simps)

lemma spawn_worker_inv: "spawn_worker_step fails L s s' \<Longrightarrow> pool_inv L s \<Longrightarrow> pool_inv L s'"
proof (induction rule: spawn_worker_step.induct)
  case (start_ok s i)
  then show ?case using client_pos[of s i Starting "\<lambda>c. c = Starting"] by (simp add: count_simps)
next
  case (start_fail s i)
  then show ?case using client_pos[of s i Starting "\<lambda>c. c = Starting"] by (auto simp: count_simps)
qed (simp_all add: count_simps)

lemma worker_inv: "worker_step L s s' \<Longrightarrow> pool_inv L s \<Longrightarrow> pool_inv L s'"
proof (induction rule: worker_step.induct)
  case (pop s w b t q)
  then show ?case using worker_pos[of s w "Holding b" holds] by (simp add: count_simps split: if_splits)
next
  case (sleep s w)
  then show ?case using worker_pos[of s w "Holding False" holds] by (simp add: count_simps split: if_splits)
next
  case (wake_lock s w b)
  then show ?case using worker_pos[of s w "Woken b" idle] by (simp add: count_simps)
next
  case (retire_ok s w c)
  then show ?case using worker_pos[of s w "Retiring c" holds] worker_pos[of s w "Retiring c" live]
    by (auto simp: count_simps split: if_splits)
qed (simp_all add: count_simps)

lemma start_workers_spec:
  "start_workers oks s =
    s\<lparr>tp_count := tp_count s + cnt id oks, tp_workers := tp_workers s @ replicate (cnt id oks) AtLock\<rparr>"
  by (induction oks arbitrary: s) (auto simp: cnt_def)

lemma cnt_replicate: "cnt P (replicate n x) = (if P x then n else 0)"
  by (simp add: cnt_def)

lemma pool_new_inv:
  assumes "length oks = pl_min L" and "pl_min L \<le> pl_max L"
  shows "pool_inv L (pool_new oks)"
proof -
  have "cnt id oks \<le> length oks" by (simp add: cnt_def)
  then show ?thesis
    using assms by (simp add: pool_new_def start_workers_spec pool_inv_def cnt_replicate phase_defs)
qed

lemma pool_step_inv: "pool_step fails L s s' \<Longrightarrow> pool_inv L s \<Longrightarrow> pool_inv L s'"
  by (auto simp: pool_step_def intro: try_spawn_inv spawn_worker_inv worker_inv)

lemma reachable_inv: "pool_reachable fails L s \<Longrightarrow> pl_min L \<le> pl_max L \<Longrightarrow> pool_inv L s"
  by (induction rule: pool_reachable.induct) (auto intro: pool_new_inv pool_step_inv)

text \<open>When every thread is created, a waiting task is somebody's business: of a worker that is not
  asleep, of a caller about to notify, or of a caller about to start a worker.\<close>

definition pool_flow :: "pool_limits \<Rightarrow> pool_state \<Rightarrow> bool" where
  "pool_flow L s =
     (pl_min L \<le> tp_count s \<and>
      (0 < cnt retiring (tp_workers s) \<longrightarrow> tp_queue s = []) \<and>
      (tp_queue s \<noteq> [] \<longrightarrow> 0 < cnt active (tp_workers s) \<or> 0 < cnt notifying (tp_clients s) \<or>
         0 < cnt (\<lambda>c. c = Starting) (tp_clients s)))"

lemma retiring_holds: "0 < cnt retiring ws \<Longrightarrow> 0 < cnt holds ws"
  by (auto simp: cnt_pos retiring_def holds_def split: pool_worker.splits)

lemma only_sleepers:
  assumes "cnt active ws = 0" and "cnt retiring ws = 0" and "Waiting \<notin> set ws"
  shows "cnt live ws = 0"
proof -
  have "\<not> live p" if "p \<in> set ws" for p
    using assms that cnt_pos[of active ws] cnt_pos[of retiring ws]
    by (cases p) (auto simp: live_def active_def retiring_def)
  then show ?thesis using cnt_pos[of live ws] by auto
qed

lemma try_spawn_flow:
  "try_spawn_step L s s' \<Longrightarrow> pool_inv L s \<Longrightarrow> 1 \<le> pl_min L \<Longrightarrow> pool_flow L s \<Longrightarrow> pool_flow L s'"
proof (induction rule: try_spawn_step.induct)
  case (enqueue s i t)
  then show ?case using retiring_holds[of "tp_workers s"]
    by (auto simp: count_simps pool_flow_def)
next
  case (notify_one s i q w)
  then show ?case by (auto simp: count_simps pool_flow_def)
next
  case (notify_none s i q)
  show ?case
  proof (cases "tp_queue s = [] \<or> 0 < cnt active (tp_workers s)")
    case True
    then show ?thesis using notify_none by (auto simp: count_simps pool_flow_def)
  next
    case False
    then have "cnt live (tp_workers s) = 0"
      using notify_none by (intro only_sleepers) (auto simp: pool_flow_def)
    then have "0 < cnt (\<lambda>c. c = Starting) (tp_clients s)"
      using notify_none.prems by (simp add: pool_inv_def pool_flow_def)
    then show ?thesis using notify_none by (auto simp: count_simps pool_flow_def)
  qed
qed (auto simp: count_simps pool_flow_def)

lemma spawn_worker_flow: "spawn_worker_step False L s s' \<Longrightarrow> pool_flow L s \<Longrightarrow> pool_flow L s'"
  by (induction rule: spawn_worker_step.induct) (auto simp: count_simps pool_flow_def)

lemma worker_flow: "worker_step L s s' \<Longrightarrow> pool_inv L s \<Longrightarrow> pool_flow L s \<Longrightarrow> pool_flow L s'"
proof (induction rule: worker_step.induct)
  case (pop s w b t q)
  then show ?case by (auto simp: count_simps pool_flow_def)
next
  case (retire_ok s w c)
  then show ?case using worker_pos[of s w "Retiring c" retiring] by (auto simp: count_simps pool_flow_def)
next
  case (retire_keep s w c)
  then show ?case using worker_pos[of s w "Retiring c" retiring] by (auto simp: count_simps pool_flow_def)
qed (auto simp: count_simps pool_flow_def)

lemma reachable_flow:
  assumes "pool_reachable False L s" and "1 \<le> pl_min L" and "pl_min L \<le> pl_max L"
  shows "pool_flow L s"
  using assms(1)
proof (induction rule: pool_reachable.induct)
  case (created oks)
  then have "cnt id oks = pl_min L" by (simp add: cnt_def list_all_iff)
  then show ?case by (simp add: pool_new_def start_workers_spec pool_flow_def cnt_replicate phase_defs)
next
  case (stepped s s')
  then show ?case
    using reachable_inv[OF stepped.hyps(1) assms(3)] assms(2)
    by (auto simp: pool_step_def intro: try_spawn_flow spawn_worker_flow worker_flow)
qed

section \<open>The next task\<close>


lemma pool_stepI:
  "try_spawn_step L s s' \<Longrightarrow> pool_step fails L s s'"
  "spawn_worker_step fails L s s' \<Longrightarrow> pool_step fails L s s'"
  "worker_step L s s' \<Longrightarrow> pool_step fails L s s'"
  by (simp_all add: pool_step_def)




lemma worker_at_set: "w < length (tp_workers s) \<Longrightarrow> worker_at (set_worker w c s) w c"
  by (simp add: worker_at_def)






section \<open>The minimum\<close>

text \<open>If the system creates the threads, a pool never has fewer than its minimum, counting the
  threads that are being started; the pool for upstream traffic has between 8 and 128, whatever
  the machine.\<close>

lemma pool_minimum_kept:
  assumes "pool_reachable False (task_pool_limits cores) s"
  shows "pl_min (task_pool_limits cores) \<le> cnt live (tp_workers s) + cnt (\<lambda>c. c = Starting) (tp_clients s) \<and>
    8 \<le> pl_min (task_pool_limits cores) \<and> cnt live (tp_workers s) \<le> 128"
proof -
  let ?L = "task_pool_limits cores"
  have l: "8 \<le> pl_min ?L" "pl_min ?L \<le> pl_max ?L" "pl_max ?L \<le> 128"
    by (auto simp: task_pool_limits_def pool_limits_new_def clamp_def Let_def TASK_POOL_MIN_THREADS_def
        TASK_POOL_MAX_THREADS_def)
  have "pool_inv ?L s" "pool_flow ?L s"
    using reachable_inv[OF assms l(2)] reachable_flow[OF assms _ l(2)] l(1) by simp_all
  then show ?thesis using l by (auto simp: pool_inv_def pool_flow_def)
qed

section \<open>A refused thread\<close>

text \<open>A worker may retire because of a thread that is being started and is then refused: the pool
  is left with fewer threads than its minimum, here with none.\<close>

lemma below_minimum:
  "pool_reachable True (pool_limits_new 1 2 4)
     \<lparr>tp_queue = [], tp_locked = False, tp_count = 0, tp_idle = 0, tp_workers = [Exited],
      tp_clients = [Returned True], tp_accepted = [7], tp_started = [7]\<rparr>"
proof -
  let ?L = "pool_limits_new 1 2 4"
  define st where "st q l c i w x a b =
    \<lparr>tp_queue = q, tp_locked = l, tp_count = c, tp_idle = i, tp_workers = [w], tp_clients = [x],
     tp_accepted = a, tp_started = b\<rparr>" for q l c i w x a b
  note cl = pool_stepI(1) note sp = pool_stepI(2) note wk = pool_stepI(3)
  note at = client_at_def worker_at_def pool_limits_new_def
  have "pool_reachable True ?L (pool_new [True])"
    by (rule pool_reachable.created) (simp_all add: pool_limits_new_def)
  from stepped[OF this cl[OF arrive[of _ _ 7]]]
  have "pool_reachable True ?L (st [] False 1 0 AtLock (Queueing 7) [] [])" by (simp add: st_def pool_new_def)
  from stepped[OF this cl[OF enqueue[of _ 0 7]]]
  have "pool_reachable True ?L (st [7] False 1 0 AtLock (Notifying 1) [7] [])" by (simp add: st_def at)
  from stepped[OF this cl[OF notify_none[of _ 0 1]]]
  have "pool_reachable True ?L (st [7] False 1 0 AtLock (CheckIdle 1) [7] [])" by (simp add: st_def at)
  from stepped[OF this cl[OF idle_short[of _ 0 1]]]
  have "pool_reachable True ?L (st [7] False 1 0 AtLock CheckCount [7] [])" by (simp add: st_def at)
  from stepped[OF this cl[OF count_room[of _ 0]]]
  have "pool_reachable True ?L (st [7] False 1 0 AtLock LoadCount [7] [])" by (simp add: st_def at)
  from stepped[OF this sp[OF load[of _ 0]]]
  have "pool_reachable True ?L (st [7] False 1 0 AtLock (CasCount 1) [7] [])" by (simp add: st_def at)
  from stepped[OF this sp[OF cas_ok[of _ 0 1]]]
  have "pool_reachable True ?L (st [7] False 2 0 AtLock Starting [7] [])" by (simp add: st_def at numeral_2_eq_2)
  from stepped[OF this wk[OF lock[of _ 0]]]
  have "pool_reachable True ?L (st [7] True 2 0 (Holding False) Starting [7] [])" by (simp add: st_def at)
  from stepped[OF this wk[OF pop[of _ 0 False 7 "[]"]]]
  have "pool_reachable True ?L (st [] False 2 0 (Running 7) Starting [7] [7])" by (simp add: st_def at)
  from stepped[OF this wk[OF finish[of _ 0 7]]]
  have "pool_reachable True ?L (st [] False 2 0 AtLock Starting [7] [7])" by (simp add: st_def at)
  from stepped[OF this wk[OF lock[of _ 0]]]
  have "pool_reachable True ?L (st [] True 2 0 (Holding False) Starting [7] [7])" by (simp add: st_def at)
  from stepped[OF this wk[OF sleep[of _ 0]]]
  have "pool_reachable True ?L (st [] False 2 1 Waiting Starting [7] [7])" by (simp add: st_def at)
  from stepped[OF this wk[OF wake[of _ 0 _ True]]]
  have "pool_reachable True ?L (st [] False 2 1 (Woken True) Starting [7] [7])" by (simp add: st_def at)
  from stepped[OF this wk[OF wake_lock[of _ 0 True]]]
  have "pool_reachable True ?L (st [] True 2 0 (Holding True) Starting [7] [7])" by (simp add: st_def at)
  from stepped[OF this wk[OF retire_load[of _ 0]]]
  have "pool_reachable True ?L (st [] True 2 0 (Retiring 2) Starting [7] [7])" by (simp add: st_def at)
  from stepped[OF this wk[OF retire_ok[of _ 0 2]]]
  have "pool_reachable True ?L (st [] False 1 0 Exited Starting [7] [7])" by (simp add: st_def at)
  from stepped[OF this sp[OF start_fail[of _ _ 0]]]
  show ?thesis by (simp add: st_def at)
qed

section \<open>Properties\<close>

text \<open>C26. Whatever the interleaving and whichever threads the system refuses, the queue and the
  number of threads stay within the limits, and the tasks are started once each in the order in
  which they were accepted.\<close>

theorem pool_bounded:
  assumes "pool_reachable fails (pool_limits_new mn mx cap) s"
  shows "length (tp_queue s) \<le> max cap 1 \<and> cnt live (tp_workers s) \<le> max mx (max mn 1) \<and>
    tp_accepted s = tp_started s @ tp_queue s"
proof -
  let ?L = "pool_limits_new mn mx cap"
  have "pool_inv ?L s" using assms by (rule reachable_inv) (simp add: pool_limits_new_def Let_def)
  then show ?thesis by (auto simp: pool_inv_def pool_limits_new_def Let_def)
qed

lemma one_task:
  "pool_reachable fails (pool_limits_new 1 4 1)
     (set_client 0 (Notifying 1) (pool_new [True]\<lparr>tp_clients := [Queueing 7], tp_queue := [7], tp_accepted := [7]\<rparr>))"
proof -
  let ?L = "pool_limits_new 1 4 1" and ?s0 = "pool_new [True]"
  let ?s1 = "?s0\<lparr>tp_clients := tp_clients ?s0 @ [Queueing 7]\<rparr>"
  have "pool_reachable fails ?L ?s0" by (rule pool_reachable.created) (simp_all add: pool_limits_new_def)
  then have 1: "pool_reachable fails ?L ?s1" by (rule stepped[OF _ pool_stepI(1)[OF arrive]])
  have "try_spawn_step ?L ?s1 (set_client 0 (Notifying (length (tp_queue ?s1) + 1))
      (?s1\<lparr>tp_queue := tp_queue ?s1 @ [7], tp_accepted := tp_accepted ?s1 @ [7]\<rparr>))"
    by (rule enqueue) (simp_all add: client_at_def pool_new_def pool_limits_new_def)
  from stepped[OF 1 pool_stepI(1)[OF this]] show ?thesis by (simp add: pool_new_def)
qed

theorem pool_bounded_witness:
  "length (tp_queue (pool_new [True]\<lparr>tp_clients := [Notifying 1], tp_queue := [7], tp_accepted := [7]\<rparr>)) \<le> 1"
  using pool_bounded[OF one_task[of True]] by simp



end
