(* ===== verification/FilterRuntime.thy ===== *)
theory FilterRuntime
  imports Config RuleMatch Rewrites
begin

text \<open>
  \<open>dns/filter_runtime.rs\<close>: the read-only filtering state a query works with.  It is replaced as a
  whole, so a query that has taken it sees one state; the contents of the system hosts file, if it
  could be read, are an argument.
\<close>

record filter_runtime =
  ft_rules :: compiled_rules
  ft_rewrites :: compiled_rewrites
  ft_blocking :: blocking_policy
  ft_rebinding_protection :: bool
  ft_rebinding_allowed :: "string set"
  ft_cname_cloaking :: bool
  ft_log_ignore :: "string set"
  ft_statistics_ignore :: "string set"
  ft_client_filtering :: filtering_policies

text \<open>\<open>None\<close> stands for the panic of \<open>expect\<close> on policies that do not build.\<close>

definition build_filter_runtime :: "app_config \<Rightarrow> compiled_rules \<Rightarrow> string option \<Rightarrow> filter_runtime option" where
  "build_filter_runtime config rules hosts =
     (let rewrites0 = compile_rewrites (ac_dns_rewrites config);
          rewrites = (if ac_system_hosts_enabled config
                      then (case hosts of None \<Rightarrow> rewrites0 | Some contents \<Rightarrow> merge_hosts_file rewrites0 contents)
                      else rewrites0)
      in case policies_from_config config of
           Inl _ \<Rightarrow> None
         | Inr policies \<Rightarrow> Some
             \<lparr>ft_rules = rules, ft_rewrites = rewrites,
              ft_blocking = policy_from_config (ac_blocking_mode config) (ac_blocking_response_ttl config)
                (ac_blocking_custom_ipv4 config) (ac_blocking_custom_ipv6 config),
              ft_rebinding_protection = ac_rebinding_protection_enabled config,
              ft_rebinding_allowed = compile_domain_set (ac_rebinding_allowed_domains config),
              ft_cname_cloaking = ac_cname_cloaking_enabled config,
              ft_log_ignore = compile_domain_set (ac_query_log_ignored_domains config),
              ft_statistics_ignore = compile_domain_set (ac_statistics_ignored_domains config),
              ft_client_filtering = policies\<rparr>)"

end
