(* ===== verification/Worker.thy ===== *)
theory Worker
  imports FilterRuntime UpstreamRoutes LocalReverse
begin

text \<open>
  \<open>dns/worker.rs\<close>: what a worker does with a query.  A query is handled in two steps around the
  exchange with the upstream servers, \<open>handle_start\<close> and \<open>handle_finish\<close>; each acts on the shared
  state (access control, cache, pending queries) and appends its effects (packets handed to the
  sockets, counters, log entries, refreshes) in order.  The environment says whether a packet could
  be sent, whether the log queue takes an entry, whether a background task could be queued, and what
  the clocks show; the result of the exchange is an argument.  Texts of messages are replaced by
  constructors, elapsed times are left out.  A builder of a response that would panic makes the
  outcome \<open>Crashed\<close>.
\<close>

section \<open>Queries, effects and state\<close>

datatype response_target = UdpTarget nat | TcpTarget nat
datatype dns_transport = TransportUdp | TransportTcp

record work_item =
  wi_query :: packet
  wi_client :: ip_addr
  wi_target :: response_target

datatype response_source =
  SourceUpstream | SourceCache | SourceRewrite | SourceBlocked | SourceRefused | SourceLocalReverse

datatype protection_kind = Rebinding | CnameCloaking

datatype send_error = ResponseTooLarge | SocketError string

datatype worker_error =
    NotSent response_source send_error
  | RefusalNotSent send_error
  | ProtectionNotSent send_error
  | FollowerNotSent send_error
  | RewriteServfail
  | AnyRefused string
  | UpstreamFailed string

datatype stat_event =
    StatAccessDenied ip_addr dns_transport deny_reason
  | StatRateLimited ip_addr dns_transport
  | StatInvalidQuery ip_addr dns_transport dns_error
  | StatQuery string ip_addr bool
  | StatBlockedQuery string ip_addr string bool
  | StatResponseBlocked string ip_addr string protection_kind bool
  | StatForwarded bool
  | StatError worker_error
  | StatRefusedAny
  | StatQueueDrop bool

record log_entry =
  le_domain :: string
  le_qtype :: u16
  le_qclass :: u16
  le_transport :: dns_transport
  le_source :: response_source
  le_response :: "packet option"
  le_client :: ip_addr
  le_blocked :: bool
  le_forwarded :: bool
  le_failed :: bool
  le_upstream :: "string option"
  le_upstream_ms :: "u64 option"
  le_error :: "worker_error option"
  le_match :: "block_match option"
  le_client_in :: u64
  le_client_out :: u64
  le_upstream_out :: u64
  le_upstream_in :: u64
  le_cache_saved :: u64
  le_anonymize :: bool
  le_persist_log :: bool
  le_persist_statistics :: bool

record pending_follower =
  fl_query :: packet
  fl_client :: ip_addr
  fl_target :: response_target
  fl_domain :: string
  fl_qtype :: u16
  fl_qclass :: u16
  fl_transport :: dns_transport

record refresh_job =
  rj_query :: packet
  rj_key :: cache_key
  rj_reason :: refresh_reason
  rj_route :: "route_pool option"
  rj_filtering :: bool

datatype worker_effect =
    Sent response_target packet
  | NoAnswer response_target
  | Counted stat_event
  | Logged log_entry
  | RefreshQueued refresh_job

text \<open>The table of pending queries: per shard the identifier of the query in flight for a key, and
  for each identifier its waiting duplicates, \<open>None\<close> once the leader has taken them.\<close>

record pending_queries =
  pt_shards :: "(cache_key \<rightharpoonup> nat) list"
  pt_followers :: "nat \<Rightarrow> pending_follower list option"
  pt_fresh :: nat

record worker_state =
  ws_access :: client_access
  ws_cache :: "cache_store option"
  ws_pending :: pending_queries
  ws_effects :: "worker_effect list"

datatype queue_result = QueueAccepted | QueueFull | QueueClosed

record worker_env =
  en_send :: "response_target \<Rightarrow> packet \<Rightarrow> string option"
  en_queue :: queue_result
  en_spawn :: bool
  en_hash :: "cache_key \<Rightarrow> u64"
  en_iter :: "entries \<Rightarrow> entries"
  en_access_second :: u64
  en_pause_second :: u64
  en_cache_second :: u64
  en_weekday :: nat
  en_minute :: u16

record worker_context =
  wc_routes :: upstream_routes
  wc_refuse_any :: bool
  wc_private_reverse :: bool
  wc_paused_until :: u64
  wc_cache_config :: "cache_config option"
  wc_persistence :: bool
  wc_query_log :: bool
  wc_statistics :: bool
  wc_anonymize :: bool
  wc_detailed :: bool

definition emit :: "worker_effect \<Rightarrow> worker_state \<Rightarrow> worker_state" where
  "emit e s = s\<lparr>ws_effects := ws_effects s @ [e]\<rparr>"

definition record_stat :: "stat_event \<Rightarrow> worker_state \<Rightarrow> worker_state" where
  "record_stat e = emit (Counted e)"

fun response_transport :: "response_target \<Rightarrow> dns_transport" where
  "response_transport (UdpTarget _) = TransportUdp"
| "response_transport (TcpTarget _) = TransportTcp"

section \<open>Pending queries\<close>

definition PENDING_QUERY_SHARDS :: nat where "PENDING_QUERY_SHARDS = 64"
definition MAX_PENDING_FOLLOWERS :: nat where "MAX_PENDING_FOLLOWERS = 512"

datatype pending_role = Leader nat | Follower nat

definition pending_new :: "nat \<Rightarrow> pending_queries" where
  "pending_new n = \<lparr>pt_shards = replicate (max n 1) Map.empty, pt_followers = (\<lambda>_. None), pt_fresh = 0\<rparr>"

definition new_pending_query :: "pending_queries \<Rightarrow> pending_queries \<times> nat" where
  "new_pending_query t =
     (t\<lparr>pt_followers := (pt_followers t)(pt_fresh t := Some []), pt_fresh := pt_fresh t + 1\<rparr>, pt_fresh t)"

definition pending_begin :: "(cache_key \<Rightarrow> u64) \<Rightarrow> pending_queries \<Rightarrow> cache_key \<Rightarrow> pending_queries \<times> pending_role" where
  "pending_begin hash t key =
     (let i = shard_index hash key (length (pt_shards t))
      in case get_at (pt_shards t) i of
           None \<Rightarrow> (case new_pending_query t of (t', p) \<Rightarrow> (t', Leader p))
         | Some m \<Rightarrow>
             (case m key of
                Some p \<Rightarrow> (t, Follower p)
              | None \<Rightarrow>
                  (case new_pending_query t of
                     (t', p) \<Rightarrow> (t'\<lparr>pt_shards := (pt_shards t')[i := m(key \<mapsto> p)]\<rparr>, Leader p))))"

definition pending_finish :: "(cache_key \<Rightarrow> u64) \<Rightarrow> pending_queries \<Rightarrow> cache_key \<Rightarrow> nat \<Rightarrow> pending_queries" where
  "pending_finish hash t key p =
     (let i = shard_index hash key (length (pt_shards t))
      in case get_at (pt_shards t) i of
           None \<Rightarrow> t
         | Some m \<Rightarrow> if m key = Some p then t\<lparr>pt_shards := (pt_shards t)[i := m(key := None)]\<rparr> else t)"

definition register_pending_follower ::
  "pending_queries \<Rightarrow> nat \<Rightarrow> pending_follower \<Rightarrow> pending_queries \<times> bool" where
  "register_pending_follower t p f =
     (case pt_followers t p of
        Some fs \<Rightarrow>
          if length fs < MAX_PENDING_FOLLOWERS
          then (t\<lparr>pt_followers := (pt_followers t)(p := Some (fs @ [f]))\<rparr>, True) else (t, False)
      | None \<Rightarrow> (t, False))"

definition take_followers :: "pending_queries \<Rightarrow> nat \<Rightarrow> pending_queries \<times> pending_follower list" where
  "take_followers t p =
     (t\<lparr>pt_followers := (pt_followers t)(p := None)\<rparr>,
      case pt_followers t p of Some fs \<Rightarrow> fs | None \<Rightarrow> [])"

section \<open>Sending\<close>

definition send_to :: "worker_env \<Rightarrow> response_target \<Rightarrow> packet \<Rightarrow> worker_state \<Rightarrow> worker_state \<times> send_error option" where
  "send_to env target response s =
     (case en_send env target response of
        None \<Rightarrow> (emit (Sent target response) s, None)
      | Some e \<Rightarrow> (s, Some (SocketError e)))"

definition send_dns_response ::
  "worker_env \<Rightarrow> response_target \<Rightarrow> packet \<Rightarrow> packet \<Rightarrow> worker_state \<Rightarrow> worker_state \<times> send_error option" where
  "send_dns_response env target query response s =
     (case target of
        UdpTarget _ \<Rightarrow>
          (let max_size = udp_payload_size query
           in if length response \<le> max_size then send_to env target response s
              else (case truncate_response_for_udp query response max_size of
                  None \<Rightarrow> (s, Some ResponseTooLarge)
                | Some truncated \<Rightarrow> send_to env target truncated s))
      | TcpTarget _ \<Rightarrow> send_to env target response s)"

fun send_no_response :: "response_target \<Rightarrow> worker_state \<Rightarrow> worker_state" where
  "send_no_response (TcpTarget n) s = emit (NoAnswer (TcpTarget n)) s"
| "send_no_response (UdpTarget _) s = s"

fun send_refused_or_drop :: "worker_env \<Rightarrow> response_target \<Rightarrow> packet \<Rightarrow> worker_state \<Rightarrow> worker_state" where
  "send_refused_or_drop env (UdpTarget _) query s = s"
| "send_refused_or_drop env (TcpTarget n) query s =
     (case build_error_response query RCODE_REFUSED of
        None \<Rightarrow> send_no_response (TcpTarget n) s
      | Some response \<Rightarrow>
          (case send_dns_response env (TcpTarget n) query response s of
             (s', None) \<Rightarrow> s'
           | (s', Some e) \<Rightarrow> record_stat (StatError (RefusalNotSent e)) s'))"

section \<open>The query log\<close>

record query_metadata =
  qm_domain :: string
  qm_qtype :: u16
  qm_qclass :: u16
  qm_transport :: dns_transport
  qm_query_bytes :: u64
  qm_traffic :: upstream_traffic

definition no_traffic :: upstream_traffic where "no_traffic = \<lparr>ut_sent = 0, ut_received = 0\<rparr>"

definition metadata_new :: "question \<Rightarrow> response_target \<Rightarrow> nat \<Rightarrow> query_metadata" where
  "metadata_new q target bytes =
     \<lparr>qm_domain = domain q, qm_qtype = qtype q, qm_qclass = qclass q,
      qm_transport = response_transport target, qm_query_bytes = of_nat bytes, qm_traffic = no_traffic\<rparr>"

text \<open>What the callers of the log functions decide; the rest of an entry is the same for all.\<close>

record log_facts =
  lf_source :: response_source
  lf_blocked :: bool
  lf_forwarded :: bool
  lf_failed :: bool
  lf_upstream :: "string option"
  lf_upstream_ms :: "u64 option"
  lf_error :: "worker_error option"
  lf_response :: "packet option"
  lf_match :: "block_match option"

definition plain_log :: "response_source \<Rightarrow> log_facts" where
  "plain_log source =
     \<lparr>lf_source = source, lf_blocked = False, lf_forwarded = False, lf_failed = False, lf_upstream = None,
      lf_upstream_ms = None, lf_error = None, lf_response = None, lf_match = None\<rparr>"

definition log_entry_of ::
  "worker_context \<Rightarrow> query_metadata \<Rightarrow> ip_addr \<Rightarrow> log_facts \<Rightarrow> bool \<Rightarrow> bool \<Rightarrow> log_entry" where
  "log_entry_of ctx meta client facts persist_log persist_statistics =
     (let out = (case lf_response facts of None \<Rightarrow> 0 | Some r \<Rightarrow> of_nat (length r)) :: u64
      in \<lparr>le_domain = qm_domain meta, le_qtype = qm_qtype meta, le_qclass = qm_qclass meta,
          le_transport = qm_transport meta, le_source = lf_source facts, le_response = lf_response facts,
          le_client = client, le_blocked = lf_blocked facts, le_forwarded = lf_forwarded facts,
          le_failed = lf_failed facts, le_upstream = lf_upstream facts, le_upstream_ms = lf_upstream_ms facts,
          le_error = lf_error facts, le_match = lf_match facts,
          le_client_in = qm_query_bytes meta, le_client_out = out,
          le_upstream_out = ut_sent (qm_traffic meta), le_upstream_in = ut_received (qm_traffic meta),
          le_cache_saved = (if lf_source facts = SourceCache then sat_add (qm_query_bytes meta) out else 0),
          le_anonymize = wc_anonymize ctx, le_persist_log = persist_log,
          le_persist_statistics = persist_statistics\<rparr>)"

definition queue_query_log ::
  "worker_env \<Rightarrow> worker_context \<Rightarrow> filter_runtime \<Rightarrow> query_metadata \<Rightarrow> ip_addr \<Rightarrow> log_facts \<Rightarrow>
    worker_state \<Rightarrow> worker_state" where
  "queue_query_log env ctx f meta client facts s =
     (if \<not> wc_persistence ctx then s
      else (let persist_log = (wc_query_log ctx \<and> \<not> domain_set_contains (ft_log_ignore f) (qm_domain meta));
                persist_statistics =
                  (wc_statistics ctx \<and> \<not> domain_set_contains (ft_statistics_ignore f) (qm_domain meta))
            in if \<not> persist_log \<and> \<not> persist_statistics then s
               else (case en_queue env of
                   QueueAccepted \<Rightarrow>
                     emit (Logged (log_entry_of ctx meta client facts persist_log persist_statistics)) s
                 | QueueFull \<Rightarrow> record_stat (StatQueueDrop True) s
                 | QueueClosed \<Rightarrow> record_stat (StatQueueDrop False) s)))"

section \<open>Response protection\<close>

definition is_rebinding_v4 :: "u32 \<Rightarrow> bool" where
  "is_rebinding_v4 ip =
     (let a = drop_bit 24 ip; b = and (drop_bit 16 ip) 0xff
      in a = 10 \<or> (a = 172 \<and> 16 \<le> b \<and> b \<le> 31) \<or> (a = 192 \<and> b = 168) \<or>
         a = 127 \<or>
         (a = 169 \<and> b = 254) \<or>
         ip = 0 \<or>
         ip = 0xffffffff \<or>
         (224 \<le> a \<and> a \<le> 239) \<or>
         (a = 100 \<and> 64 \<le> b \<and> b \<le> 127) \<or>
         240 \<le> a)"

fun is_rebinding_address :: "ip_addr \<Rightarrow> bool" where
  "is_rebinding_address (IpV4 ip) = is_rebinding_v4 ip"
| "is_rebinding_address (IpV6 ip) =
     ((case to_ipv4_mapped ip of None \<Rightarrow> False | Some v4 \<Rightarrow> is_rebinding_v4 v4) \<or>
      ip = 1 \<or>
      ip = 0 \<or>
      drop_bit 121 ip = 0x7e \<or>
      drop_bit 118 ip = 0x3fa \<or>
      drop_bit 120 ip = 0xff)"

record protection_block =
  pb_kind :: protection_kind
  pb_match :: block_match

definition cloaked_match :: "filter_runtime \<Rightarrow> u16 \<Rightarrow> string \<Rightarrow> block_match option" where
  "cloaked_match f qt target =
     (case blocking_match (ft_rules f) target qt of
        None \<Rightarrow> None
      | Some m \<Rightarrow> if bm_dnsrewrite m = None then Some m else None)"

definition rebinding_match :: "ip_addr \<Rightarrow> block_match" where
  "rebinding_match address =
     \<lparr>bm_rule = ''private-address:'' @ show_ip address, bm_source = ''DNS Rebinding Protection'',
      bm_rule_type = ''response protection'', bm_important_overrode = False, bm_allowlist_rule = None,
      bm_dnsrewrite = None\<rparr>"

definition response_protection_block ::
  "filter_runtime \<Rightarrow> question \<Rightarrow> packet \<Rightarrow> bool \<Rightarrow> protection_block option" where
  "response_protection_block f q response routed =
     (let check_cname = ft_cname_cloaking f;
          check_rebinding = (ft_rebinding_protection f \<and> \<not> routed \<and>
            \<not> domain_set_contains (ft_rebinding_allowed f) (domain q))
      in if \<not> check_cname \<and> \<not> check_rebinding then None
         else (case response_security_data response of
             None \<Rightarrow> None
           | Some data \<Rightarrow>
               (case (if check_cname then List.map_filter (cloaked_match f (qtype q)) (cname_targets data) else []) of
                  m # _ \<Rightarrow> Some \<lparr>pb_kind = CnameCloaking, pb_match = m\<rparr>
                | [] \<Rightarrow>
                    if check_rebinding
                    then map_option (\<lambda>ip. \<lparr>pb_kind = Rebinding, pb_match = rebinding_match ip\<rparr>)
                           (find is_rebinding_address (addresses data))
                    else None)))"

datatype worker_outcome = Answered | Crashed

definition deliver_response_protection_block ::
  "worker_env \<Rightarrow> worker_context \<Rightarrow> filter_runtime \<Rightarrow> query_metadata \<Rightarrow> ip_addr \<Rightarrow> response_target \<Rightarrow> packet \<Rightarrow>
    question \<Rightarrow> protection_block \<Rightarrow> string option \<Rightarrow> u64 option \<Rightarrow> worker_state \<Rightarrow> worker_state \<times> worker_outcome" where
  "deliver_response_protection_block env ctx f meta client target query q block upstream ms s0 =
     (let s1 = record_stat (StatResponseBlocked (qm_domain meta) client (bm_source (pb_match block))
                 (pb_kind block) (wc_detailed ctx)) s0
      in case build_block_response query q (ft_blocking f) of
           None \<Rightarrow> (s1, Crashed)
         | Some response \<Rightarrow>
             (case send_dns_response env target query response s1 of
                (s2, sent) \<Rightarrow>
                  (let err = map_option ProtectionNotSent sent;
                       s3 = (case err of None \<Rightarrow> s2 | Some e \<Rightarrow> record_stat (StatError e) s2)
                   in (queue_query_log env ctx f meta client
                         ((plain_log SourceBlocked)\<lparr>lf_blocked := True, lf_failed := (err \<noteq> None),
                            lf_upstream := upstream, lf_upstream_ms := ms, lf_error := err,
                            lf_response := Some response, lf_match := Some (pb_match block)\<rparr>) s3, Answered))))"

section \<open>Answers the worker makes itself\<close>

text \<open>The common end of the branches that answer locally: send, then log the response or the failure.\<close>

definition send_and_log ::
  "worker_env \<Rightarrow> worker_context \<Rightarrow> filter_runtime \<Rightarrow> query_metadata \<Rightarrow> work_item \<Rightarrow> response_source \<Rightarrow> packet \<Rightarrow>
    worker_state \<Rightarrow> worker_state \<times> bool" where
  "send_and_log env ctx f meta item source response s =
     (case send_dns_response env (wi_target item) (wi_query item) response s of
        (s', Some e) \<Rightarrow>
          (queue_query_log env ctx f meta (wi_client item)
             ((plain_log source)\<lparr>lf_failed := True, lf_error := Some (NotSent source e)\<rparr>)
             (record_stat (StatError (NotSent source e)) s'), False)
      | (s', None) \<Rightarrow>
          (queue_query_log env ctx f meta (wi_client item)
             ((plain_log source)\<lparr>lf_response := Some response\<rparr>) s', True))"

definition refuse_any ::
  "worker_env \<Rightarrow> worker_context \<Rightarrow> filter_runtime \<Rightarrow> query_metadata \<Rightarrow> work_item \<Rightarrow> question \<Rightarrow>
    worker_state \<Rightarrow> worker_state \<times> worker_outcome" where
  "refuse_any env ctx f meta item q s0 =
     (let s1 = record_stat (StatQuery (domain q) (wi_client item) (wc_detailed ctx)) s0;
          response = build_error_response (wi_query item) RCODE_REFUSED;
          answered = (\<lambda>s. queue_query_log env ctx f meta (wi_client item)
            ((plain_log SourceRefused)\<lparr>lf_error := Some (AnyRefused (domain q)), lf_response := response\<rparr>)
            (record_stat StatRefusedAny s))
      in case response of
           None \<Rightarrow> (answered (send_no_response (wi_target item) s1), Answered)
         | Some r \<Rightarrow>
             (case send_dns_response env (wi_target item) (wi_query item) r s1 of
                (s2, None) \<Rightarrow> (answered s2, Answered)
              | (s2, Some e) \<Rightarrow>
                  (queue_query_log env ctx f meta (wi_client item)
                     ((plain_log SourceRefused)\<lparr>lf_failed := True, lf_error := Some (NotSent SourceRefused e)\<rparr>)
                     (record_stat (StatError (NotSent SourceRefused e)) s2), Answered)))"

definition answer_locally ::
  "worker_env \<Rightarrow> worker_context \<Rightarrow> filter_runtime \<Rightarrow> query_metadata \<Rightarrow> work_item \<Rightarrow> question \<Rightarrow>
    response_source \<Rightarrow> packet option \<Rightarrow> worker_state \<Rightarrow> worker_state \<times> worker_outcome" where
  "answer_locally env ctx f meta item q source built s0 =
     (let s1 = record_stat (StatQuery (domain q) (wi_client item) (wc_detailed ctx)) s0
      in case built of
           None \<Rightarrow> (s1, Crashed)
         | Some response \<Rightarrow> (fst (send_and_log env ctx f meta item source response s1), Answered))"

definition block_query ::
  "worker_env \<Rightarrow> worker_context \<Rightarrow> filter_runtime \<Rightarrow> query_metadata \<Rightarrow> work_item \<Rightarrow> question \<Rightarrow> block_match \<Rightarrow>
    worker_state \<Rightarrow> worker_state \<times> worker_outcome" where
  "block_query env ctx f meta item q rule_match s0 =
     (case build_block_response (wi_query item) q (ft_blocking f) of
        None \<Rightarrow> (s0, Crashed)
      | Some response \<Rightarrow>
          (let facts = (plain_log SourceBlocked)\<lparr>lf_blocked := True, lf_match := Some rule_match\<rparr>
           in case send_dns_response env (wi_target item) (wi_query item) response s0 of
                (s1, Some e) \<Rightarrow>
                  (queue_query_log env ctx f meta (wi_client item)
                     (facts\<lparr>lf_failed := True, lf_error := Some (NotSent SourceBlocked e)\<rparr>)
                     (record_stat (StatError (NotSent SourceBlocked e))
                       (record_stat (StatQuery (domain q) (wi_client item) (wc_detailed ctx)) s1)), Answered)
              | (s1, None) \<Rightarrow>
                  (queue_query_log env ctx f meta (wi_client item) (facts\<lparr>lf_response := Some response\<rparr>)
                     (record_stat (StatBlockedQuery (domain q) (wi_client item) (bm_source rule_match)
                       (wc_detailed ctx)) s1), Answered)))"

definition redirect_search ::
  "worker_env \<Rightarrow> worker_context \<Rightarrow> filter_runtime \<Rightarrow> query_metadata \<Rightarrow> work_item \<Rightarrow> question \<Rightarrow> string \<Rightarrow>
    worker_state \<Rightarrow> worker_state \<times> worker_outcome" where
  "redirect_search env ctx f meta item q target s0 =
     (let s1 = record_stat (StatQuery (domain q) (wi_client item) (wc_detailed ctx)) s0
      in case build_cname_response (wi_query item) q target of
           None \<Rightarrow> (s1, Crashed)
         | Some response \<Rightarrow>
             (case send_dns_response env (wi_target item) (wi_query item) response s1 of
                (s2, sent) \<Rightarrow>
                  (let err = map_option (NotSent SourceRewrite) sent;
                       s3 = (case err of None \<Rightarrow> s2 | Some e \<Rightarrow> record_stat (StatError e) s2)
                   in (queue_query_log env ctx f meta (wi_client item)
                         ((plain_log SourceRewrite)\<lparr>lf_failed := (err \<noteq> None), lf_error := err,
                            lf_response := Some response\<rparr>) s3, Answered))))"

definition apply_dnsrewrite ::
  "worker_env \<Rightarrow> worker_context \<Rightarrow> filter_runtime \<Rightarrow> query_metadata \<Rightarrow> work_item \<Rightarrow> question \<Rightarrow> block_match \<Rightarrow>
    dns_rewrite_action \<Rightarrow> worker_state \<Rightarrow> worker_state \<times> worker_outcome" where
  "apply_dnsrewrite env ctx f meta item q rule_match action s0 =
     (let s1 = record_stat (StatQuery (domain q) (wi_client item) (wc_detailed ctx)) s0
      in case build_dnsrewrite_response (wi_query item) q action (ft_blocking f) of
           None \<Rightarrow> (s1, Crashed)
         | Some response \<Rightarrow>
             (case send_dns_response env (wi_target item) (wi_query item) response s1 of
                (s2, sent) \<Rightarrow>
                  (case (case sent of
                           Some e \<Rightarrow> Some (Some (NotSent SourceRewrite e))
                         | None \<Rightarrow> map_option (\<lambda>flags. if and flags 0x0f = RCODE_SERVFAIL then Some RewriteServfail else None)
                                     (get_at response 3)) of
                     None \<Rightarrow> (s2, Crashed)
                   | Some err \<Rightarrow>
                       (queue_query_log env ctx f meta (wi_client item)
                          ((plain_log SourceRewrite)\<lparr>lf_failed := (err \<noteq> None), lf_error := err,
                             lf_response := Some response, lf_match := Some rule_match\<rparr>)
                          (case err of None \<Rightarrow> s2 | Some e \<Rightarrow> record_stat (StatError e) s2), Answered))))"

definition service_match :: "string \<Rightarrow> block_match" where
  "service_match service =
     \<lparr>bm_rule = ''service:'' @ service, bm_source = ''family policy: '' @ service, bm_rule_type = ''service'',
      bm_important_overrode = False, bm_allowlist_rule = None, bm_dnsrewrite = None\<rparr>"

section \<open>The start of a query\<close>

record forward_job =
  fj_item :: work_item
  fj_parsed :: parsed_query
  fj_key :: "cache_key option"
  fj_pending :: "nat option"
  fj_route :: "route_pool option"
  fj_filtering :: bool

datatype start_outcome = Done worker_outcome | Forward forward_job

definition finish_refresh :: "worker_env \<Rightarrow> cache_key \<Rightarrow> worker_state \<Rightarrow> worker_state" where
  "finish_refresh env key s = s\<lparr>ws_cache := map_option (\<lambda>c. store_finish_refresh (en_hash env) c key) (ws_cache s)\<rparr>"

definition refresh_cache_async ::
  "worker_env \<Rightarrow> worker_context \<Rightarrow> refresh_job \<Rightarrow> worker_state \<Rightarrow> worker_state" where
  "refresh_cache_async env ctx job s =
     (case ws_cache s of
        None \<Rightarrow> s
      | Some cache \<Rightarrow>
          (case wc_cache_config ctx of
             None \<Rightarrow> finish_refresh env (rj_key job) s
           | Some _ \<Rightarrow>
               (let s1 = s\<lparr>ws_cache := Some (record_refresh_started cache (rj_reason job))\<rparr>
                in if en_spawn env then emit (RefreshQueued job) s1
                   else (let s2 = finish_refresh env (rj_key job) s1
                         in s2\<lparr>ws_cache := map_option (\<lambda>c. record_refresh_failed c (rj_reason job)) (ws_cache s2)\<rparr>))))"

definition serve_cache_hit ::
  "worker_env \<Rightarrow> worker_context \<Rightarrow> filter_runtime \<Rightarrow> query_metadata \<Rightarrow> work_item \<Rightarrow> question \<Rightarrow> bool \<Rightarrow>
    route_pool option \<Rightarrow> cache_key \<Rightarrow> packet \<Rightarrow> refresh_reason option \<Rightarrow> worker_state \<Rightarrow> worker_state \<times> worker_outcome" where
  "serve_cache_hit env ctx f meta item q filtering routed key response reason s0 =
     (let release = (\<lambda>s. if reason = None then s else finish_refresh env key s)
      in case (if filtering then response_protection_block f q response (routed \<noteq> None) else None) of
           Some block \<Rightarrow>
             deliver_response_protection_block env ctx f meta (wi_client item) (wi_target item) (wi_query item) q
               block None None (release s0)
         | None \<Rightarrow>
             (case send_dns_response env (wi_target item) (wi_query item) response s0 of
                (s1, Some e) \<Rightarrow>
                  (queue_query_log env ctx f meta (wi_client item)
                     ((plain_log SourceCache)\<lparr>lf_failed := True, lf_error := Some (NotSent SourceCache e)\<rparr>)
                     (record_stat (StatError (NotSent SourceCache e)) (release s1)), Answered)
              | (s1, None) \<Rightarrow>
                  (let s2 = queue_query_log env ctx f meta (wi_client item)
                         ((plain_log SourceCache)\<lparr>lf_response := Some response\<rparr>) s1
                   in (case reason of
                         None \<Rightarrow> s2
                       | Some r \<Rightarrow>
                           refresh_cache_async env ctx
                             \<lparr>rj_query = wi_query item, rj_key = key, rj_reason = r, rj_route = routed,
                              rj_filtering = filtering\<rparr> s2, Answered))))"

definition cache_scope :: "bool \<Rightarrow> route_pool option \<Rightarrow> string option" where
  "cache_scope filtering_enabled routed =
     (if filtering_enabled then map_option rp_key routed
      else Some (case routed of Some r \<Rightarrow> rp_key r @ '':filter-bypass'' | None \<Rightarrow> ''filter-bypass''))"

text \<open>Become the leader of the key, wait for the leader there is, or go alone.\<close>

definition join_pending ::
  "worker_env \<Rightarrow> query_metadata \<Rightarrow> work_item \<Rightarrow> question \<Rightarrow> cache_key option \<Rightarrow> worker_state \<Rightarrow>
    worker_state \<times> (worker_outcome + nat option)" where
  "join_pending env meta item q key s =
     (case key of
        None \<Rightarrow> (s, Inr None)
      | Some k \<Rightarrow>
          (case pending_begin (en_hash env) (ws_pending s) k of
             (t, Leader p) \<Rightarrow> (s\<lparr>ws_pending := t\<rparr>, Inr (Some p))
           | (t, Follower p) \<Rightarrow>
               (case register_pending_follower t p
                  \<lparr>fl_query = wi_query item, fl_client = wi_client item, fl_target = wi_target item,
                   fl_domain = domain q, fl_qtype = qtype q, fl_qclass = qclass q, fl_transport = qm_transport meta\<rparr> of
                  (t', True) \<Rightarrow> (s\<lparr>ws_pending := t'\<rparr>, Inl Answered)
                | (t', False) \<Rightarrow> (s\<lparr>ws_pending := t'\<rparr>, Inr None))))"

definition look_up_and_forward ::
  "worker_env \<Rightarrow> worker_context \<Rightarrow> filter_runtime \<Rightarrow> query_metadata \<Rightarrow> work_item \<Rightarrow> parsed_query \<Rightarrow> bool \<Rightarrow> bool \<Rightarrow>
    route_pool option \<Rightarrow> worker_state \<Rightarrow> worker_state \<times> start_outcome" where
  "look_up_and_forward env ctx f meta item parsed filtering_enabled filtering local_route s0 =
     (let q = pq_question parsed;
          s1 = record_stat (StatQuery (domain q) (wi_client item) (wc_detailed ctx)) s0;
          routed = (case local_route of Some r \<Rightarrow> Some r | None \<Rightarrow> select_route (wc_routes ctx) (domain q) (wi_client item));
          key = map_option (\<lambda>k. with_route k (cache_scope filtering_enabled routed)) (key_from_query parsed);
          forward = (\<lambda>s. case join_pending env meta item q key s of
              (s', Inl out) \<Rightarrow> (s', Done out)
            | (s', Inr p) \<Rightarrow> (s', Forward \<lparr>fj_item = item, fj_parsed = parsed, fj_key = key, fj_pending = p,
                                       fj_route = routed, fj_filtering = filtering\<rparr>))
      in case key of
           None \<Rightarrow> forward s1
         | Some k \<Rightarrow>
             (case lookup_cached_response (en_hash env) (ws_cache s1) k (wi_query item) (en_cache_second env) of
                (cache, None) \<Rightarrow> forward (s1\<lparr>ws_cache := cache\<rparr>)
              | (cache, Some (response, reason)) \<Rightarrow>
                  (case serve_cache_hit env ctx f meta item q filtering routed k response reason
                      (s1\<lparr>ws_cache := cache\<rparr>) of (s2, out) \<Rightarrow> (s2, Done out))))"

definition answer_question ::
  "worker_env \<Rightarrow> worker_context \<Rightarrow> filter_runtime \<Rightarrow> work_item \<Rightarrow> parsed_query \<Rightarrow> worker_state \<Rightarrow>
    worker_state \<times> start_outcome" where
  "answer_question env ctx f item parsed s =
     (let q = pq_question parsed; query = wi_query item;
          meta = metadata_new q (wi_target item) (length query);
          done = (\<lambda>(s', out). (s', Done out))
      in if wc_refuse_any ctx \<and> qtype q = TYPE_ANY then done (refuse_any env ctx f meta item q s)
         else (case rewrites_lookup (ft_rewrites f) (domain q) of
             Some target \<Rightarrow>
               done (answer_locally env ctx f meta item q SourceRewrite (build_rewrite_response query q target) s)
           | None \<Rightarrow>
               (let policy = decision_at (ft_client_filtering f) (wi_client item) (en_weekday env) (en_minute env);
                    enabled = (fd_mode policy = FilterClient);
                    active = (enabled \<and> \<not> en_pause_second env < wc_paused_until ctx)
                in case (if active then decision_blocked_service policy (domain q) else None) of
                     Some service \<Rightarrow> done (block_query env ctx f meta item q (service_match service) s)
                   | None \<Rightarrow>
                       (case (if active then decision_safe_search_target policy (domain q) else None) of
                          Some target \<Rightarrow> done (redirect_search env ctx f meta item q target s)
                        | None \<Rightarrow>
                            (case (if active then blocking_match (ft_rules f) (domain q) (qtype q) else None) of
                               Some m \<Rightarrow>
                                 done (case bm_dnsrewrite m of
                                     Some action \<Rightarrow> apply_dnsrewrite env ctx f meta item q m action s
                                   | None \<Rightarrow> block_query env ctx f meta item q m s)
                             | None \<Rightarrow>
                                 (let reverse = (wc_private_reverse ctx \<and> is_local_reverse_name (domain q));
                                      route = (if reverse then select_domain (wc_routes ctx) (domain q) else None)
                                  in if reverse \<and> route = None
                                     then done (answer_locally env ctx f meta item q SourceLocalReverse
                                       (build_dnsrewrite_response query q (RCode RCODE_NXDOMAIN) (ft_blocking f)) s)
                                     else look_up_and_forward env ctx f meta item parsed enabled active route s))))))"

definition handle_start ::
  "worker_env \<Rightarrow> worker_context \<Rightarrow> filter_runtime \<Rightarrow> work_item \<Rightarrow> worker_state \<Rightarrow> worker_state \<times> start_outcome" where
  "handle_start env ctx f item s0 =
     (let client = wi_client item; target = wi_target item; query = wi_query item;
          transport = response_transport target
      in case access_check (ws_access s0) client (en_access_second env) of
           (access, DenyClient reason) \<Rightarrow>
             (send_refused_or_drop env target query
                (record_stat (StatAccessDenied client transport reason) (s0\<lparr>ws_access := access\<rparr>)), Done Answered)
         | (access, RateLimited) \<Rightarrow>
             (send_refused_or_drop env target query
                (record_stat (StatRateLimited client transport) (s0\<lparr>ws_access := access\<rparr>)), Done Answered)
         | (access, AllowClient) \<Rightarrow>
             (case parse_query query of
                Inl e \<Rightarrow>
                  (send_no_response target
                     (record_stat (StatInvalidQuery client transport e) (s0\<lparr>ws_access := access\<rparr>)), Done Answered)
              | Inr parsed \<Rightarrow> answer_question env ctx f item parsed (s0\<lparr>ws_access := access\<rparr>)))"

section \<open>Forwarding with fallback servers\<close>

text \<open>\<open>ask fallback k\<close> is the result of the k-th round of \<open>forward_query\<close>, on the servers of the route or
  the configuration, or on the fallback servers; a route has none.\<close>

datatype 'e forward_failure = PrimaryFailed 'e | BothFailed 'e 'e

definition forward_query_once_with_fallback ::
  "(bool \<Rightarrow> nat \<Rightarrow> 'e + forward_response) \<Rightarrow> bool \<Rightarrow> nat \<Rightarrow> 'e forward_failure + forward_response" where
  "forward_query_once_with_fallback ask has_fallback k =
     (case ask False k of
        Inr response \<Rightarrow> Inr response
      | Inl primary \<Rightarrow>
          if \<not> has_fallback then Inl (PrimaryFailed primary)
          else (case ask True k of
              Inr response \<Rightarrow> Inr response
            | Inl e \<Rightarrow> Inl (BothFailed primary e)))"

definition NETWORK_UNAVAILABLE_RETRIES :: nat where "NETWORK_UNAVAILABLE_RETRIES = 5"

text \<open>\<open>again k e\<close>: the error says that the network is not available yet, and there is time for the
  next delay.  The first argument counts the delays left.\<close>

fun retry_forward ::
  "nat \<Rightarrow> (bool \<Rightarrow> nat \<Rightarrow> 'e + forward_response) \<Rightarrow> bool \<Rightarrow> (nat \<Rightarrow> 'e forward_failure \<Rightarrow> bool) \<Rightarrow> nat \<Rightarrow>
    'e forward_failure + forward_response \<Rightarrow> 'e forward_failure + forward_response" where
  "retry_forward 0 ask has_fallback again k result = result"
| "retry_forward (Suc n) ask has_fallback again k result =
     (case result of
        Inr response \<Rightarrow> Inr response
      | Inl e \<Rightarrow>
          if again k e
          then retry_forward n ask has_fallback again (k + 1) (forward_query_once_with_fallback ask has_fallback (k + 1))
          else Inl e)"

definition forward_query_with_fallback ::
  "(bool \<Rightarrow> nat \<Rightarrow> 'e + forward_response) \<Rightarrow> bool \<Rightarrow> (nat \<Rightarrow> 'e forward_failure \<Rightarrow> bool) \<Rightarrow>
    'e forward_failure + forward_response" where
  "forward_query_with_fallback ask has_fallback again =
     retry_forward NETWORK_UNAVAILABLE_RETRIES ask has_fallback again 0
       (forward_query_once_with_fallback ask has_fallback 0)"

definition forward_query_with_route ::
  "route_pool option \<Rightarrow> (bool \<Rightarrow> nat \<Rightarrow> 'e + forward_response) \<Rightarrow> bool \<Rightarrow> (nat \<Rightarrow> 'e forward_failure \<Rightarrow> bool) \<Rightarrow>
    'e forward_failure + forward_response" where
  "forward_query_with_route route ask has_fallback again =
     forward_query_with_fallback ask (if route = None then has_fallback else False) again"

section \<open>The end of a query\<close>

definition prepare_forwarded_response :: "packet \<Rightarrow> packet \<Rightarrow> packet" where
  "prepare_forwarded_response response query =
     (case prepare_response_for_query response query of
        Some r \<Rightarrow> r
      | None \<Rightarrow> if 2 \<le> length response \<and> 2 \<le> length query then splice response 0 (slice query 0 2) else response)"

definition follower_metadata :: "pending_follower \<Rightarrow> query_metadata" where
  "follower_metadata w =
     \<lparr>qm_domain = fl_domain w, qm_qtype = fl_qtype w, qm_qclass = fl_qclass w, qm_transport = fl_transport w,
      qm_query_bytes = of_nat (length (fl_query w)), qm_traffic = no_traffic\<rparr>"

definition deliver_pending_follower ::
  "worker_env \<Rightarrow> worker_context \<Rightarrow> filter_runtime \<Rightarrow> string + forward_response \<Rightarrow> pending_follower \<Rightarrow>
    worker_state \<Rightarrow> worker_state" where
  "deliver_pending_follower env ctx f result w s =
     (case result of
        Inr forwarded \<Rightarrow>
          (let response = prepare_forwarded_response (fw_response forwarded) (fl_query w);
               facts = (plain_log SourceUpstream)\<lparr>lf_upstream := Some (fw_upstream forwarded),
                 lf_upstream_ms := Some (fw_duration_ms forwarded)\<rparr>
           in case send_dns_response env (fl_target w) (fl_query w) response s of
                (s1, Some e) \<Rightarrow>
                  queue_query_log env ctx f (follower_metadata w) (fl_client w)
                    (facts\<lparr>lf_forwarded := True, lf_failed := True, lf_error := Some (FollowerNotSent e)\<rparr>)
                    (record_stat (StatError (FollowerNotSent e)) s1)
              | (s1, None) \<Rightarrow>
                  queue_query_log env ctx f (follower_metadata w) (fl_client w)
                    (facts\<lparr>lf_response := Some response\<rparr>) s1)
      | Inl e \<Rightarrow>
          queue_query_log env ctx f (follower_metadata w) (fl_client w)
            ((plain_log SourceUpstream)\<lparr>lf_failed := True, lf_error := Some (UpstreamFailed e)\<rparr>)
            (send_no_response (fl_target w) (record_stat (StatError (UpstreamFailed e)) s)))"

definition finish_pending_query ::
  "worker_env \<Rightarrow> worker_context \<Rightarrow> filter_runtime \<Rightarrow> cache_key \<Rightarrow> nat \<Rightarrow> string + forward_response \<Rightarrow>
    worker_state \<Rightarrow> worker_state" where
  "finish_pending_query env ctx f key p result s =
     (case take_followers (pending_finish (en_hash env) (ws_pending s) key p) p of
        (t, followers) \<Rightarrow> fold (deliver_pending_follower env ctx f result) followers (s\<lparr>ws_pending := t\<rparr>))"

definition deliver_blocked_follower ::
  "worker_env \<Rightarrow> worker_context \<Rightarrow> filter_runtime \<Rightarrow> protection_block \<Rightarrow> string option \<Rightarrow> u64 option \<Rightarrow>
    pending_follower \<Rightarrow> worker_state \<times> worker_outcome \<Rightarrow> worker_state \<times> worker_outcome" where
  "deliver_blocked_follower env ctx f block upstream ms w so =
     (case so of
        (s, Crashed) \<Rightarrow> (s, Crashed)
      | (s, Answered) \<Rightarrow>
          (case parse_query (fl_query w) of
             Inl _ \<Rightarrow> (send_no_response (fl_target w) s, Answered)
           | Inr parsed \<Rightarrow>
               deliver_response_protection_block env ctx f (follower_metadata w) (fl_client w) (fl_target w)
                 (fl_query w) (pq_question parsed) block upstream ms s))"

definition finish_pending_protection_block ::
  "worker_env \<Rightarrow> worker_context \<Rightarrow> filter_runtime \<Rightarrow> cache_key \<Rightarrow> nat \<Rightarrow> protection_block \<Rightarrow> string option \<Rightarrow>
    u64 option \<Rightarrow> worker_state \<Rightarrow> worker_state \<times> worker_outcome" where
  "finish_pending_protection_block env ctx f key p block upstream ms s =
     (case take_followers (pending_finish (en_hash env) (ws_pending s) key p) p of
        (t, followers) \<Rightarrow>
          fold (deliver_blocked_follower env ctx f block upstream ms) followers (s\<lparr>ws_pending := t\<rparr>, Answered))"

definition deliver_forwarded ::
  "worker_env \<Rightarrow> worker_context \<Rightarrow> filter_runtime \<Rightarrow> query_metadata \<Rightarrow> work_item \<Rightarrow> forward_response \<Rightarrow>
    worker_state \<Rightarrow> worker_state" where
  "deliver_forwarded env ctx f meta item forwarded s =
     (let facts = (plain_log SourceUpstream)\<lparr>lf_forwarded := True, lf_upstream := Some (fw_upstream forwarded),
            lf_upstream_ms := Some (fw_duration_ms forwarded)\<rparr>
      in case send_dns_response env (wi_target item) (wi_query item) (fw_response forwarded) s of
           (s1, Some e) \<Rightarrow>
             queue_query_log env ctx f meta (wi_client item)
               (facts\<lparr>lf_failed := True, lf_error := Some (NotSent SourceUpstream e)\<rparr>)
               (record_stat (StatError (NotSent SourceUpstream e)) s1)
         | (s1, None) \<Rightarrow>
             queue_query_log env ctx f meta (wi_client item) (facts\<lparr>lf_response := Some (fw_response forwarded)\<rparr>)
               (record_stat (StatForwarded (wc_detailed ctx)) s1))"

definition handle_finish ::
  "worker_env \<Rightarrow> worker_context \<Rightarrow> filter_runtime \<Rightarrow> forward_job \<Rightarrow> upstream_traffic \<Rightarrow> string + forward_response \<Rightarrow>
    worker_state \<Rightarrow> worker_state \<times> worker_outcome" where
  "handle_finish env ctx f job traffic result s0 =
     (let item = fj_item job; q = pq_question (fj_parsed job); query = wi_query item;
          meta = (metadata_new q (wi_target item) (length query))\<lparr>qm_traffic := traffic\<rparr>;
          block = (case result of
              Inl _ \<Rightarrow> None
            | Inr forwarded \<Rightarrow>
                if fj_filtering job
                then map_option (\<lambda>b. (b, forwarded))
                       (response_protection_block f q (fw_response forwarded) (fj_route job \<noteq> None))
                else None)
      in case block of
           Some (b, forwarded) \<Rightarrow>
             (let upstream = Some (fw_upstream forwarded); ms = Some (fw_duration_ms forwarded)
              in case (case (fj_key job, fj_pending job) of
                         (Some key, Some p) \<Rightarrow> finish_pending_protection_block env ctx f key p b upstream ms s0
                       | _ \<Rightarrow> (s0, Answered)) of
                   (s1, Crashed) \<Rightarrow> (s1, Crashed)
                 | (s1, Answered) \<Rightarrow>
                     deliver_response_protection_block env ctx f meta (wi_client item) (wi_target item) query q
                       b upstream ms s1)
         | None \<Rightarrow>
             (let s1 = (case (fj_key job, fj_pending job) of
                          (Some key, Some p) \<Rightarrow> finish_pending_query env ctx f key p result s0
                        | _ \<Rightarrow> s0)
              in case result of
                   Inr forwarded \<Rightarrow>
                     (case (case fj_key job of
                              None \<Rightarrow> Some s1
                            | Some key \<Rightarrow>
                                map_option (\<lambda>(cache, _). s1\<lparr>ws_cache := cache\<rparr>)
                                  (insert_cached_response (en_iter env) (en_hash env) (ws_cache s1) (wc_cache_config ctx)
                                    key (fw_response forwarded) (en_cache_second env))) of
                        None \<Rightarrow> (s1, Crashed)
                      | Some s2 \<Rightarrow> (deliver_forwarded env ctx f meta item forwarded s2, Answered))
                 | Inl e \<Rightarrow>
                     (queue_query_log env ctx f meta (wi_client item)
                        ((plain_log SourceUpstream)\<lparr>lf_failed := True, lf_error := Some (UpstreamFailed e)\<rparr>)
                        (send_no_response (wi_target item) (record_stat (StatError (UpstreamFailed e)) s1)), Answered)))"

section \<open>A background refresh\<close>

text \<open>The queued task: \<open>expired\<close> says that it waited too long in the queue.\<close>

definition run_refresh ::
  "worker_env \<Rightarrow> worker_context \<Rightarrow> filter_runtime \<Rightarrow> refresh_job \<Rightarrow> bool \<Rightarrow> string + forward_response \<Rightarrow>
    worker_state \<Rightarrow> worker_state option" where
  "run_refresh env ctx f job expired result s =
     (let failed = (\<lambda>s. s\<lparr>ws_cache :=
            map_option (\<lambda>c. record_refresh_failed (store_finish_refresh (en_hash env) c (rj_key job)) (rj_reason job))
              (ws_cache s)\<rparr>)
      in if expired then Some (failed s)
         else (case result of
             Inl _ \<Rightarrow> Some (failed s)
           | Inr forwarded \<Rightarrow>
               if rj_filtering job \<and>
                  (case parse_query (rj_query job) of
                     Inl _ \<Rightarrow> False
                   | Inr parsed \<Rightarrow>
                       response_protection_block f (pq_question parsed) (fw_response forwarded)
                         (rj_route job \<noteq> None) \<noteq> None)
               then Some (failed s)
               else map_option (\<lambda>(cache, inserted).
                      if inserted
                      then s\<lparr>ws_cache := map_option (\<lambda>c. record_refresh_completed c (rj_reason job)) cache\<rparr>
                      else failed (s\<lparr>ws_cache := cache\<rparr>))
                    (insert_cached_response (en_iter env) (en_hash env) (ws_cache s) (wc_cache_config ctx)
                      (rj_key job) (fw_response forwarded) (en_cache_second env))))"

end
