(* ===== verification/WorkerSpec.thy ===== *)
theory WorkerSpec
  imports Worker CacheSpec
begin

text \<open>
  What the two steps of a query (\<open>handle_start\<close>, \<open>handle_finish\<close>) and a background refresh do to the
  clients, the cache and the table of pending queries: every reply is valid for the query of the
  client that gets it, nobody gets two replies, the invariant of the cache is kept and no builder of a
  response panics.
\<close>

section \<open>The cache holds responses\<close>

definition is_response :: "packet \<Rightarrow> bool" where
  "is_response p = (and (p ! 2) 0x80 \<noteq> 0)"

definition store_answers :: "cache_store \<Rightarrow> bool" where
  "store_answers s = (\<forall>c\<in>set (cs_shards s). \<forall>(k, e)\<in>set (dc_entries c). is_response (ce_response e))"

definition cache_ok :: "cache_store option \<Rightarrow> bool" where
  "cache_ok cache = (case cache of None \<Rightarrow> True | Some s \<Rightarrow> (\<exists>cfg n. store_inv cfg n s) \<and> store_answers s)"

lemma store_answers_update:
  assumes "store_answers s" and "\<forall>(k, e)\<in>set (dc_entries c). is_response (ce_response e)"
  shows "store_answers (s\<lparr>cs_shards := (cs_shards s)[i := c]\<rparr>)"
  using assms set_update_subset_insert[of "cs_shards s" i c] by (fastforce simp: store_answers_def)

lemma lookup_answers:
  assumes "\<forall>(k, e)\<in>set (dc_entries c). is_response (ce_response e)"
  shows "\<forall>(k, e)\<in>set (dc_entries (fst (cache_lookup c key now))). is_response (ce_response e)"
proof (cases "map_of (dc_entries c) key")
  case None
  then show ?thesis using assms by (simp add: lookup_unfold Let_def)
next
  case (Some e)
  then have "is_response (ce_response e)" using assms map_of_SomeD by fastforce
  then show ?thesis
    using assms Some set_update_subset[of key "fst (serve_entry (dc_config c) e (dc_access_counter c + 1) now)" "dc_entries c"]
    by (auto simp: lookup_unfold Let_def serve_entry_entry)
qed

lemma finish_answers:
  assumes "\<forall>(k, e)\<in>set (dc_entries c). is_response (ce_response e)"
  shows "\<forall>(k, e)\<in>set (dc_entries (cache_finish_refresh c key)). is_response (ce_response e)"
proof (cases "map_of (dc_entries c) key")
  case None
  then show ?thesis using assms by (simp add: cache_finish_refresh_def)
next
  case (Some e)
  then have "is_response (ce_response e)" using assms map_of_SomeD by fastforce
  then show ?thesis
    using assms Some set_update_subset[of key "e\<lparr>ce_refreshing := False\<rparr>" "dc_entries c"]
    by (auto simp: cache_finish_refresh_def)
qed

lemma insert_answers:
  assumes i: "iter_ok iter" and inv: "shard_inv c" and r: "is_response response"
    and a: "\<forall>(k, e)\<in>set (dc_entries c). is_response (ce_response e)"
    and c': "cache_insert_with_ttl iter c key response now t = Some (c', out)"
  shows "\<forall>(k, e)\<in>set (dc_entries c'). is_response (ce_response e)"
proof (cases "t = 0 \<or> cc_max_size_bytes (dc_config c) < entry_size key response")
  case True
  then have "dc_entries c' = dc_entries c" using c' by (auto simp: cache_insert_with_ttl_def Let_def split: if_splits)
  then show ?thesis using a by simp
next
  case False
  have ci: "cache_inv c" using inv by (simp add: shard_inv_def)
  let ?c = "inserted c key response now t"
  obtain c1 n where e: "evict_over_limit iter ?c now = Some (c1, n)" "set (dc_entries c1) \<subseteq> set (dc_entries ?c)"
    using evict_over_limit_ok[OF i inserted_inv[OF ci, of key response now t], of now] by blast
  then have "c' = c1" using c' False by (simp add: insert_unfold[OF ci] not_less)
  moreover have "\<forall>(k, e)\<in>set (dc_entries ?c). is_response (ce_response e)"
    using a r by (auto simp: inserted_def new_entry_def delete_filter)
  ultimately show ?thesis using e(2) by auto
qed

lemma record_forward: "read_dns_record p off = Some d \<Longrightarrow> off < next_offset d"
  using read_dns_record_bounds[of p off d] by linarith

lemma drop_opt_response:
  "drop_opt n p off ar = Some r \<Longrightarrow> is_response p \<Longrightarrow> 12 \<le> off \<Longrightarrow> 12 \<le> length p \<Longrightarrow> is_response r"
proof (induction n p off ar rule: drop_opt.induct)
  case (2 n p off ar)
  then obtain d where d: "read_dns_record p off = Some d" by (auto split: option.splits)
  show ?case
  proof (cases "record_type d = TYPE_OPT")
    case True
    then have "r = take off (splice p 10 (be16 (ar - 1)))" using "2.prems"(1) d by (simp split: if_splits)
    moreover have "splice p 10 (be16 (ar - 1)) ! 2 = p ! 2" using "2.prems"(4) by (simp add: splice_def nth_append)
    ultimately show ?thesis using "2.prems"(2,3) by (simp add: is_response_def)
  next
    case False
    then show ?thesis using 2 d record_forward[OF d] by simp
  qed
qed simp

lemma skip_records_forward: "skip_records n p off = Some off' \<Longrightarrow> off \<le> off'"
proof (induction n p off rule: skip_records.induct)
  case (2 n p off)
  then obtain d where d: "read_dns_record p off = Some d" by (auto split: option.splits)
  then have "next_offset d \<le> off'" using 2 by simp
  then show ?case using record_forward[OF d] by simp
qed simp

lemma normalized_response:
  assumes "normalize_cached_response p = Some r" and "is_response p"
  shows "is_response r"
proof -
  obtain q where q: "parse_question p = Inr q" using assms(1) by (auto simp: normalize_cached_response_def split: sum.splits)
  have b: "12 \<le> question_end q" "12 \<le> length p" using parse_question_bounds[OF q] by simp_all
  show ?thesis
    using assms b q
    by (auto simp: normalize_cached_response_def split: option.splits if_splits
        dest!: skip_records_forward dest: drop_opt_response)
qed

section \<open>The invariant of the cache\<close>

lemma cache_ok_lookup:
  assumes "lookup_cached_response hash cache key query now = (cache', r)" and "cache_ok cache"
  shows "cache_ok cache' \<and> (\<forall>resp reason. r = Some (resp, reason) \<longrightarrow> validate_response_for_query query resp = Inr ())"
proof (cases cache)
  case None
  then show ?thesis using assms by (simp add: lookup_cached_response_def)
next
  case (Some s)
  then obtain cfg n where inv: "store_inv cfg n s" "store_answers s" using assms(2) by (auto simp: cache_ok_def)
  let ?i = "shard_index hash key (length (cs_shards s))"
  show ?thesis
  proof (cases "get_at (cs_shards s) ?i")
    case None
    have "cache_ok (Some (s\<lparr>cs_metrics := m\<rparr>))" for m
      using store_inv_metrics[OF inv(1)] inv(2) by (fastforce simp: cache_ok_def store_answers_def)
    then show ?thesis using assms(1) Some None by (auto simp: lookup_cached_response_def store_lookup_def Let_def)
  next
    case c: (Some c)
    have mem: "c \<in> set (cs_shards s)" using c by (auto simp: get_at_Some)
    obtain c' h where l: "cache_lookup c key now = (c', h)" by (cases "cache_lookup c key now")
    have "shard_inv c' \<and> dc_config c' = dc_config c"
      using lookup_inv[of c key now] inv(1) mem l by (auto simp: store_inv_def)
    note si = store_inv_metrics[OF store_inv_update[OF inv(1) c this]]
    have a: "\<forall>(k, e)\<in>set (dc_entries c). is_response (ce_response e)" using inv(2) mem by (auto simp: store_answers_def)
    have "\<forall>(k, e)\<in>set (dc_entries c'). is_response (ce_response e)" using lookup_answers[OF a] l by (metis fst_conv)
    note sa = store_answers_update[OF inv(2) this, of ?i]
    have ok: "cache_ok (Some (s\<lparr>cs_shards := (cs_shards s)[?i := c'], cs_metrics := m\<rparr>))" for m
      using si sa by (auto simp: cache_ok_def store_answers_def)
    have "is_response (rh_response hit)" if hit: "h = Some hit" for hit
    proof -
      have "snd (cache_lookup c key now) = Some hit" using l hit by simp
      then obtain e where "map_of (dc_entries c) key = Some e"
        "hit = snd (serve_entry (dc_config c) e (dc_access_counter c + 1) now)"
        using lookup_Some by blast
      then show ?thesis using a map_of_SomeD by (fastforce simp: serve_entry_hit)
    qed
    then show ?thesis
      using assms(1) Some c l ok
      by (auto simp: lookup_cached_response_def store_lookup_def Let_def is_response_def
          intro: prepared_answers split: option.splits)
  qed
qed

lemma cache_ok_insert:
  assumes "cache_ok cache" and "iter_ok iter" and "is_response response"
  shows "\<exists>cache' b. insert_cached_response iter hash cache cfg key response now = Some (cache', b) \<and> cache_ok cache'"
proof -
  have ins: "\<exists>s' b. store_insert_with_ttl iter hash s key r now t = Some (s', b) \<and> cache_ok (Some s')"
    if s: "store_inv cfg n s" "store_answers s" and r: "is_response r" for s r t cfg n
  proof (cases "get_at (cs_shards s) (shard_index hash key (length (cs_shards s)))")
    case None
    then show ?thesis using s by (auto simp: store_insert_with_ttl_def Let_def cache_ok_def)
  next
    case c: (Some c)
    have mem: "c \<in> set (cs_shards s)" using c by (auto simp: get_at_Some)
    have si: "shard_inv c" using s(1) mem by (auto simp: store_inv_def)
    obtain c' out where c': "cache_insert_with_ttl iter c key r now t = Some (c', out)"
      "shard_inv c' \<and> dc_config c' = dc_config c" using insert_inv[OF assms(2) si] by blast
    have "\<forall>(k, e)\<in>set (dc_entries c). is_response (ce_response e)" using s(2) mem by (auto simp: store_answers_def)
    note a = insert_answers[OF assms(2) si r this c'(1)]
    show ?thesis
      using c c'(1) store_inv_metrics[OF store_inv_update[OF s(1) c c'(2)]] store_answers_update[OF s(2) a]
      by (auto simp: store_insert_with_ttl_def Let_def cache_ok_def store_answers_def)
  qed
  show ?thesis
  proof (cases cache)
    case (Some s)
    then obtain scfg n where "store_inv scfg n s" "store_answers s" using assms(1) by (auto simp: cache_ok_def)
    note ins = ins[OF this]
    show ?thesis
    proof (cases "cfg = None \<or> (\<exists>x. cfg = Some x \<and> cache_ttl_seconds response x = None) \<or>
        normalize_cached_response response = None")
      case True
      then show ?thesis using Some assms(1) by (auto simp: insert_cached_response_def split: option.splits)
    next
      case False
      then obtain x t r where x: "cfg = Some x" "cache_ttl_seconds response x = Some t"
        "normalize_cached_response response = Some r" by auto
      obtain s' b where "store_insert_with_ttl iter hash s key r now t = Some (s', b)" "cache_ok (Some s')"
        using ins[OF normalized_response[OF x(3) assms(3)]] by blast
      then show ?thesis using Some x by (simp add: insert_cached_response_def)
    qed
  qed (use assms(1) in \<open>auto simp: insert_cached_response_def\<close>)
qed

lemma store_ok_finish:
  assumes "store_inv cfg n s" and "store_answers s"
  shows "store_inv cfg n (store_finish_refresh hash s key) \<and> store_answers (store_finish_refresh hash s key)"
proof (cases "get_at (cs_shards s) (shard_index hash key (length (cs_shards s)))")
  case None
  then show ?thesis using assms by (simp add: store_finish_refresh_def Let_def)
next
  case (Some c)
  have mem: "c \<in> set (cs_shards s)" using Some by (auto simp: get_at_Some)
  then have "shard_inv c" using assms(1) by (auto simp: store_inv_def)
  note si = store_inv_update[OF assms(1) Some finish_inv[OF this]]
  have "\<forall>(k, e)\<in>set (dc_entries c). is_response (ce_response e)" using assms(2) mem by (auto simp: store_answers_def)
  note sa = store_answers_update[OF assms(2) finish_answers[OF this]]
  show ?thesis using Some si sa by (simp add: store_finish_refresh_def Let_def)
qed

lemma store_ok_record:
  assumes "store_inv cfg n s" and "store_answers s"
  shows "store_inv cfg n (record_refresh_started s r) \<and> store_answers (record_refresh_started s r)"
    "store_inv cfg n (record_refresh_completed s r) \<and> store_answers (record_refresh_completed s r)"
    "store_inv cfg n (record_refresh_failed s r) \<and> store_answers (record_refresh_failed s r)"
  using assms by (auto simp: record_refresh_started_def record_refresh_completed_def record_refresh_failed_def
      Let_def store_answers_def intro: store_inv_metrics)

lemma cache_ok_map:
  assumes "cache_ok cache" and "\<And>cfg n s. store_inv cfg n s \<Longrightarrow> store_answers s \<Longrightarrow> store_inv cfg n (f s) \<and> store_answers (f s)"
  shows "cache_ok (map_option f cache)"
  using assms unfolding cache_ok_def by (cases cache) (simp_all, blast)

section \<open>Replies\<close>

text \<open>What a client sees: a packet, or the end of its connection without one.\<close>

definition reply_of :: "worker_effect \<Rightarrow> (response_target \<times> packet option) option" where
  "reply_of e = (case e of Sent t p \<Rightarrow> Some (t, Some p) | NoAnswer t \<Rightarrow> Some (t, None) | _ \<Rightarrow> None)"

definition replies :: "worker_state \<Rightarrow> (response_target \<times> packet option) list" where
  "replies s = List.map_filter reply_of (ws_effects s)"

definition is_tcp :: "response_target \<Rightarrow> bool" where
  "is_tcp t = (case t of TcpTarget _ \<Rightarrow> True | UdpTarget _ \<Rightarrow> False)"

definition valid_reply :: "packet \<Rightarrow> packet option \<Rightarrow> bool" where
  "valid_reply query r = (case r of None \<Rightarrow> True | Some p \<Rightarrow> validate_response_for_query query p = Inr ())"

text \<open>At most one reply, to this query, and one to a TCP client whose connection takes it.\<close>

definition one_reply :: "worker_env \<Rightarrow> response_target \<Rightarrow> packet \<Rightarrow> (response_target \<times> packet option) list \<Rightarrow> bool" where
  "one_reply env t query rs =
     (length rs \<le> 1 \<and> (\<forall>(t', r)\<in>set rs. t' = t \<and> valid_reply query r) \<and>
      (is_tcp t \<and> (\<forall>p. en_send env t p = None) \<longrightarrow> rs \<noteq> []))"

text \<open>A step that replies at most once and leaves the pending queries alone.\<close>

definition replies_once :: "worker_env \<Rightarrow> response_target \<Rightarrow> packet \<Rightarrow> worker_state \<Rightarrow> worker_state \<Rightarrow> bool" where
  "replies_once env t query s s' =
     (ws_pending s' = ws_pending s \<and> (cache_ok (ws_cache s) \<longrightarrow> cache_ok (ws_cache s')) \<and>
      (\<exists>rs. replies s' = replies s @ rs \<and> one_reply env t query rs))"

lemma replies_emit [simp]: "replies (emit e s) = replies s @ (case reply_of e of None \<Rightarrow> [] | Some r \<Rightarrow> [r])"
  by (cases "reply_of e") (auto simp: replies_def emit_def List.map_filter_def)

lemma emit_fields [simp]:
  "ws_pending (emit e s) = ws_pending s" "ws_cache (emit e s) = ws_cache s" "ws_access (emit e s) = ws_access s"
  by (simp_all add: emit_def)

lemma stat_fields [simp]:
  "ws_pending (record_stat e s) = ws_pending s" "ws_cache (record_stat e s) = ws_cache s"
  "ws_access (record_stat e s) = ws_access s" "replies (record_stat e s) = replies s"
  by (simp_all add: record_stat_def reply_of_def)

lemma log_fields [simp]:
  "ws_pending (queue_query_log env ctx f m c x s) = ws_pending s"
  "ws_cache (queue_query_log env ctx f m c x s) = ws_cache s"
  "ws_access (queue_query_log env ctx f m c x s) = ws_access s"
  "replies (queue_query_log env ctx f m c x s) = replies s"
  by (simp_all add: queue_query_log_def Let_def reply_of_def split: queue_result.splits)

lemma update_replies [simp]:
  "replies (s\<lparr>ws_pending := t\<rparr>) = replies s" "replies (s\<lparr>ws_cache := c\<rparr>) = replies s"
  "replies (s\<lparr>ws_access := a\<rparr>) = replies s"
  by (simp_all add: replies_def)

lemma send_to_spec:
  "send_to env t r s = (s', e) \<Longrightarrow> ws_pending s' = ws_pending s \<and> ws_cache s' = ws_cache s \<and>
    replies s' = replies s @ (if e = None then [(t, Some r)] else []) \<and> (e = None \<longleftrightarrow> en_send env t r = None)"
  by (auto simp: send_to_def reply_of_def split: option.splits)

lemma send_spec:
  assumes "send_dns_response env t query r s = (s', e)" and "validate_response_for_query query r = Inr ()"
  shows "ws_pending s' = ws_pending s \<and> ws_cache s' = ws_cache s \<and>
    (\<exists>rs. replies s' = replies s @ rs \<and> one_reply env t query rs)"
proof (cases t)
  case (TcpTarget n)
  then have "send_to env t r s = (s', e)" using assms(1) by (simp add: send_dns_response_def)
  from send_to_spec[OF this] show ?thesis
    using assms(2) TcpTarget by (auto simp: one_reply_def valid_reply_def)
next
  case (UdpTarget n)
  show ?thesis
  proof (cases "length r \<le> udp_payload_size query")
    case True
    then have "send_to env t r s = (s', e)" using assms(1) UdpTarget by (simp add: send_dns_response_def Let_def)
    from send_to_spec[OF this] show ?thesis
      using assms(2) UdpTarget by (auto simp: one_reply_def valid_reply_def is_tcp_def)
  next
    case False
    show ?thesis
    proof (cases "truncate_response_for_udp query r (udp_payload_size query)")
      case None
      then show ?thesis using assms(1) UdpTarget False
        by (auto simp: send_dns_response_def Let_def one_reply_def is_tcp_def)
    next
      case (Some r')
      then have "send_to env t r' s = (s', e)" using assms(1) UdpTarget False by (simp add: send_dns_response_def Let_def)
      moreover have "validate_response_for_query query r' = Inr ()"
        using truncated_answers[OF assms(2) _ Some] False by simp
      ultimately show ?thesis
        using send_to_spec UdpTarget by (fastforce simp: one_reply_def valid_reply_def is_tcp_def)
    qed
  qed
qed

lemma send_once:
  assumes "send_dns_response env t query r s0 = (s1, e)" and "validate_response_for_query query r = Inr ()"
    and "ws_pending s0 = ws_pending s" "ws_cache s0 = ws_cache s" "replies s0 = replies s"
    and "ws_pending s' = ws_pending s1" "ws_cache s' = ws_cache s1" "replies s' = replies s1"
  shows "replies_once env t query s s'"
  using send_spec[OF assms(1,2)] assms(3-8) by (auto simp: replies_once_def)

lemma no_response_spec: "replies_once env t query s (send_no_response t s)"
  by (cases t) (auto simp: replies_once_def one_reply_def valid_reply_def reply_of_def is_tcp_def)

lemma error_response_valid:
  assumes "build_error_response query rcode = Some r"
  shows "validate_response_for_query query r = Inr ()"
proof -
  obtain q where q: "parse_question query = Inr q"
    and h: "response_head query (question_end q) (and rcode 0x0f) 0 0 = Some r"
    using assms by (auto simp: build_error_response_def split: sum.splits)
  show ?thesis using head_answers(4)[OF q h, of "[]"] by (simp add: answers_def)
qed

lemma refused_spec: "replies_once env t query s (send_refused_or_drop env t query s)"
proof (cases t)
  case (UdpTarget n)
  then show ?thesis by (simp add: replies_once_def one_reply_def is_tcp_def)
next
  case (TcpTarget n)
  show ?thesis
  proof (cases "build_error_response query RCODE_REFUSED")
    case None
    then show ?thesis using no_response_spec[of env t query s] TcpTarget by simp
  next
    case (Some r)
    obtain s1 e where d: "send_dns_response env t query r s = (s1, e)" by (meson surj_pair)
    have "replies_once env t query s (send_refused_or_drop env t query s)"
      by (rule send_once[OF d error_response_valid[OF Some]])
        (use d Some TcpTarget in \<open>auto split: option.splits\<close>)
    then show ?thesis .
  qed
qed

section \<open>The branches\<close>

lemma parse_query_question: "parse_query query = Inr parsed \<Longrightarrow> parse_question query = Inr (pq_question parsed)"
  by (auto simp: parse_query_def Let_def split: sum.splits option.splits if_splits prod.splits)

lemma block_valid:
  assumes "parse_question query = Inr q"
  shows "\<exists>r. build_block_response query q policy = Some r \<and> validate_response_for_query query r = Inr ()"
  using build_ip_answers[OF assms] build_nxdomain_answers[OF assms]
  by (cases "bp_mode policy") (simp_all add: build_block_response_def answers_def, blast+)

lemma send_and_log_once:
  assumes "validate_response_for_query (wi_query item) r = Inr ()" and "send_and_log env ctx f meta item source r s = (s', b)"
  shows "replies_once env (wi_target item) (wi_query item) s s'"
proof -
  obtain s1 e where d: "send_dns_response env (wi_target item) (wi_query item) r s = (s1, e)" by (meson surj_pair)
  show ?thesis
    by (rule send_once[OF d assms(1)]) (use d assms(2) in \<open>auto simp: send_and_log_def split: option.splits\<close>)
qed

lemma refuse_any_once:
  assumes "refuse_any env ctx f meta item q s = (s', out)"
  shows "out = Answered \<and> replies_once env (wi_target item) (wi_query item) s s'"
proof (cases "build_error_response (wi_query item) RCODE_REFUSED")
  case None
  then show ?thesis
    using assms no_response_spec[of env "wi_target item" "wi_query item" "record_stat (StatQuery (domain q) (wi_client item) (wc_detailed ctx)) s"]
    by (auto simp: refuse_any_def Let_def replies_once_def)
next
  case (Some r)
  obtain s1 e where d: "send_dns_response env (wi_target item) (wi_query item) r
      (record_stat (StatQuery (domain q) (wi_client item) (wc_detailed ctx)) s) = (s1, e)" by (meson surj_pair)
  have "replies_once env (wi_target item) (wi_query item) s s'"
    by (rule send_once[OF d error_response_valid[OF Some]])
      (use d assms Some in \<open>auto simp: refuse_any_def Let_def split: option.splits\<close>)
  then show ?thesis using d assms Some by (auto simp: refuse_any_def Let_def split: option.splits)
qed

lemma answer_locally_once:
  assumes "answer_locally env ctx f meta item q source built s = (s', out)"
    and "\<exists>r. built = Some r \<and> validate_response_for_query (wi_query item) r = Inr ()"
  shows "out = Answered \<and> replies_once env (wi_target item) (wi_query item) s s'"
proof -
  obtain r where r: "built = Some r" "validate_response_for_query (wi_query item) r = Inr ()" using assms(2) by blast
  obtain s1 b where d: "send_and_log env ctx f meta item source r
      (record_stat (StatQuery (domain q) (wi_client item) (wc_detailed ctx)) s) = (s1, b)" by (meson surj_pair)
  show ?thesis using assms(1) r(1) d send_and_log_once[OF r(2) d]
    by (auto simp: answer_locally_def Let_def replies_once_def)
qed

lemma block_query_once:
  assumes "block_query env ctx f meta item q m s = (s', out)" and "parse_question (wi_query item) = Inr q"
  shows "out = Answered \<and> replies_once env (wi_target item) (wi_query item) s s'"
proof -
  obtain r where r: "build_block_response (wi_query item) q (ft_blocking f) = Some r"
    "validate_response_for_query (wi_query item) r = Inr ()" using block_valid[OF assms(2)] by blast
  obtain s1 e where d: "send_dns_response env (wi_target item) (wi_query item) r s = (s1, e)" by (meson surj_pair)
  have "replies_once env (wi_target item) (wi_query item) s s'"
    by (rule send_once[OF d r(2)]) (use d assms(1) r(1) in \<open>auto simp: block_query_def Let_def split: option.splits\<close>)
  then show ?thesis using d assms(1) r(1) by (auto simp: block_query_def Let_def split: option.splits)
qed

lemma redirect_search_once:
  assumes "redirect_search env ctx f meta item q target s = (s', out)" and "parse_question (wi_query item) = Inr q"
  shows "out = Answered \<and> replies_once env (wi_target item) (wi_query item) s s'"
proof -
  obtain r where r: "build_cname_response (wi_query item) q target = Some r"
    "validate_response_for_query (wi_query item) r = Inr ()"
    using build_cname_answers[OF assms(2)] by (auto simp: answers_def)
  obtain s1 e where d: "send_dns_response env (wi_target item) (wi_query item) r
      (record_stat (StatQuery (domain q) (wi_client item) (wc_detailed ctx)) s) = (s1, e)" by (meson surj_pair)
  have "replies_once env (wi_target item) (wi_query item) s s'"
    by (rule send_once[OF d r(2)]) (use d assms(1) r(1) in \<open>auto simp: redirect_search_def Let_def split: option.splits\<close>)
  then show ?thesis using d assms(1) r(1) by (auto simp: redirect_search_def Let_def split: option.splits)
qed

lemma apply_dnsrewrite_once:
  assumes "apply_dnsrewrite env ctx f meta item q m action s = (s', out)" and "parse_question (wi_query item) = Inr q"
  shows "out = Answered \<and> replies_once env (wi_target item) (wi_query item) s s'"
proof -
  obtain r where b: "build_dnsrewrite_response (wi_query item) q action (ft_blocking f) = Some r"
    "answers (wi_query item) q r" using build_dnsrewrite_answers[OF assms(2)] by blast
  have r: "build_dnsrewrite_response (wi_query item) q action (ft_blocking f) = Some r"
    "validate_response_for_query (wi_query item) r = Inr ()" "16 < length r"
    using b answers_length[OF b(2) assms(2)] by (simp_all add: answers_def)
  obtain s1 e where d: "send_dns_response env (wi_target item) (wi_query item) r
      (record_stat (StatQuery (domain q) (wi_client item) (wc_detailed ctx)) s) = (s1, e)" by (meson surj_pair)
  have g: "get_at r 3 = Some (r ! 3)" using r(3) by (simp add: get_at_def)
  have "replies_once env (wi_target item) (wi_query item) s s'"
    by (rule send_once[OF d r(2)]) (use d assms(1) r(1) g in \<open>auto simp: apply_dnsrewrite_def Let_def split: option.splits if_splits\<close>)
  then show ?thesis using d assms(1) r(1) g by (auto simp: apply_dnsrewrite_def Let_def split: option.splits if_splits)
qed

lemma protection_once:
  assumes "deliver_response_protection_block env ctx f meta client t query q b up ms s = (s', out)"
    and "parse_question query = Inr q"
  shows "out = Answered \<and> replies_once env t query s s'"
proof -
  obtain r where r: "build_block_response query q (ft_blocking f) = Some r"
    "validate_response_for_query query r = Inr ()" using block_valid[OF assms(2)] by blast
  obtain s1 e where d: "send_dns_response env t query r (record_stat (StatResponseBlocked (qm_domain meta) client
      (bm_source (pb_match b)) (pb_kind b) (wc_detailed ctx)) s) = (s1, e)" by (meson surj_pair)
  have "replies_once env t query s s'"
    by (rule send_once[OF d r(2)])
      (use d assms(1) r(1) in \<open>auto simp: deliver_response_protection_block_def Let_def split: option.splits\<close>)
  then show ?thesis
    using d assms(1) r(1) by (auto simp: deliver_response_protection_block_def Let_def split: option.splits)
qed

section \<open>The start of a query\<close>

definition pending_at :: "(cache_key \<Rightarrow> u64) \<Rightarrow> pending_queries \<Rightarrow> cache_key \<Rightarrow> nat option" where
  "pending_at hash t k =
     (case get_at (pt_shards t) (shard_index hash k (length (pt_shards t))) of None \<Rightarrow> None | Some m \<Rightarrow> m k)"

definition same_question :: "question \<Rightarrow> question \<Rightarrow> bool" where
  "same_question q q' = (domain q = domain q' \<and> qtype q = qtype q' \<and> qclass q = qclass q')"

definition key_matches :: "cache_key \<Rightarrow> question \<Rightarrow> bool" where
  "key_matches k q = (ck_domain k = domain q \<and> ck_qtype k = qtype q \<and> ck_qclass k = qclass q)"

text \<open>The query has become a duplicate that waits for the query in flight.\<close>

definition waits :: "(cache_key \<Rightarrow> u64) \<Rightarrow> work_item \<Rightarrow> pending_queries \<Rightarrow> pending_queries \<Rightarrow> bool" where
  "waits hash item t t' =
     (\<exists>parsed k p fs w. parse_query (wi_query item) = Inr parsed \<and> key_matches k (pq_question parsed) \<and>
        pending_at hash t k = Some p \<and> pt_followers t p = Some fs \<and> length fs < MAX_PENDING_FOLLOWERS \<and>
        fl_query w = wi_query item \<and> fl_target w = wi_target item \<and>
        t' = t\<lparr>pt_followers := (pt_followers t)(p := Some (fs @ [w]))\<rparr>)"

text \<open>The query goes to the upstream servers, alone or as the one others wait for.\<close>

definition leads :: "(cache_key \<Rightarrow> u64) \<Rightarrow> forward_job \<Rightarrow> pending_queries \<Rightarrow> pending_queries \<Rightarrow> bool" where
  "leads hash job t t' =
     (case fj_pending job of
        None \<Rightarrow> t' = t
      | Some p \<Rightarrow>
          \<exists>k. fj_key job = Some k \<and> pending_at hash t k = None \<and> p = pt_fresh t \<and> pt_fresh t' = p + 1 \<and>
            pt_followers t' = (pt_followers t)(p := Some []) \<and>
            (pt_shards t' = pt_shards t \<or>
             (\<exists>m. get_at (pt_shards t) (shard_index hash k (length (pt_shards t))) = Some m \<and>
                  pt_shards t' = (pt_shards t)[shard_index hash k (length (pt_shards t)) := m(k \<mapsto> p)])))"

definition job_ok :: "work_item \<Rightarrow> forward_job \<Rightarrow> bool" where
  "job_ok item job =
     (fj_item job = item \<and> parse_query (wi_query item) = Inr (fj_parsed job) \<and>
      (\<forall>k. fj_key job = Some k \<longrightarrow> key_matches k (pq_question (fj_parsed job))))"

lemma new_pending_simps [simp]:
  "new_pending_query t = (t', p) \<longleftrightarrow>
     p = pt_fresh t \<and> t' = t\<lparr>pt_followers := (pt_followers t)(p := Some []), pt_fresh := p + 1\<rparr>"
  by (auto simp: new_pending_query_def)

lemma begin_cases:
  assumes "pending_begin hash t k = (t', role)"
  shows "(\<exists>p. role = Follower p \<and> t' = t \<and> pending_at hash t k = Some p) \<or>
    (role = Leader (pt_fresh t) \<and> (\<forall>job. fj_pending job = Some (pt_fresh t) \<longrightarrow> fj_key job = Some k \<longrightarrow> leads hash job t t'))"
  using assms
  by (auto simp: pending_begin_def Let_def pending_at_def leads_def new_pending_query_def
      split: option.splits prod.splits)

lemma join_cases:
  assumes j: "join_pending env meta item q key s = (s', r)"
    and p: "parse_query (wi_query item) = Inr parsed" and q: "q = pq_question parsed"
    and k: "\<forall>k. key = Some k \<longrightarrow> key_matches k q"
  shows "replies s' = replies s \<and> ws_cache s' = ws_cache s \<and>
    (case r of Inl out \<Rightarrow> out = Answered \<and> waits (en_hash env) item (ws_pending s) (ws_pending s')
     | Inr pd \<Rightarrow> \<forall>job. fj_pending job = pd \<longrightarrow> fj_key job = key \<longrightarrow> leads (en_hash env) job (ws_pending s) (ws_pending s'))"
proof (cases key)
  case None
  then show ?thesis using j by (auto simp: join_pending_def leads_def)
next
  case key: (Some k')
  obtain t role where b: "pending_begin (en_hash env) (ws_pending s) k' = (t, role)" by (meson surj_pair)
  from begin_cases[OF b] show ?thesis
  proof (elim disjE exE conjE)
    fix n assume role: "role = Follower n" "t = ws_pending s" "pending_at (en_hash env) (ws_pending s) k' = Some n"
    let ?w = "\<lparr>fl_query = wi_query item, fl_client = wi_client item, fl_target = wi_target item,
      fl_domain = domain q, fl_qtype = qtype q, fl_qclass = qclass q, fl_transport = qm_transport meta\<rparr>"
    show ?thesis
    proof (cases "\<exists>fs. pt_followers (ws_pending s) n = Some fs \<and> length fs < MAX_PENDING_FOLLOWERS")
      case True
      then obtain fs where fs: "pt_followers (ws_pending s) n = Some fs" "length fs < MAX_PENDING_FOLLOWERS" by blast
      have r: "s' = s\<lparr>ws_pending := (ws_pending s)\<lparr>pt_followers := (pt_followers (ws_pending s))(n := Some (fs @ [?w]))\<rparr>\<rparr>"
        "r = Inl Answered"
        using j key b role fs by (auto simp: join_pending_def register_pending_follower_def)
      have "waits (en_hash env) item (ws_pending s) (ws_pending s')"
        unfolding waits_def r(1)
        by (rule exI[of _ parsed], rule exI[of _ k'], rule exI[of _ n], rule exI[of _ fs], rule exI[of _ ?w])
          (use p q k key role fs in simp)
      then show ?thesis using r by simp
    next
      case False
      then show ?thesis using j key b role
        by (auto simp: join_pending_def register_pending_follower_def leads_def split: option.splits if_splits)
    qed
  next
    assume role: "role = Leader (pt_fresh (ws_pending s))"
      "\<forall>job. fj_pending job = Some (pt_fresh (ws_pending s)) \<longrightarrow> fj_key job = Some k' \<longrightarrow> leads (en_hash env) job (ws_pending s) t"
    then show ?thesis using j key b by (auto simp: join_pending_def)
  qed
qed

lemma finish_refresh_fields [simp]:
  "ws_pending (finish_refresh env k s) = ws_pending s" "replies (finish_refresh env k s) = replies s"
  by (simp_all add: finish_refresh_def)

lemma finish_refresh_ok: "cache_ok (ws_cache s) \<Longrightarrow> cache_ok (ws_cache (finish_refresh env k s))"
  by (auto simp: finish_refresh_def intro!: cache_ok_map store_ok_finish)

lemma refresh_async_fields:
  "ws_pending (refresh_cache_async env ctx job s) = ws_pending s"
  "replies (refresh_cache_async env ctx job s) = replies s"
  "cache_ok (ws_cache s) \<Longrightarrow> cache_ok (ws_cache (refresh_cache_async env ctx job s))"
proof -
  show "ws_pending (refresh_cache_async env ctx job s) = ws_pending s"
    "replies (refresh_cache_async env ctx job s) = replies s"
    by (simp_all add: refresh_cache_async_def Let_def reply_of_def split: option.splits)
  assume ok: "cache_ok (ws_cache s)"
  show "cache_ok (ws_cache (refresh_cache_async env ctx job s))"
  proof (cases "ws_cache s")
    case (Some c)
    have st: "cache_ok (Some (record_refresh_started c (rj_reason job)))"
      using cache_ok_map[OF ok, of "\<lambda>c. record_refresh_started c (rj_reason job)"] store_ok_record(1) Some by auto
    have fl: "cache_ok x \<Longrightarrow> cache_ok (map_option (\<lambda>c. record_refresh_failed c r) x)" for x r
      by (rule cache_ok_map) (auto dest: store_ok_record(3))
    show ?thesis
      using Some ok st finish_refresh_ok[of "s\<lparr>ws_cache := Some (record_refresh_started c (rj_reason job))\<rparr>" env "rj_key job"]
        finish_refresh_ok[of s env "rj_key job"] fl
      by (auto simp: refresh_cache_async_def Let_def split: option.splits)
  qed (use ok in \<open>simp add: refresh_cache_async_def\<close>)
qed

lemma once_trans:
  assumes "replies_once env t query s0 s1" and "ws_pending s0 = ws_pending s" "replies s0 = replies s"
    "cache_ok (ws_cache s) \<longrightarrow> cache_ok (ws_cache s0)"
    and "ws_pending s' = ws_pending s1" "replies s' = replies s1"
    "cache_ok (ws_cache s1) \<longrightarrow> cache_ok (ws_cache s')"
  shows "replies_once env t query s s'"
  using assms unfolding replies_once_def by auto

lemma serve_cache_hit_once:
  assumes h: "serve_cache_hit env ctx f meta item q filtering routed key r reason s = (s', out)"
    and q: "parse_question (wi_query item) = Inr q" and v: "validate_response_for_query (wi_query item) r = Inr ()"
  shows "out = Answered \<and> replies_once env (wi_target item) (wi_query item) s s'"
proof (cases "if filtering then response_protection_block f q r (routed \<noteq> None) else None")
  case (Some b)
  let ?s = "if reason = None then s else finish_refresh env key s"
  have "deliver_response_protection_block env ctx f meta (wi_client item) (wi_target item) (wi_query item) q
      b None None ?s = (s', out)" using h Some by (simp add: serve_cache_hit_def)
  from protection_once[OF this q] have p: "out = Answered" "replies_once env (wi_target item) (wi_query item) ?s s'" by auto
  have "replies_once env (wi_target item) (wi_query item) s s'"
    by (rule once_trans[OF p(2)]) (simp_all add: finish_refresh_ok)
  then show ?thesis using p(1) by simp
next
  case None
  obtain s1 e where d: "send_dns_response env (wi_target item) (wi_query item) r s = (s1, e)" by (meson surj_pair)
  have o: "replies_once env (wi_target item) (wi_query item) s s1" by (rule send_once[OF d v]) simp_all
  show ?thesis
  proof (cases e)
    case N: None
    have "replies_once env (wi_target item) (wi_query item) s s'"
      by (rule once_trans[OF o])
        (use h None d N refresh_async_fields in \<open>auto simp: serve_cache_hit_def Let_def split: option.splits\<close>)
    then show ?thesis using h None d N by (auto simp: serve_cache_hit_def Let_def)
  next
    case S: (Some x)
    have "replies_once env (wi_target item) (wi_query item) s s'"
      by (rule once_trans[OF o])
        (use h None d S finish_refresh_ok in \<open>auto simp: serve_cache_hit_def Let_def split: if_splits\<close>)
    then show ?thesis using h None d S by (auto simp: serve_cache_hit_def Let_def)
  qed
qed

text \<open>What the start of a query does to the clients, the cache and the table of pending queries.\<close>

definition start_ok :: "worker_env \<Rightarrow> work_item \<Rightarrow> worker_state \<Rightarrow> worker_state \<Rightarrow> start_outcome \<Rightarrow> bool" where
  "start_ok env item s s' out =
     (case out of
        Done res \<Rightarrow>
          res = Answered \<and>
          (replies_once env (wi_target item) (wi_query item) s s' \<or>
           (waits (en_hash env) item (ws_pending s) (ws_pending s') \<and> replies s' = replies s \<and> cache_ok (ws_cache s')))
      | Forward job \<Rightarrow>
          job_ok item job \<and> leads (en_hash env) job (ws_pending s) (ws_pending s') \<and> replies s' = replies s \<and>
          cache_ok (ws_cache s'))"

lemma forward_start_ok:
  assumes j: "join_pending env meta item (pq_question parsed) key s0 = (s', r)"
    and p: "parse_query (wi_query item) = Inr parsed"
    and k: "\<forall>k. key = Some k \<longrightarrow> key_matches k (pq_question parsed)"
    and s0: "replies s0 = replies s" "ws_pending s0 = ws_pending s" "cache_ok (ws_cache s0)"
  shows "start_ok env item s s' (case r of Inl out \<Rightarrow> Done out
    | Inr pd \<Rightarrow> Forward \<lparr>fj_item = item, fj_parsed = parsed, fj_key = key, fj_pending = pd, fj_route = routed, fj_filtering = b\<rparr>)"
  using join_cases[OF j p refl k] s0 p k by (cases r) (auto simp: start_ok_def job_ok_def)

lemma key_from_matches: "key_from_query parsed = Some k \<Longrightarrow> key_matches (with_route k r) (pq_question parsed)"
  by (auto simp: key_from_query_def with_route_def key_matches_def split: if_splits)

lemma look_up_start_ok:
  assumes l: "look_up_and_forward env ctx f meta item parsed fe fa lr s = (s', out)"
    and p: "parse_query (wi_query item) = Inr parsed" and ok: "cache_ok (ws_cache s)"
  shows "start_ok env item s s' out"
proof -
  let ?q = "pq_question parsed"
  let ?s = "record_stat (StatQuery (domain ?q) (wi_client item) (wc_detailed ctx)) s"
  let ?routed = "case lr of Some r \<Rightarrow> Some r | None \<Rightarrow> select_route (wc_routes ctx) (domain ?q) (wi_client item)"
  let ?key = "map_option (\<lambda>k. with_route k (cache_scope fe ?routed)) (key_from_query parsed)"
  let ?fwd = "\<lambda>s. case join_pending env meta item ?q ?key s of
      (s', Inl out) \<Rightarrow> (s', Done out)
    | (s', Inr p) \<Rightarrow> (s', Forward \<lparr>fj_item = item, fj_parsed = parsed, fj_key = ?key, fj_pending = p,
                               fj_route = ?routed, fj_filtering = fa\<rparr>)"
  have km: "\<forall>k. ?key = Some k \<longrightarrow> key_matches k ?q" using key_from_matches by auto
  have fwd: "start_ok env item s s' out" if "?fwd s0 = (s', out)" "replies s0 = replies s"
    "ws_pending s0 = ws_pending s" "cache_ok (ws_cache s0)" for s0
  proof -
    obtain s2 r where j: "join_pending env meta item ?q ?key s0 = (s2, r)" by (meson surj_pair)
    show ?thesis using forward_start_ok[OF j p km that(2-4), of ?routed fa] that(1) j by (auto split: sum.splits)
  qed
  show ?thesis
  proof (cases ?key)
    case None
    then have "?fwd ?s = (s', out)" using l by (simp only: look_up_and_forward_def Let_def option.case)
    then show ?thesis by (rule fwd) (simp_all add: ok)
  next
    case (Some k)
    obtain cache hit where h: "lookup_cached_response (en_hash env) (ws_cache ?s) k (wi_query item) (en_cache_second env) = (cache, hit)"
      by (meson surj_pair)
    note c = cache_ok_lookup[OF h]
    show ?thesis
    proof (cases hit)
      case None
      then have "?fwd (?s\<lparr>ws_cache := cache\<rparr>) = (s', out)" using l h by (simp only: look_up_and_forward_def Let_def Some option.case prod.case None)
      then show ?thesis by (rule fwd) (use c ok in simp_all)
    next
      case H: (Some rr)
      obtain r reason where rr: "hit = Some (r, reason)" using H by (metis surj_pair)
      obtain res where sv: "serve_cache_hit env ctx f meta item ?q fa ?routed k r reason (?s\<lparr>ws_cache := cache\<rparr>) = (s', res)"
        "out = Done res" using l Some h rr by (auto simp: look_up_and_forward_def Let_def split: prod.splits)
      have "res = Answered \<and> replies_once env (wi_target item) (wi_query item) (?s\<lparr>ws_cache := cache\<rparr>) s'"
        by (rule serve_cache_hit_once[OF sv(1) parse_query_question[OF p]]) (use c ok rr in simp)
      then show ?thesis using sv(2) c ok by (auto simp: start_ok_def replies_once_def)
    qed
  qed
qed

lemma done_start_ok:
  assumes "res = Answered \<and> replies_once env (wi_target item) (wi_query item) s s'"
  shows "start_ok env item s s' (Done res)"
  using assms by (simp add: start_ok_def)

lemma reverse_answer:
  assumes "parse_question query = Inr q"
  shows "\<exists>r. build_dnsrewrite_response query q action policy = Some r \<and> validate_response_for_query query r = Inr ()"
  using build_dnsrewrite_answers[OF assms] by (auto simp: answers_def)

lemma rewrite_answer:
  assumes "parse_question query = Inr q"
  shows "\<exists>r. build_rewrite_response query q target = Some r \<and> validate_response_for_query query r = Inr ()"
  using build_ip_answers[OF assms, of RCODE_NOERROR "rt_ipv4 target" "rt_ipv6 target" REWRITE_RESPONSE_TTL]
  by (auto simp: build_rewrite_response_def answers_def)

lemma answer_question_ok:
  assumes a: "answer_question env ctx f item parsed s = (s', out)"
    and p: "parse_query (wi_query item) = Inr parsed" and ok: "cache_ok (ws_cache s)"
  shows "start_ok env item s s' out"
proof -
  note q = parse_query_question[OF p]
  let ?q = "pq_question parsed"
  let ?policy = "decision_at (ft_client_filtering f) (wi_client item) (en_weekday env) (en_minute env)"
  let ?active = "fd_mode ?policy = FilterClient \<and> \<not> en_pause_second env < wc_paused_until ctx"
  note unfold = answer_question_def Let_def
  consider "wc_refuse_any ctx \<and> qtype ?q = TYPE_ANY"
    | t where "\<not> (wc_refuse_any ctx \<and> qtype ?q = TYPE_ANY)" "rewrites_lookup (ft_rewrites f) (domain ?q) = Some t"
    | "\<not> (wc_refuse_any ctx \<and> qtype ?q = TYPE_ANY)" "rewrites_lookup (ft_rewrites f) (domain ?q) = None" by fastforce
  then show ?thesis
  proof cases
    case 1
    then show ?thesis using a by (auto simp: unfold split: prod.splits intro!: done_start_ok dest: refuse_any_once)
  next
    case 2
    then show ?thesis using a
      by (auto simp: unfold split: prod.splits intro!: done_start_ok dest!: answer_locally_once intro: rewrite_answer[OF q])
  next
    case 3
    note c = 3
    consider m where "(if ?active then decision_blocked_service ?policy (domain ?q) else None) = Some m"
      | m where "(if ?active then decision_blocked_service ?policy (domain ?q) else None) = None"
          "(if ?active then decision_safe_search_target ?policy (domain ?q) else None) = Some m"
      | m where "(if ?active then decision_blocked_service ?policy (domain ?q) else None) = None"
          "(if ?active then decision_safe_search_target ?policy (domain ?q) else None) = None"
          "(if ?active then blocking_match (ft_rules f) (domain ?q) (qtype ?q) else None) = Some m"
      | "(if ?active then decision_blocked_service ?policy (domain ?q) else None) = None"
          "(if ?active then decision_safe_search_target ?policy (domain ?q) else None) = None"
          "(if ?active then blocking_match (ft_rules f) (domain ?q) (qtype ?q) else None) = None"
      by fastforce
    then show ?thesis
    proof cases
      case 1
      then show ?thesis using a c
        by (auto simp: unfold split: prod.splits intro!: done_start_ok dest: block_query_once[OF _ q])
    next
      case 2
      then show ?thesis using a c
        by (auto simp: unfold split: prod.splits intro!: done_start_ok dest: redirect_search_once[OF _ q])
    next
      case 3
      then show ?thesis using a c
        by (auto simp: unfold split: prod.splits option.splits intro!: done_start_ok
            dest: block_query_once[OF _ q] apply_dnsrewrite_once[OF _ q])
    next
      case 4
      let ?rev = "wc_private_reverse ctx \<and> is_local_reverse_name (domain ?q)"
      let ?route = "if ?rev then select_domain (wc_routes ctx) (domain ?q) else None"
      show ?thesis
      proof (cases "?rev \<and> ?route = None")
        case True
        then have t: "wc_private_reverse ctx" "is_local_reverse_name (domain ?q)"
          "select_domain (wc_routes ctx) (domain ?q) = None" by auto
        let ?r = "build_dnsrewrite_response (wi_query item) ?q (RCode RCODE_NXDOMAIN) (ft_blocking f)"
        let ?a = "answer_locally env ctx f (metadata_new ?q (wi_target item) (length (wi_query item))) item ?q
          SourceLocalReverse ?r s"
        have "(case ?a of (s', out) \<Rightarrow> (s', Done out)) = (s', out)"
          using a c 4 t by (simp only: unfold if_True if_False option.case simp_thms)
        then obtain res where res: "?a = (s', res)" "out = Done res" by (cases ?a) simp
        show ?thesis unfolding res(2)
          by (rule done_start_ok) (rule answer_locally_once[OF res(1) reverse_answer[OF q]])
      next
        case False
        have "look_up_and_forward env ctx f (metadata_new ?q (wi_target item) (length (wi_query item))) item parsed
            (fd_mode ?policy = FilterClient) ?active ?route s = (s', out)"
          using a c 4 False by (simp only: unfold if_False option.case)
        then show ?thesis by (rule look_up_start_ok[OF _ p ok])
      qed
    qed
  qed
qed

lemma handle_start_ok:
  assumes h: "handle_start env ctx f item s = (s', out)" and ok: "cache_ok (ws_cache s)"
  shows "start_ok env item s s' out"
proof -
  obtain access dec where a: "access_check (ws_access s) (wi_client item) (en_access_second env) = (access, dec)"
    by (meson surj_pair)
  have refused: "start_ok env item s (send_refused_or_drop env (wi_target item) (wi_query item)
      (record_stat e (s\<lparr>ws_access := access\<rparr>))) (Done Answered)" for e
    by (rule done_start_ok) (rule conjI[OF refl], rule once_trans[OF refused_spec[of env _ _ "record_stat e (s\<lparr>ws_access := access\<rparr>)"]], simp_all)
  have silent: "start_ok env item s (send_no_response (wi_target item)
      (record_stat e (s\<lparr>ws_access := access\<rparr>))) (Done Answered)" for e
    by (rule done_start_ok) (rule conjI[OF refl], rule once_trans[OF no_response_spec[of env _ _ "record_stat e (s\<lparr>ws_access := access\<rparr>)"]], simp_all)
  show ?thesis
  proof (cases dec)
    case AllowClient
    show ?thesis
    proof (cases "parse_query (wi_query item)")
      case (Inl e)
      then show ?thesis using h a AllowClient silent by (auto simp: handle_start_def Let_def)
    next
      case (Inr parsed)
      then have "answer_question env ctx f item parsed (s\<lparr>ws_access := access\<rparr>) = (s', out)"
        using h a AllowClient by (simp add: handle_start_def Let_def)
      then have "start_ok env item (s\<lparr>ws_access := access\<rparr>) s' out"
        by (rule answer_question_ok[OF _ Inr]) (simp add: ok)
      then show ?thesis by (auto simp: start_ok_def replies_once_def split: start_outcome.splits)
    qed
  qed (use h a refused in \<open>auto simp: handle_start_def Let_def\<close>)
qed

section \<open>The end of a query\<close>

lemma valid_is_response: "validate_response_for_query query r = Inr () \<Longrightarrow> is_response r"
  by (auto simp: validate_response_for_query_def is_response_def split: if_splits)

lemma prepare_forwarded_valid:
  assumes v: "validate_response_for_query lq r = Inr ()" and l: "parse_question lq = Inr ql"
    and f: "parse_question fq = Inr qf" and s: "same_question ql qf"
  shows "validate_response_for_query fq (prepare_forwarded_response r fq) = Inr ()"
proof (cases "prepare_response_for_query r fq")
  case (Some r')
  have "\<exists>q. answers fq q r'"
    using prepare_response_answers[OF Some] valid_is_response[OF v] by (auto simp: is_response_def)
  then show ?thesis using Some by (auto simp: prepare_forwarded_response_def answers_def)
next
  case None
  obtain rq where rq: "parse_question r = Inr rq" "same_question ql rq" and g: "r ! 2 AND 0x80 \<noteq> 0"
    using v l by (auto simp: validate_response_for_query_def same_question_def split: if_splits sum.splits)
  note b = parse_question_bounds[OF f] parse_question_bounds[OF rq(1)]
  let ?r = "splice r 0 (slice fq 0 2)"
  have len: "length (slice fq 0 2) = 2" using b by (auto simp: length_slice min_def)
  have ag: "agree 2 12 r ?r" "agree 12 (question_end rq) r ?r" using b len by (auto intro!: agree_splice)
  have "read_u16 ?r 4 = Some 1" using parse_question_Inr[OF rq(1)] agree_read_u16[OF ag(1), of 4] by simp
  then have "parse_question ?r = Inr rq" by (rule parse_question_agree[OF rq(1) ag(2)])
  moreover have "?r ! 2 = r ! 2" using b len by (simp add: nth_splice)
  moreover have "slice ?r 0 2 = slice fq 0 2" using b len by (simp add: splice_def slice_def)
  moreover have "prepare_forwarded_response r fq = ?r" using None b by (simp add: prepare_forwarded_response_def)
  ultimately show ?thesis
    using b g s rq(2) f len by (simp add: validate_response_for_query_def same_question_def length_splice)
qed

text \<open>A step that replies at most once to each of the given clients.\<close>

definition replies_for ::
  "worker_env \<Rightarrow> (response_target \<times> packet) list \<Rightarrow> worker_state \<Rightarrow> worker_state \<Rightarrow> bool" where
  "replies_for env ws s s' =
     (ws_pending s' = ws_pending s \<and> (cache_ok (ws_cache s) \<longrightarrow> cache_ok (ws_cache s')) \<and>
      (\<exists>rs. replies s' = replies s @ rs \<and> mset (map fst rs) \<subseteq># mset (map fst ws) \<and>
        (\<forall>(t, r)\<in>set rs. \<exists>q. (t, q) \<in> set ws \<and> valid_reply q r) \<and>
        (\<forall>(t, q)\<in>set ws. is_tcp t \<and> (\<forall>p. en_send env t p = None) \<longrightarrow> t \<in> fst ` set rs)))"

lemma replies_for_Nil: "replies_for env [] s s"
  by (simp add: replies_for_def)

lemma replies_for_one: 
  assumes "replies_once env t q s s'"
  shows "replies_for env [(t, q)] s s'"
proof -
  obtain rs where rs: "replies s' = replies s @ rs" "one_reply env t q rs"
    using assms by (auto simp: replies_once_def)
  show ?thesis
  proof (cases rs)
    case Nil
    then show ?thesis using rs assms by (auto simp: replies_for_def replies_once_def one_reply_def)
  next
    case (Cons x xs)
    then have "rs = [x]" "fst x = t" "valid_reply q (snd x)" using rs(2) by (auto simp: one_reply_def split: prod.splits)
    then show ?thesis using rs(1) assms
      by (cases x) (auto simp: replies_for_def replies_once_def intro!: exI[of _ "[x]"])
  qed
qed

lemma replies_for_append:
  assumes "replies_for env ws s s1" and "replies_for env ws' s1 s2"
  shows "replies_for env (ws @ ws') s s2"
proof -
  obtain rs where a: "replies s1 = replies s @ rs" "mset (map fst rs) \<subseteq># mset (map fst ws)"
    "\<forall>(t, r)\<in>set rs. \<exists>q. (t, q) \<in> set ws \<and> valid_reply q r"
    "\<forall>(t, q)\<in>set ws. is_tcp t \<and> (\<forall>p. en_send env t p = None) \<longrightarrow> t \<in> fst ` set rs"
    using assms(1) unfolding replies_for_def by blast
  obtain rs' where b: "replies s2 = replies s1 @ rs'" "mset (map fst rs') \<subseteq># mset (map fst ws')"
    "\<forall>(t, r)\<in>set rs'. \<exists>q. (t, q) \<in> set ws' \<and> valid_reply q r"
    "\<forall>(t, q)\<in>set ws'. is_tcp t \<and> (\<forall>p. en_send env t p = None) \<longrightarrow> t \<in> fst ` set rs'"
    using assms(2) unfolding replies_for_def by blast
  have "mset (map fst (rs @ rs')) \<subseteq># mset (map fst (ws @ ws'))"
    using subset_mset.add_mono[OF a(2) b(2)] by simp
  moreover have "replies s2 = replies s @ (rs @ rs')" using a(1) b(1) by simp
  moreover have "\<forall>(t, r)\<in>set (rs @ rs'). \<exists>q. (t, q) \<in> set (ws @ ws') \<and> valid_reply q r"
    using a(3) b(3) by (fastforce simp: case_prod_unfold)
  moreover have "\<forall>(t, q)\<in>set (ws @ ws'). is_tcp t \<and> (\<forall>p. en_send env t p = None) \<longrightarrow> t \<in> fst ` set (rs @ rs')"
    using a(4) b(4) by (auto simp: image_Un)
  moreover have "ws_pending s2 = ws_pending s" "cache_ok (ws_cache s) \<longrightarrow> cache_ok (ws_cache s2)"
    using assms by (auto simp: replies_for_def)
  ultimately show ?thesis unfolding replies_for_def by blast
qed

lemma replies_for_frame:
  assumes "replies_for env ws s1 s2" and "replies s = replies s1" "replies s' = replies s2"
    and "ws_pending s' = ws_pending s" and "cache_ok (ws_cache s) \<longrightarrow> cache_ok (ws_cache s1)"
    and "cache_ok (ws_cache s2) \<longrightarrow> cache_ok (ws_cache s')"
  shows "replies_for env ws s s'"
  using assms unfolding replies_for_def by auto

text \<open>The waiting duplicates of a query, and what the result of the exchange has to satisfy.\<close>

definition follower_pair :: "pending_follower \<Rightarrow> response_target \<times> packet" where
  "follower_pair w = (fl_target w, fl_query w)"

definition asks :: "question \<Rightarrow> pending_follower \<Rightarrow> bool" where
  "asks q w = (\<exists>parsed. parse_query (fl_query w) = Inr parsed \<and> same_question q (pq_question parsed))"

definition result_ok :: "packet \<Rightarrow> string + forward_response \<Rightarrow> bool" where
  "result_ok query result =
     (case result of Inl _ \<Rightarrow> True | Inr fw \<Rightarrow> validate_response_for_query query (fw_response fw) = Inr ())"

lemma follower_once:
  assumes r: "result_ok lq result" and l: "parse_question lq = Inr ql" and w: "asks ql w"
  shows "replies_once env (fl_target w) (fl_query w) s (deliver_pending_follower env ctx f result w s)"
proof (cases result)
  case (Inl e)
  show ?thesis
    by (rule once_trans[OF no_response_spec[of env "fl_target w" "fl_query w" "record_stat (StatError (UpstreamFailed e)) s"]])
      (simp_all add: Inl deliver_pending_follower_def)
next
  case (Inr fw)
  obtain parsed where p: "parse_query (fl_query w) = Inr parsed" "same_question ql (pq_question parsed)"
    using w by (auto simp: asks_def)
  let ?r = "prepare_forwarded_response (fw_response fw) (fl_query w)"
  have v: "validate_response_for_query (fl_query w) ?r = Inr ()"
    using prepare_forwarded_valid[OF _ l parse_query_question[OF p(1)] p(2)] r Inr by (simp add: result_ok_def)
  obtain s1 e where d: "send_dns_response env (fl_target w) (fl_query w) ?r s = (s1, e)" by (meson surj_pair)
  show ?thesis
    by (rule send_once[OF d v]) (use d Inr in \<open>auto simp: deliver_pending_follower_def Let_def split: option.splits\<close>)
qed

lemma fold_followers:
  assumes r: "result_ok lq result" and l: "parse_question lq = Inr ql" and w: "\<forall>w\<in>set fs. asks ql w"
  shows "replies_for env (map follower_pair fs) s (fold (deliver_pending_follower env ctx f result) fs s)"
  using w
proof (induction fs arbitrary: s)
  case (Cons w fs)
  let ?s = "deliver_pending_follower env ctx f result w s"
  have "replies_for env [follower_pair w] s ?s"
    using replies_for_one[OF follower_once[OF r l]] Cons.prems by (simp add: follower_pair_def)
  from replies_for_append[OF this Cons.IH[of ?s]] Cons.prems show ?case by simp
qed (simp add: replies_for_Nil)

lemma blocked_follower_once:
  assumes w: "asks ql w"
  shows "\<exists>s'. deliver_blocked_follower env ctx f b up ms w (s, Answered) = (s', Answered) \<and>
    replies_once env (fl_target w) (fl_query w) s s'"
proof -
  obtain parsed where p: "parse_query (fl_query w) = Inr parsed" using w by (auto simp: asks_def)
  obtain s' out where d: "deliver_response_protection_block env ctx f (follower_metadata w) (fl_client w) (fl_target w)
    (fl_query w) (pq_question parsed) b up ms s = (s', out)" by (meson surj_pair)
  from protection_once[OF d parse_query_question[OF p]] show ?thesis using d p by (simp add: deliver_blocked_follower_def)
qed

lemma fold_blocked_followers:
  assumes w: "\<forall>w\<in>set fs. asks ql w"
  shows "\<exists>s'. fold (deliver_blocked_follower env ctx f b up ms) fs (s, Answered) = (s', Answered) \<and>
    replies_for env (map follower_pair fs) s s'"
  using w
proof (induction fs arbitrary: s)
  case (Cons w fs)
  obtain s1 where s1: "deliver_blocked_follower env ctx f b up ms w (s, Answered) = (s1, Answered)"
    "replies_once env (fl_target w) (fl_query w) s s1" using blocked_follower_once[of ql w env ctx f b up ms s] Cons.prems by auto
  obtain s2 where s2: "fold (deliver_blocked_follower env ctx f b up ms) fs (s1, Answered) = (s2, Answered)"
    "replies_for env (map follower_pair fs) s1 s2" using Cons.IH[of s1] Cons.prems by auto
  show ?case using replies_for_append[OF replies_for_one[OF s1(2)] s2(2)] s1(1) s2(1)
    by (simp add: follower_pair_def[of w])
qed (simp add: replies_for_Nil)


definition waiters :: "forward_job \<Rightarrow> pending_queries \<Rightarrow> pending_follower list" where
  "waiters job t =
     (case (fj_key job, fj_pending job) of
        (Some k, Some p) \<Rightarrow> (case pt_followers t p of Some fs \<Rightarrow> fs | None \<Rightarrow> [])
      | _ \<Rightarrow> [])"

definition released :: "(cache_key \<Rightarrow> u64) \<Rightarrow> forward_job \<Rightarrow> pending_queries \<Rightarrow> pending_queries" where
  "released hash job t =
     (case (fj_key job, fj_pending job) of
        (Some k, Some p) \<Rightarrow> (pending_finish hash t k p)\<lparr>pt_followers := (pt_followers t)(p := None)\<rparr>
      | _ \<Rightarrow> t)"

lemma take_finish:
  "take_followers (pending_finish hash t k p) p =
     ((pending_finish hash t k p)\<lparr>pt_followers := (pt_followers t)(p := None)\<rparr>,
      case pt_followers t p of Some fs \<Rightarrow> fs | None \<Rightarrow> [])"
proof -
  have "pt_followers (pending_finish hash t k p) = pt_followers t"
    by (auto simp: pending_finish_def Let_def split: option.splits)
  then show ?thesis by (simp add: take_followers_def)
qed

lemma deliver_forwarded_once:
  assumes "validate_response_for_query (wi_query item) (fw_response fw) = Inr ()"
  shows "replies_once env (wi_target item) (wi_query item) s (deliver_forwarded env ctx f meta item fw s)"
proof -
  obtain s1 e where d: "send_dns_response env (wi_target item) (wi_query item) (fw_response fw) s = (s1, e)"
    by (meson surj_pair)
  show ?thesis
    by (rule send_once[OF d assms]) (use d in \<open>auto simp: deliver_forwarded_def Let_def split: option.splits\<close>)
qed

text \<open>The end of a query replies to the duplicates and to the query itself, and never panics.\<close>

lemma handle_finish_blocked:
  assumes j: "job_ok item job" and w: "\<forall>w\<in>set (waiters job (ws_pending s)). asks (pq_question (fj_parsed job)) w"
    and r: "result = Inr fw" and fb: "fj_filtering job"
    and b: "response_protection_block f (pq_question (fj_parsed job)) (fw_response fw) (fj_route job \<noteq> None) = Some b"
    and h: "handle_finish env ctx f job traffic result s = (s', out)"
  shows "out = Answered \<and>
    replies_for env (map follower_pair (waiters job (ws_pending s)) @ [(wi_target item, wi_query item)])
      (s\<lparr>ws_pending := released (en_hash env) job (ws_pending s)\<rparr>) s'"
proof -
  let ?q = "pq_question (fj_parsed job)" and ?s = "s\<lparr>ws_pending := released (en_hash env) job (ws_pending s)\<rparr>"
  let ?up = "Some (fw_upstream fw)" and ?ms = "Some (fw_duration_ms fw)"
  have item: "fj_item job = item" and p: "parse_query (wi_query item) = Inr (fj_parsed job)"
    using j by (auto simp: job_ok_def)
  let ?first = "case (fj_key job, fj_pending job) of
      (Some key, Some p) \<Rightarrow> finish_pending_protection_block env ctx f key p b ?up ?ms s | _ \<Rightarrow> (s, Answered)"
  have "\<exists>s1. ?first = (s1, Answered) \<and> replies_for env (map follower_pair (waiters job (ws_pending s))) ?s s1"
  proof (cases "\<exists>k p. fj_key job = Some k \<and> fj_pending job = Some p")
    case True
    then obtain k n where kn: "fj_key job = Some k" "fj_pending job = Some n" by blast
    have "?first = fold (deliver_blocked_follower env ctx f b ?up ?ms) (waiters job (ws_pending s)) (?s, Answered)"
      by (simp add: kn finish_pending_protection_block_def take_finish waiters_def released_def)
    then show ?thesis using fold_blocked_followers[OF w, of env ctx f b ?up ?ms ?s] by auto
  next
    case False
    then show ?thesis by (auto simp: waiters_def released_def replies_for_Nil split: option.splits)
  qed
  then obtain s1 where s1: "?first = (s1, Answered)" "replies_for env (map follower_pair (waiters job (ws_pending s))) ?s s1"
    by blast
  let ?meta = "(metadata_new ?q (wi_target item) (length (wi_query item)))\<lparr>qm_traffic := traffic\<rparr>"
  have "deliver_response_protection_block env ctx f ?meta (wi_client item) (wi_target item) (wi_query item) ?q b ?up ?ms s1
      = (s', out)"
    using h r fb b s1(1) item by (simp add: handle_finish_def Let_def)
  from protection_once[OF this parse_query_question[OF p]] show ?thesis
    using replies_for_append[OF s1(2) replies_for_one] by blast
qed

lemma handle_finish_plain:
  assumes j: "job_ok item job" and w: "\<forall>w\<in>set (waiters job (ws_pending s)). asks (pq_question (fj_parsed job)) w"
    and r: "result_ok (wi_query item) result" and ok: "cache_ok (ws_cache s)" and it: "iter_ok (en_iter env)"
    and b: "\<And>fw. result = Inr fw \<Longrightarrow> fj_filtering job \<Longrightarrow>
      response_protection_block f (pq_question (fj_parsed job)) (fw_response fw) (fj_route job \<noteq> None) = None"
    and h: "handle_finish env ctx f job traffic result s = (s', out)"
  shows "out = Answered \<and>
    replies_for env (map follower_pair (waiters job (ws_pending s)) @ [(wi_target item, wi_query item)])
      (s\<lparr>ws_pending := released (en_hash env) job (ws_pending s)\<rparr>) s'"
proof -
  let ?q = "pq_question (fj_parsed job)" and ?s = "s\<lparr>ws_pending := released (en_hash env) job (ws_pending s)\<rparr>"
  have item: "fj_item job = item" and p: "parse_query (wi_query item) = Inr (fj_parsed job)"
    using j by (auto simp: job_ok_def)
  let ?s1 = "case (fj_key job, fj_pending job) of
      (Some key, Some p) \<Rightarrow> finish_pending_query env ctx f key p result s | _ \<Rightarrow> s"
  have s1: "replies_for env (map follower_pair (waiters job (ws_pending s))) ?s ?s1"
  proof (cases "\<exists>k p. fj_key job = Some k \<and> fj_pending job = Some p")
    case True
    then obtain k n where kn: "fj_key job = Some k" "fj_pending job = Some n" by blast
    have "?s1 = fold (deliver_pending_follower env ctx f result) (waiters job (ws_pending s)) ?s"
      by (simp add: kn finish_pending_query_def take_finish waiters_def released_def)
    then show ?thesis using fold_followers[OF r parse_query_question[OF p] w, of env ?s ctx f] by simp
  next
    case False
    then show ?thesis by (auto simp: waiters_def released_def replies_for_Nil split: option.splits)
  qed
  have ok1: "cache_ok (ws_cache ?s1)" using s1 ok by (simp add: replies_for_def)
  have "out = Answered \<and> replies_once env (wi_target item) (wi_query item) ?s1 s'"
  proof (cases result)
    case (Inl e)
    have "replies_once env (wi_target item) (wi_query item) ?s1 s'"
      by (rule once_trans[OF no_response_spec[of env _ _ "record_stat (StatError (UpstreamFailed e)) ?s1"]])
        (use h Inl item in \<open>auto simp: handle_finish_def Let_def\<close>)
    then show ?thesis using h Inl by (auto simp: handle_finish_def Let_def)
  next
    case (Inr fw)
    have v: "validate_response_for_query (wi_query item) (fw_response fw) = Inr ()" using r Inr by (simp add: result_ok_def)
    have "\<exists>c b. insert_cached_response (en_iter env) (en_hash env) (ws_cache ?s1) (wc_cache_config ctx) key
        (fw_response fw) (en_cache_second env) = Some (c, b) \<and> cache_ok c" for key
      using cache_ok_insert[OF ok1 it valid_is_response[OF v]] by blast
    then obtain s2 where s2: "(case fj_key job of None \<Rightarrow> Some ?s1
        | Some key \<Rightarrow> map_option (\<lambda>(cache, _). ?s1\<lparr>ws_cache := cache\<rparr>)
            (insert_cached_response (en_iter env) (en_hash env) (ws_cache ?s1) (wc_cache_config ctx) key
              (fw_response fw) (en_cache_second env))) = Some s2"
      "ws_pending s2 = ws_pending ?s1" "replies s2 = replies ?s1" "cache_ok (ws_cache s2)"
      using ok1 by (cases "fj_key job") fastforce+
    let ?meta = "(metadata_new ?q (wi_target item) (length (wi_query item)))\<lparr>qm_traffic := traffic\<rparr>"
    have blk: "(if fj_filtering job then map_option (\<lambda>b. (b, fw)) (response_protection_block f ?q (fw_response fw)
        (fj_route job \<noteq> None)) else None) = None" using b[OF Inr] by simp
    have "(deliver_forwarded env ctx f ?meta item fw s2, Answered) = (s', out)"
      using h s2(1) by (simp only: handle_finish_def Let_def Inr sum.case blk option.case item)
    then have "out = Answered \<and> s' = deliver_forwarded env ctx f ?meta item fw s2" by simp
    then show ?thesis using once_trans[OF deliver_forwarded_once[OF v, of env s2 ctx f ?meta], of ?s1 s'] s2 by simp
  qed
  then show ?thesis using replies_for_append[OF s1 replies_for_one] by blast
qed

lemma handle_finish_ok:
  assumes "job_ok item job" and "\<forall>w\<in>set (waiters job (ws_pending s)). asks (pq_question (fj_parsed job)) w"
    and "result_ok (wi_query item) result" and "cache_ok (ws_cache s)" and "iter_ok (en_iter env)"
    and "handle_finish env ctx f job traffic result s = (s', out)"
  shows "out = Answered \<and>
    replies_for env (map follower_pair (waiters job (ws_pending s)) @ [(wi_target item, wi_query item)])
      (s\<lparr>ws_pending := released (en_hash env) job (ws_pending s)\<rparr>) s'"
proof (cases "\<exists>fw b. result = Inr fw \<and> fj_filtering job \<and>
    response_protection_block f (pq_question (fj_parsed job)) (fw_response fw) (fj_route job \<noteq> None) = Some b")
  case True
  then show ?thesis using handle_finish_blocked[OF assms(1,2) _ _ _ assms(6)] by blast
next
  case False
  show ?thesis by (rule handle_finish_plain[OF assms(1-5) _ assms(6)]) (use False in auto)
qed

lemma run_refresh_ok:
  assumes ok: "cache_ok (ws_cache s)" and it: "iter_ok (en_iter env)" and r: "result_ok (rj_query job) result"
  shows "\<exists>s'. run_refresh env ctx f job expired result s = Some s' \<and> ws_pending s' = ws_pending s \<and>
    replies s' = replies s \<and> cache_ok (ws_cache s')"
proof -
  let ?failed = "\<lambda>s. s\<lparr>ws_cache := map_option (\<lambda>c. record_refresh_failed (store_finish_refresh (en_hash env) c (rj_key job))
    (rj_reason job)) (ws_cache s)\<rparr>"
  have fl: "cache_ok (ws_cache (?failed s0))" if "cache_ok (ws_cache s0)" for s0
  proof -
    have "cache_ok (map_option (\<lambda>c. record_refresh_failed (store_finish_refresh (en_hash env) c (rj_key job))
        (rj_reason job)) (ws_cache s0))"
    proof (rule cache_ok_map[OF that])
      fix cfg n s assume "store_inv cfg n s" "store_answers s"
      from store_ok_finish[OF this, of "en_hash env" "rj_key job"]
      show "store_inv cfg n (record_refresh_failed (store_finish_refresh (en_hash env) s (rj_key job)) (rj_reason job)) \<and>
        store_answers (record_refresh_failed (store_finish_refresh (en_hash env) s (rj_key job)) (rj_reason job))"
        by (intro store_ok_record(3)) auto
    qed
    then show ?thesis by simp
  qed
  have cp: "cache_ok (map_option (\<lambda>c. record_refresh_completed c (rj_reason job)) c)" if "cache_ok c" for c
    by (rule cache_ok_map[OF that]) (rule store_ok_record(2))
  show ?thesis
  proof (cases "expired \<or> (\<exists>e. result = Inl e)")
    case True
    then show ?thesis using fl[OF ok] by (auto simp: run_refresh_def Let_def)
  next
    case False
    then obtain fw where fw: "result = Inr fw" by (cases result) auto
    obtain c b where c: "insert_cached_response (en_iter env) (en_hash env) (ws_cache s) (wc_cache_config ctx) (rj_key job)
        (fw_response fw) (en_cache_second env) = Some (c, b)" "cache_ok c"
      using cache_ok_insert[OF ok it valid_is_response] r fw by (fastforce simp: result_ok_def)
    show ?thesis using False fw c fl[OF ok] cp[OF c(2)] fl[of "s\<lparr>ws_cache := c\<rparr>"] by (simp add: run_refresh_def Let_def)
  qed
qed

end
