(* ===== verification/WorkerSystem.thy ===== *)
theory WorkerSystem
  imports WorkerSpec
begin

text \<open>
  All workers together: queries arrive, go to the upstream servers and come back in any order, and
  refreshes run between them; the configuration and the filters may be another at every step.  The
  invariant accounts for every client: it has its reply, its query is with the upstream servers, or it
  waits for one that is.
\<close>

section \<open>The system\<close>

record worker_system =
  sy_worker :: worker_state
  sy_jobs :: "forward_job list"
  sy_clients :: "response_target \<rightharpoonup> packet"

text \<open>What all environments of a run share; \<open>reliable\<close>: no connection is lost before its reply.\<close>

definition env_ok :: "(cache_key \<Rightarrow> u64) \<Rightarrow> bool \<Rightarrow> worker_env \<Rightarrow> bool" where
  "env_ok hash reliable env =
     (en_hash env = hash \<and> iter_ok (en_iter env) \<and> (reliable \<longrightarrow> (\<forall>n p. en_send env (TcpTarget n) p = None)))"

inductive query_step :: "(cache_key \<Rightarrow> u64) \<Rightarrow> bool \<Rightarrow> worker_system \<Rightarrow> worker_system \<Rightarrow> bool"
  for hash :: "cache_key \<Rightarrow> u64" and reliable :: bool where
  answered: "\<lbrakk>env_ok hash reliable env; sy_clients y (wi_target item) = None;
     handle_start env ctx f item (sy_worker y) = (w, Done out)\<rbrakk> \<Longrightarrow>
   query_step hash reliable y
     (y\<lparr>sy_worker := w, sy_clients := (sy_clients y)(wi_target item \<mapsto> wi_query item)\<rparr>)"
| forwarded: "\<lbrakk>env_ok hash reliable env; sy_clients y (wi_target item) = None;
     handle_start env ctx f item (sy_worker y) = (w, Forward job)\<rbrakk> \<Longrightarrow>
   query_step hash reliable y
     (y\<lparr>sy_worker := w, sy_jobs := job # sy_jobs y, sy_clients := (sy_clients y)(wi_target item \<mapsto> wi_query item)\<rparr>)"
| finished: "\<lbrakk>env_ok hash reliable env; job \<in> set (sy_jobs y); result_ok (wi_query (fj_item job)) result;
     handle_finish env ctx f job traffic result (sy_worker y) = (w, out)\<rbrakk> \<Longrightarrow>
   query_step hash reliable y (y\<lparr>sy_worker := w, sy_jobs := remove1 job (sy_jobs y)\<rparr>)"
| refreshed: "\<lbrakk>env_ok hash reliable env; result_ok (rj_query rj) result;
     run_refresh env ctx f rj expired result (sy_worker y) = Some w\<rbrakk> \<Longrightarrow>
   query_step hash reliable y (y\<lparr>sy_worker := w\<rparr>)"

definition system_start :: "client_access \<Rightarrow> cache_store option \<Rightarrow> nat \<Rightarrow> worker_system" where
  "system_start access cache shards =
     \<lparr>sy_worker = \<lparr>ws_access = access, ws_cache = cache, ws_pending = pending_new shards, ws_effects = []\<rparr>,
      sy_jobs = [], sy_clients = Map.empty\<rparr>"

inductive worker_reachable :: "(cache_key \<Rightarrow> u64) \<Rightarrow> bool \<Rightarrow> worker_system \<Rightarrow> bool"
  for hash :: "cache_key \<Rightarrow> u64" and reliable :: bool where
  start: "cache_ok cache \<Longrightarrow> worker_reachable hash reliable (system_start access cache shards)"
| step: "worker_reachable hash reliable y \<Longrightarrow> query_step hash reliable y y' \<Longrightarrow> worker_reachable hash reliable y'"

section \<open>The table of pending queries\<close>

definition job_target :: "forward_job \<Rightarrow> response_target" where
  "job_target job = wi_target (fj_item job)"

definition followers_at :: "pending_queries \<Rightarrow> nat \<Rightarrow> pending_follower list" where
  "followers_at t p = (case pt_followers t p of Some fs \<Rightarrow> fs | None \<Rightarrow> [])"

definition lead_ok :: "(response_target \<rightharpoonup> packet) \<Rightarrow> pending_queries \<Rightarrow> forward_job \<Rightarrow> bool" where
  "lead_ok clients t job =
     (job_ok (fj_item job) job \<and> clients (job_target job) = Some (wi_query (fj_item job)) \<and>
      (\<forall>p. fj_pending job = Some p \<longrightarrow>
        fj_key job \<noteq> None \<and> p < pt_fresh t \<and> pt_followers t p \<noteq> None \<and>
        (\<forall>w\<in>set (followers_at t p).
           asks (pq_question (fj_parsed job)) w \<and> clients (fl_target w) = Some (fl_query w))))"

text \<open>Whoever waits, waits for a query that is in flight, and so is every query the table names.\<close>

definition pending_inv ::
  "(cache_key \<Rightarrow> u64) \<Rightarrow> forward_job list \<Rightarrow> (response_target \<rightharpoonup> packet) \<Rightarrow> pending_queries \<Rightarrow> bool" where
  "pending_inv hash jobs clients t =
     ((\<forall>job\<in>set jobs. lead_ok clients t job) \<and>
      distinct (List.map_filter fj_pending jobs) \<and>
      (\<forall>p. pt_followers t p \<noteq> None \<longrightarrow> (\<exists>job\<in>set jobs. fj_pending job = Some p)) \<and>
      (\<forall>i m k p. get_at (pt_shards t) i = Some m \<longrightarrow> m k = Some p \<longrightarrow>
         i = shard_index hash k (length (pt_shards t)) \<and>
         (\<exists>job\<in>set jobs. fj_pending job = Some p \<and> fj_key job = Some k)))"

lemma pending_invD:
  assumes "pending_inv hash jobs clients t"
  shows "job \<in> set jobs \<Longrightarrow> lead_ok clients t job"
    and "distinct (List.map_filter fj_pending jobs)"
    and "pt_followers t p \<noteq> None \<Longrightarrow> \<exists>job\<in>set jobs. fj_pending job = Some p"
    and "get_at (pt_shards t) i = Some m \<Longrightarrow> m k = Some p \<Longrightarrow>
      i = shard_index hash k (length (pt_shards t)) \<and> (\<exists>job\<in>set jobs. fj_pending job = Some p \<and> fj_key job = Some k)"
  using assms unfolding pending_inv_def by blast+

lemma pending_start: "pending_inv hash [] Map.empty (pending_new n)"
  by (auto simp: pending_inv_def pending_new_def get_at_Some List.map_filter_def)

lemma clients_extend:
  assumes "clients t = None" and "clients t' = Some q"
  shows "(clients(t \<mapsto> q')) t' = Some q"
  using assms by auto

lemma lead_ok_clients:
  assumes "lead_ok clients t job" and "clients tgt = None"
  shows "lead_ok (clients(tgt \<mapsto> q)) t job"
  using assms unfolding lead_ok_def by (auto simp: clients_extend)

lemma pending_inv_clients:
  assumes "pending_inv hash jobs clients t" and "clients tgt = None"
  shows "pending_inv hash jobs (clients(tgt \<mapsto> q)) t"
  using assms lead_ok_clients unfolding pending_inv_def by blast

lemma map_filter_mem: "x \<in> set xs \<Longrightarrow> g x = Some v \<Longrightarrow> v \<in> set (List.map_filter g xs)"
  by (force simp: List.map_filter_def)

lemma map_filter_Cons:
  "List.map_filter g (x # xs) = (case g x of None \<Rightarrow> List.map_filter g xs | Some v \<Rightarrow> v # List.map_filter g xs)"
  by (rule map_filter_simps)

lemma map_filter_memD: "v \<in> set (List.map_filter g xs) \<Longrightarrow> \<exists>x\<in>set xs. g x = Some v"
  by (induction xs) (auto simp: map_filter_Cons map_filter_simps split: option.splits)

lemma map_filter_inj:
  assumes "distinct (List.map_filter g xs)" and "x \<in> set xs" "y \<in> set xs" and "g x = Some v" "g y = Some v"
  shows "x = y"
  using assms
proof (induction xs)
  case (Cons a xs)
  have d: "distinct (List.map_filter g xs)"
    using Cons.prems(1) by (auto simp: map_filter_Cons split: option.splits)
  have n: "v \<notin> set (List.map_filter g xs)" if "g a = Some v"
    using Cons.prems(1) that by (simp add: map_filter_Cons)
  consider "x = a" "y = a" | "x = a" "y \<in> set xs" | "x \<in> set xs" "y = a" | "x \<in> set xs" "y \<in> set xs"
    using Cons.prems(2,3) by auto
  then show ?case
  proof cases
    case 4
    then show ?thesis using Cons.IH[OF d] Cons.prems(4,5) by blast
  qed (use n Cons.prems(4,5) map_filter_mem[of _ xs g v] in auto)
qed simp

lemma map_filter_remove1:
  assumes "distinct (List.map_filter g xs)"
  shows "distinct (List.map_filter g (remove1 x xs)) \<and>
    (x \<in> set xs \<longrightarrow> (\<forall>v. g x = Some v \<longrightarrow> v \<notin> set (List.map_filter g (remove1 x xs))))"
  using assms
proof (induction xs)
  case (Cons a xs)
  have sub: "set (List.map_filter g (remove1 x xs)) \<subseteq> set (List.map_filter g xs)"
    using set_remove1_subset[of x xs] by (auto simp: List.map_filter_def)
  show ?case
  proof (cases "x = a")
    case True
    then show ?thesis using Cons.prems by (auto simp: map_filter_Cons split: option.splits)
  next
    case False
    have d: "distinct (List.map_filter g xs)"
      using Cons.prems by (auto simp: map_filter_Cons split: option.splits)
    have n: "u \<notin> set (List.map_filter g xs)" if "g a = Some u" for u
      using Cons.prems that by (simp add: map_filter_Cons)
    have "v \<noteq> u" if "x \<in> set xs" "g x = Some v" "g a = Some u" for u v
      using n[OF that(3)] map_filter_mem[of x xs g v] that by blast
    then show ?thesis using False Cons.IH[OF d] sub n
      by (auto simp: map_filter_Cons split: option.splits)
  qed
qed simp

text \<open>The three ways the table changes.\<close>

lemma waits_inv:
  assumes inv: "pending_inv hash jobs clients t" and w: "waits hash item t t'"
    and c: "clients (wi_target item) = None"
  shows "pending_inv hash jobs (clients(wi_target item \<mapsto> wi_query item)) t' \<and>
    (\<exists>p w. p < pt_fresh t \<and> pt_fresh t' = pt_fresh t \<and> fl_target w = wi_target item \<and>
      followers_at t' p = followers_at t p @ [w] \<and> (\<forall>x. x \<noteq> p \<longrightarrow> followers_at t' x = followers_at t x))"
proof -
  obtain parsed k p fs w where w: "parse_query (wi_query item) = Inr parsed" "key_matches k (pq_question parsed)"
    "pending_at hash t k = Some p" "pt_followers t p = Some fs"
    "fl_query w = wi_query item" "fl_target w = wi_target item"
    "t' = t\<lparr>pt_followers := (pt_followers t)(p := Some (fs @ [w]))\<rparr>"
    using w unfolding waits_def by blast
  let ?c = "clients(wi_target item \<mapsto> wi_query item)"
  obtain m where m: "get_at (pt_shards t) (shard_index hash k (length (pt_shards t))) = Some m" "m k = Some p"
    using w(3) by (auto simp: pending_at_def split: option.splits)
  obtain job where job: "job \<in> set jobs" "fj_pending job = Some p" "fj_key job = Some k"
    using pending_invD(4)[OF inv m] by blast
  have lead: "lead_ok clients t job" using pending_invD(1)[OF inv job(1)] .
  have km: "same_question (pq_question (fj_parsed job)) (pq_question parsed)"
    using lead job(3) w(2) by (simp add: lead_ok_def job_ok_def key_matches_def same_question_def)
  have leads: "lead_ok ?c t' job'" if j: "job' \<in> set jobs" for job'
  proof (cases "fj_pending job' = Some p")
    case True
    then have "job' = job" using map_filter_inj[OF pending_invD(2)[OF inv] j job(1)] job(2) by simp
    then show ?thesis
      using lead_ok_clients[OF lead c, of "wi_query item"] job w km
      by (auto simp: lead_ok_def followers_at_def asks_def)
  next
    case False
    then show ?thesis using lead_ok_clients[OF pending_invD(1)[OF inv j] c, of "wi_query item"] w(7)
      by (auto simp: lead_ok_def followers_at_def)
  qed
  have "pending_inv hash jobs ?c t'"
    unfolding pending_inv_def
  proof (intro conjI allI impI ballI)
    show "lead_ok ?c t' job'" if "job' \<in> set jobs" for job' using leads that .
    show "distinct (List.map_filter fj_pending jobs)" by (rule pending_invD(2)[OF inv])
    show "\<exists>job\<in>set jobs. fj_pending job = Some x" if "pt_followers t' x \<noteq> None" for x
      using pending_invD(3)[OF inv, of x] that job w(7) by (cases "x = p") auto
    show "i = shard_index hash k (length (pt_shards t'))" "\<exists>job\<in>set jobs. fj_pending job = Some x \<and> fj_key job = Some k"
      if "get_at (pt_shards t') i = Some m" "m k = Some x" for i m k x
      using pending_invD(4)[OF inv, of i m k x] that w(7) by simp_all
  qed
  moreover have "p < pt_fresh t" using lead job(2) by (simp add: lead_ok_def)
  ultimately show ?thesis using w(4,6,7)
    by (intro conjI exI[of _ p] exI[of _ w]) (auto simp: followers_at_def)
qed


lemma get_at_update:
  "get_at (xs[i := y]) j = (if j = i \<and> i < length xs then Some y else get_at xs j)"
  by (auto simp: get_at_def)

lemma leads_inv:
  assumes inv: "pending_inv hash jobs clients t" and l: "leads hash job t t'" and j: "job_ok item job"
    and c: "clients (wi_target item) = None"
  shows "pending_inv hash (job # jobs) (clients(wi_target item \<mapsto> wi_query item)) t' \<and>
    pt_fresh t \<le> pt_fresh t' \<and> pt_fresh t' \<le> pt_fresh t + 1 \<and> (\<forall>x. followers_at t' x = followers_at t x)"
proof -
  let ?c = "clients(wi_target item \<mapsto> wi_query item)"
  have item: "fj_item job = item" using j by (simp add: job_ok_def)
  note inv' = pending_inv_clients[OF inv c, of "wi_query item"]
  show ?thesis
  proof (cases "fj_pending job")
    case None
    have "lead_ok ?c t job" using j item None by (simp add: lead_ok_def job_target_def)
    then show ?thesis using l None inv' by (auto simp: leads_def pending_inv_def map_filter_Cons)
  next
    case (Some p)
    obtain k where k: "fj_key job = Some k" "pending_at hash t k = None" "p = pt_fresh t" "pt_fresh t' = p + 1"
      "pt_followers t' = (pt_followers t)(p := Some [])"
      "pt_shards t' = pt_shards t \<or> (\<exists>m. get_at (pt_shards t) (shard_index hash k (length (pt_shards t))) = Some m \<and>
          pt_shards t' = (pt_shards t)[shard_index hash k (length (pt_shards t)) := m(k \<mapsto> p)])"
      using l Some by (auto simp: leads_def)
    have fresh: "pt_followers t p = None"
    proof (rule ccontr)
      assume "pt_followers t p \<noteq> None"
      then obtain job' where j': "job' \<in> set jobs" "fj_pending job' = Some p" using pending_invD(3)[OF inv] by blast
      then show False using pending_invD(1)[OF inv j'(1)] k(3) by (simp add: lead_ok_def)
    qed
    have fol: "followers_at t' x = followers_at t x" for x using fresh k(5) by (simp add: followers_at_def)
    have leads: "lead_ok ?c t' job'" if j: "job' \<in> set jobs" for job'
      using pending_invD(1)[OF inv' j] fol fresh k(3-5) by (auto simp: lead_ok_def)
    have lead: "lead_ok ?c t' job"
      using j item Some k fol fresh by (simp add: lead_ok_def job_target_def followers_at_def)
    have old: "v \<noteq> p" if v: "v \<in> set (List.map_filter fj_pending jobs)" for v
    proof -
      obtain job' where "job' \<in> set jobs" "fj_pending job' = Some v" using map_filter_memD[OF v] by blast
      then show ?thesis using pending_invD(1)[OF inv] k(3) by (auto simp: lead_ok_def)
    qed
    have sh: "i = shard_index hash k' (length (pt_shards t')) \<and> (\<exists>job'\<in>set (job # jobs). fj_pending job' = Some x \<and> fj_key job' = Some k')"
      if g: "get_at (pt_shards t') i = Some m" "m k' = Some x" for i m k' x
    proof (cases "pt_shards t' = pt_shards t")
      case True
      then show ?thesis using pending_invD(4)[OF inv, of i m k' x] g by auto
    next
      case False
      then obtain m0 where m0: "get_at (pt_shards t) (shard_index hash k (length (pt_shards t))) = Some m0"
        "pt_shards t' = (pt_shards t)[shard_index hash k (length (pt_shards t)) := m0(k \<mapsto> p)]" using k(6) by blast
      show ?thesis
      proof (cases "i = shard_index hash k (length (pt_shards t))")
        case True
        then have m: "m = m0(k \<mapsto> p)" using g(1) m0 by (auto simp: get_at_update get_at_Some split: if_splits)
        show ?thesis
        proof (cases "k' = k")
          case True
          then show ?thesis using m g(2) Some k(1) \<open>i = _\<close> m0(2) by auto
        next
          case False
          then have "m0 k' = Some x" using m g(2) by simp
          then show ?thesis using pending_invD(4)[OF inv m0(1), of k' x] \<open>i = _\<close> m0(2) by auto
        qed
      next
        case False
        then have "get_at (pt_shards t) i = Some m" using g(1) m0(2) by (simp add: get_at_update)
        then show ?thesis using pending_invD(4)[OF inv, of i m k' x] g(2) m0(2) by auto
      qed
    qed
    have "pending_inv hash (job # jobs) ?c t'"
      unfolding pending_inv_def
    proof (intro conjI allI impI ballI)
      show "lead_ok ?c t' job'" if "job' \<in> set (job # jobs)" for job' using that lead leads by auto
      show "distinct (List.map_filter fj_pending (job # jobs))"
        using pending_invD(2)[OF inv] old Some by (auto simp: map_filter_Cons)
      show "\<exists>job\<in>set (job # jobs). fj_pending job = Some x" if "pt_followers t' x \<noteq> None" for x
        using pending_invD(3)[OF inv, of x] that Some k(5) by (cases "x = p") auto
      show "i = shard_index hash k (length (pt_shards t'))"
        "\<exists>job'\<in>set (job # jobs). fj_pending job' = Some x \<and> fj_key job' = Some k"
        if "get_at (pt_shards t') i = Some m" "m k = Some x" for i m k x
        using sh[OF that] by blast+
    qed
    then show ?thesis using k(3,4) fol by simp
  qed
qed

lemma finish_shards:
  "pt_fresh (pending_finish hash t k p) = pt_fresh t \<and>
   length (pt_shards (pending_finish hash t k p)) = length (pt_shards t)"
  by (auto simp: pending_finish_def Let_def split: option.splits)

lemma finish_get:
  assumes "get_at (pt_shards (pending_finish hash t k p)) i = Some m" and "m k' = Some x"
  shows "\<exists>m'. get_at (pt_shards t) i = Some m' \<and> m' k' = Some x \<and>
    \<not> (i = shard_index hash k (length (pt_shards t)) \<and> k' = k \<and> x = p)"
proof (cases "\<exists>m0. get_at (pt_shards t) (shard_index hash k (length (pt_shards t))) = Some m0 \<and> m0 k = Some p")
  case True
  then obtain m0 where m0: "get_at (pt_shards t) (shard_index hash k (length (pt_shards t))) = Some m0" "m0 k = Some p"
    by blast
  have eq: "pt_shards (pending_finish hash t k p) =
      (pt_shards t)[shard_index hash k (length (pt_shards t)) := m0(k := None)]"
    using m0 by (simp add: pending_finish_def Let_def)
  have l: "shard_index hash k (length (pt_shards t)) < length (pt_shards t)" using m0(1) by (simp add: get_at_Some)
  show ?thesis
  proof (cases "i = shard_index hash k (length (pt_shards t))")
    case True
    then have "m = m0(k := None)" using assms(1) l by (simp add: eq get_at_update)
    then show ?thesis using assms(2) m0(1) True by (auto split: if_splits)
  next
    case False
    then show ?thesis using assms by (simp add: eq get_at_update)
  qed
next
  case False
  then have "pending_finish hash t k p = t" by (auto simp: pending_finish_def Let_def split: option.splits)
  then show ?thesis using assms False by auto
qed

lemma released_inv:
  assumes inv: "pending_inv hash jobs clients t" and j: "job \<in> set jobs"
  shows "pending_inv hash (remove1 job jobs) clients (released hash job t) \<and>
    pt_fresh (released hash job t) = pt_fresh t \<and>
    (case fj_pending job of
       None \<Rightarrow> waiters job t = [] \<and> (\<forall>x. followers_at (released hash job t) x = followers_at t x)
     | Some p \<Rightarrow> p < pt_fresh t \<and> waiters job t = followers_at t p \<and> followers_at (released hash job t) p = [] \<and>
         (\<forall>x. x \<noteq> p \<longrightarrow> followers_at (released hash job t) x = followers_at t x))"
proof (cases "fj_pending job")
  case None
  have r: "released hash job t = t" "waiters job t = []" using None by (auto simp: released_def waiters_def split: option.splits)
  have "pending_inv hash (remove1 job jobs) clients t"
    unfolding pending_inv_def
  proof (intro conjI allI impI ballI)
    show "lead_ok clients t job'" if "job' \<in> set (remove1 job jobs)" for job'
      using pending_invD(1)[OF inv] that set_remove1_subset[of job jobs] by blast
    show "distinct (List.map_filter fj_pending (remove1 job jobs))"
      using map_filter_remove1[OF pending_invD(2)[OF inv], of job] by blast
    show "\<exists>job\<in>set (remove1 job jobs). fj_pending job = Some x" if "pt_followers t x \<noteq> None" for x
      using pending_invD(3)[OF inv that] None by (metis in_set_remove1 option.distinct(1))
    show "i = shard_index hash k (length (pt_shards t))" "\<exists>job\<in>set (remove1 job jobs). fj_pending job = Some x \<and> fj_key job = Some k"
      if "get_at (pt_shards t) i = Some m" "m k = Some x" for i m k x
      using pending_invD(4)[OF inv that] None by (metis in_set_remove1 option.distinct(1))+
  qed
  then show ?thesis using None r by simp
next
  case (Some p)
  have lead: "lead_ok clients t job" by (rule pending_invD(1)[OF inv j])
  obtain k where k: "fj_key job = Some k" "p < pt_fresh t" using lead Some by (auto simp: lead_ok_def)
  let ?t = "released hash job t"
  have r: "?t = (pending_finish hash t k p)\<lparr>pt_followers := (pt_followers t)(p := None)\<rparr>"
    using Some k by (simp add: released_def)
  have fol: "followers_at ?t x = (if x = p then [] else followers_at t x)" for x by (simp add: r followers_at_def)
  have only: "job' = job" if "job' \<in> set jobs" "fj_pending job' = Some p" for job'
    using map_filter_inj[OF pending_invD(2)[OF inv] that(1) j that(2) Some] .
  note rm = map_filter_remove1[OF pending_invD(2)[OF inv], of job]
  have other: "fj_pending job' \<noteq> Some p" if "job' \<in> set (remove1 job jobs)" for job'
    using rm j Some map_filter_mem[OF that, of fj_pending p] by blast
  have sub: "job' \<in> set jobs" if "job' \<in> set (remove1 job jobs)" for job'
    using that set_remove1_subset[of job jobs] by blast
  have "pending_inv hash (remove1 job jobs) clients ?t"
    unfolding pending_inv_def
  proof (intro conjI allI impI ballI)
    show "lead_ok clients ?t job'" if a: "job' \<in> set (remove1 job jobs)" for job'
    proof -
      have "fj_pending job' = Some x \<Longrightarrow> x \<noteq> p" for x using other[OF a] by auto
      then show ?thesis
        using pending_invD(1)[OF inv sub[OF a]] fol finish_shards[of hash t k p] by (auto simp: lead_ok_def r followers_at_def)
    qed
    show "distinct (List.map_filter fj_pending (remove1 job jobs))" using rm by blast
    show "\<exists>job\<in>set (remove1 job jobs). fj_pending job = Some x" if "pt_followers ?t x \<noteq> None" for x
    proof -
      have x: "x \<noteq> p" "pt_followers t x \<noteq> None" using that by (auto simp: r split: if_splits)
      then obtain job' where "job' \<in> set jobs" "fj_pending job' = Some x" using pending_invD(3)[OF inv] by blast
      then show ?thesis using x(1) Some by (metis in_set_remove1 option.inject)
    qed
    fix i m k' x assume g: "get_at (pt_shards ?t) i = Some m" "m k' = Some x"
    then have "get_at (pt_shards (pending_finish hash t k p)) i = Some m" by (simp add: r)
    from finish_get[OF this g(2)] obtain m' where m': "get_at (pt_shards t) i = Some m'" "m' k' = Some x"
      "\<not> (i = shard_index hash k (length (pt_shards t)) \<and> k' = k \<and> x = p)" by blast
    from pending_invD(4)[OF inv m'(1,2)] obtain job' where j': "i = shard_index hash k' (length (pt_shards t))"
      "job' \<in> set jobs" "fj_pending job' = Some x" "fj_key job' = Some k'" by blast
    show "i = shard_index hash k' (length (pt_shards ?t))" using j'(1) finish_shards[of hash t k p] by (simp add: r)
    have "job' \<noteq> job"
    proof
      assume "job' = job"
      then show False using j' m'(3) Some k(1) by auto
    qed
    then show "\<exists>job\<in>set (remove1 job jobs). fj_pending job = Some x \<and> fj_key job = Some k'"
      using j' by (metis in_set_remove1)
  qed
  then show ?thesis using Some k fol finish_shards[of hash t k p] by (simp add: r waiters_def followers_at_def)
qed


section \<open>The account of all clients\<close>

definition waiting :: "pending_queries \<Rightarrow> response_target multiset" where
  "waiting t = (\<Sum>p<pt_fresh t. mset (map fl_target (followers_at t p)))"

definition account :: "worker_system \<Rightarrow> response_target multiset" where
  "account y = mset (map fst (replies (sy_worker y))) + mset (map job_target (sy_jobs y)) +
     waiting (ws_pending (sy_worker y))"

lemma waiting_change:
  assumes "p < pt_fresh t" and "pt_fresh t' = pt_fresh t"
    and "\<forall>x. x \<noteq> p \<longrightarrow> followers_at t' x = followers_at t x"
  shows "waiting t' + mset (map fl_target (followers_at t p)) = waiting t + mset (map fl_target (followers_at t' p))"
proof -
  let ?f = "\<lambda>t p. mset (map fl_target (followers_at t p))"
  have "sum (?f t) {..<pt_fresh t} = ?f t p + sum (?f t) ({..<pt_fresh t} - {p})"
    "sum (?f t') {..<pt_fresh t} = ?f t' p + sum (?f t') ({..<pt_fresh t} - {p})"
    using assms(1) by (simp_all add: sum.remove)
  moreover have "sum (?f t') ({..<pt_fresh t} - {p}) = sum (?f t) ({..<pt_fresh t} - {p})"
    using assms(3) by (intro sum.cong) auto
  ultimately show ?thesis using assms(2) by (simp add: waiting_def)
qed


lemma waiting_fresh:
  assumes "pt_fresh t \<le> pt_fresh t'" and "pt_fresh t' \<le> pt_fresh t + 1" and "\<forall>x. followers_at t' x = followers_at t x"
    and "followers_at t (pt_fresh t) = []"
  shows "waiting t' = waiting t"
proof -
  consider "pt_fresh t' = pt_fresh t" | "pt_fresh t' = Suc (pt_fresh t)" using assms(1,2) by linarith
  then show ?thesis using assms(3,4) by cases (simp_all add: waiting_def)
qed

text \<open>The invariant: the cache, the table, the replies given so far, and the account.\<close>

definition system_inv :: "(cache_key \<Rightarrow> u64) \<Rightarrow> bool \<Rightarrow> worker_system \<Rightarrow> bool" where
  "system_inv hash reliable y =
     (cache_ok (ws_cache (sy_worker y)) \<and>
      pending_inv hash (sy_jobs y) (sy_clients y) (ws_pending (sy_worker y)) \<and>
      (\<forall>(t, r)\<in>set (replies (sy_worker y)). \<exists>q. sy_clients y t = Some q \<and> valid_reply q r) \<and>
      (\<forall>t. count (account y) t \<le> (if sy_clients y t = None then 0 else 1)) \<and>
      (reliable \<longrightarrow> (\<forall>t. is_tcp t \<longrightarrow> sy_clients y t \<noteq> None \<longrightarrow> t \<in># account y)))"

lemma replies_extend:
  assumes "\<forall>(t, r)\<in>set rs. \<exists>q. clients t = Some q \<and> valid_reply q r" and "clients t = None"
  shows "\<forall>(x, r)\<in>set rs. \<exists>q'. (clients(t \<mapsto> q)) x = Some q' \<and> valid_reply q' r"
  using assms by fastforce

text \<open>A new client, whose account grows by at most itself.\<close>

lemma new_client:
  assumes inv: "system_inv hash reliable y" and c: "sy_clients y t = None"
    and y': "sy_clients y' = (sy_clients y)(t \<mapsto> q)"
    and ok: "cache_ok (ws_cache (sy_worker y'))"
    and p: "pending_inv hash (sy_jobs y') (sy_clients y') (ws_pending (sy_worker y'))"
    and r: "replies (sy_worker y') = replies (sy_worker y) @ rs" "\<forall>(t', r)\<in>set rs. t' = t \<and> valid_reply q r"
    and a: "account y' = account y + M" "M = {#} \<or> M = {#t#}" "reliable \<longrightarrow> is_tcp t \<longrightarrow> M = {#t#}"
  shows "system_inv hash reliable y'"
  unfolding system_inv_def
proof (intro conjI ok p)
  have "\<forall>(t', r)\<in>set (replies (sy_worker y)). \<exists>q. sy_clients y t' = Some q \<and> valid_reply q r"
    using inv by (simp add: system_inv_def)
  from replies_extend[OF this c, of q]
  show "\<forall>(t, r)\<in>set (replies (sy_worker y')). \<exists>q. sy_clients y' t = Some q \<and> valid_reply q r"
    using r by (fastforce simp: y')
  have n: "count (account y) x \<le> (if sy_clients y x = None then 0 else 1)" for x
    using inv by (simp add: system_inv_def)
  show "\<forall>x. count (account y') x \<le> (if sy_clients y' x = None then 0 else 1)"
  proof
    fix x show "count (account y') x \<le> (if sy_clients y' x = None then 0 else 1)"
      using n[of x] a(1,2) c y' by (cases "x = t") auto
  qed
  show "reliable \<longrightarrow> (\<forall>x. is_tcp x \<longrightarrow> sy_clients y' x \<noteq> None \<longrightarrow> x \<in># account y')"
  proof (intro impI allI)
    fix x assume x: "reliable" "is_tcp x" "sy_clients y' x \<noteq> None"
    show "x \<in># account y'"
    proof (cases "x = t")
      case True
      then show ?thesis using a(1,3) x by simp
    next
      case False
      then show ?thesis using inv x y' a(1) by (auto simp: system_inv_def)
    qed
  qed
qed


lemma answered_inv:
  assumes inv: "system_inv hash reliable y" and e: "env_ok hash reliable env"
    and c: "sy_clients y (wi_target item) = None"
    and h: "handle_start env ctx f item (sy_worker y) = (w, Done out)"
  shows "out = Answered \<and>
    system_inv hash reliable (y\<lparr>sy_worker := w, sy_clients := (sy_clients y)(wi_target item \<mapsto> wi_query item)\<rparr>)"
    (is "_ \<and> system_inv hash reliable ?y")
proof -
  have ok: "cache_ok (ws_cache (sy_worker y))" and p: "pending_inv hash (sy_jobs y) (sy_clients y) (ws_pending (sy_worker y))"
    using inv by (auto simp: system_inv_def)
  have hash: "en_hash env = hash" using e by (simp add: env_ok_def)
  from handle_start_ok[OF h ok] have o: "out = Answered" and
    s: "replies_once env (wi_target item) (wi_query item) (sy_worker y) w \<or>
      (waits hash item (ws_pending (sy_worker y)) (ws_pending w) \<and> replies w = replies (sy_worker y) \<and> cache_ok (ws_cache w))"
    by (simp_all add: start_ok_def hash)
  from s have "system_inv hash reliable ?y"
  proof (elim disjE conjE)
    assume r: "replies_once env (wi_target item) (wi_query item) (sy_worker y) w"
    then obtain rs where rs: "replies w = replies (sy_worker y) @ rs" "one_reply env (wi_target item) (wi_query item) rs"
      by (auto simp: replies_once_def)
    have M: "mset (map fst rs) = {#} \<or> mset (map fst rs) = {#wi_target item#}"
      using rs(2) by (cases rs) (auto simp: one_reply_def)
    have R: "reliable \<longrightarrow> is_tcp (wi_target item) \<longrightarrow> mset (map fst rs) = {#wi_target item#}"
      using rs(2) M e by (auto simp: one_reply_def env_ok_def is_tcp_def split: response_target.splits)
    show ?thesis
    proof (rule new_client[OF inv c, where rs = rs and M = "mset (map fst rs)"])
      show "pending_inv hash (sy_jobs ?y) (sy_clients ?y) (ws_pending (sy_worker ?y))"
        using pending_inv_clients[OF p c] r by (simp add: replies_once_def)
      show "account ?y = account y + mset (map fst rs)"
        using rs(1) r by (simp add: account_def replies_once_def)
    qed (use rs M R r ok in \<open>auto simp: one_reply_def replies_once_def\<close>)
  next
    assume a: "waits hash item (ws_pending (sy_worker y)) (ws_pending w)" "replies w = replies (sy_worker y)" "cache_ok (ws_cache w)"
    from waits_inv[OF p a(1) c] obtain n v where v: "n < pt_fresh (ws_pending (sy_worker y))"
      "pt_fresh (ws_pending w) = pt_fresh (ws_pending (sy_worker y))" "fl_target v = wi_target item"
      "followers_at (ws_pending w) n = followers_at (ws_pending (sy_worker y)) n @ [v]"
      "\<forall>x. x \<noteq> n \<longrightarrow> followers_at (ws_pending w) x = followers_at (ws_pending (sy_worker y)) x"
      "pending_inv hash (sy_jobs y) ((sy_clients y)(wi_target item \<mapsto> wi_query item)) (ws_pending w)" by blast
    have W: "waiting (ws_pending w) = waiting (ws_pending (sy_worker y)) + {#wi_target item#}"
      using waiting_change[OF v(1,2,5)] v(3,4) by simp
    show ?thesis
      by (rule new_client[OF inv c, where rs = "[]" and M = "{#wi_target item#}"])
        (use a v(6) W in \<open>simp_all add: account_def\<close>)
  qed
  then show ?thesis using o by simp
qed

lemma forwarded_inv:
  assumes inv: "system_inv hash reliable y" and e: "env_ok hash reliable env"
    and c: "sy_clients y (wi_target item) = None"
    and h: "handle_start env ctx f item (sy_worker y) = (w, Forward job)"
  shows "system_inv hash reliable
    (y\<lparr>sy_worker := w, sy_jobs := job # sy_jobs y, sy_clients := (sy_clients y)(wi_target item \<mapsto> wi_query item)\<rparr>)"
    (is "system_inv hash reliable ?y")
proof -
  have ok: "cache_ok (ws_cache (sy_worker y))" and p: "pending_inv hash (sy_jobs y) (sy_clients y) (ws_pending (sy_worker y))"
    using inv by (auto simp: system_inv_def)
  have hash: "en_hash env = hash" using e by (simp add: env_ok_def)
  from handle_start_ok[OF h ok] have s: "job_ok item job" "leads hash job (ws_pending (sy_worker y)) (ws_pending w)"
    "replies w = replies (sy_worker y)" "cache_ok (ws_cache w)"
    by (simp_all add: start_ok_def hash)
  note l = leads_inv[OF p s(2,1) c]
  let ?t = "ws_pending (sy_worker y)"
  have "followers_at ?t (pt_fresh ?t) = []"
  proof (rule ccontr)
    assume "followers_at ?t (pt_fresh ?t) \<noteq> []"
    then have "pt_followers ?t (pt_fresh ?t) \<noteq> None" by (auto simp: followers_at_def split: option.splits)
    then obtain j where "j \<in> set (sy_jobs y)" "fj_pending j = Some (pt_fresh ?t)" using pending_invD(3)[OF p] by blast
    then show False using pending_invD(1)[OF p] by (auto simp: lead_ok_def)
  qed
  then have W: "waiting (ws_pending w) = waiting ?t" using l by (intro waiting_fresh) auto
  have T: "job_target job = wi_target item" using s(1) by (simp add: job_target_def job_ok_def)
  show ?thesis
    by (rule new_client[OF inv c, where rs = "[]" and M = "{#wi_target item#}"])
      (use s l W T in \<open>simp_all add: account_def\<close>)
qed

lemma finished_inv:
  assumes inv: "system_inv hash reliable y" and e: "env_ok hash reliable env" and j: "job \<in> set (sy_jobs y)"
    and r: "result_ok (wi_query (fj_item job)) result"
    and h: "handle_finish env ctx f job traffic result (sy_worker y) = (w, out)"
  shows "out = Answered \<and> system_inv hash reliable (y\<lparr>sy_worker := w, sy_jobs := remove1 job (sy_jobs y)\<rparr>)"
    (is "_ \<and> system_inv hash reliable ?y")
proof -
  let ?t = "ws_pending (sy_worker y)" and ?ws = "map follower_pair (waiters job (ws_pending (sy_worker y))) @
    [(wi_target (fj_item job), wi_query (fj_item job))]"
  have ok: "cache_ok (ws_cache (sy_worker y))" and p: "pending_inv hash (sy_jobs y) (sy_clients y) ?t"
    and old: "\<forall>(t, r)\<in>set (replies (sy_worker y)). \<exists>q. sy_clients y t = Some q \<and> valid_reply q r"
    and cnt: "\<forall>t. count (account y) t \<le> (if sy_clients y t = None then 0 else 1)"
    and rel: "reliable \<longrightarrow> (\<forall>t. is_tcp t \<longrightarrow> sy_clients y t \<noteq> None \<longrightarrow> t \<in># account y)"
    using inv by (auto simp: system_inv_def)
  have hash: "en_hash env = hash" and it: "iter_ok (en_iter env)" using e by (simp_all add: env_ok_def)
  have lead: "lead_ok (sy_clients y) ?t job" by (rule pending_invD(1)[OF p j])
  note ri = released_inv[OF p j]
  have clients: "\<forall>(t, q)\<in>set ?ws. sy_clients y t = Some q" and
    asks: "\<forall>v\<in>set (waiters job ?t). asks (pq_question (fj_parsed job)) v"
    using lead ri by (auto simp: lead_ok_def job_target_def follower_pair_def split: option.splits)
  have jo: "job_ok (fj_item job) job" using lead by (simp add: lead_ok_def)
  from handle_finish_ok[OF jo asks r ok it h] have o: "out = Answered" and
    s: "replies_for env ?ws ((sy_worker y)\<lparr>ws_pending := released hash job ?t\<rparr>) w" by (simp_all add: hash)
  obtain rs where rs: "replies w = replies (sy_worker y) @ rs" "mset (map fst rs) \<subseteq># mset (map fst ?ws)"
    "\<forall>(t, r)\<in>set rs. \<exists>q. (t, q) \<in> set ?ws \<and> valid_reply q r"
    "\<forall>(t, q)\<in>set ?ws. is_tcp t \<and> (\<forall>p. en_send env t p = None) \<longrightarrow> t \<in> fst ` set rs"
    using s by (auto simp: replies_for_def)
  have pend: "ws_pending w = released hash job ?t" "cache_ok (ws_cache w)" using s ok by (auto simp: replies_for_def)
  have W: "waiting (released hash job ?t) + mset (map fl_target (waiters job ?t)) = waiting ?t"
  proof (cases "fj_pending job")
    case None
    then show ?thesis using ri by (simp add: waiting_def)
  next
    case (Some n)
    then show ?thesis using ri waiting_change[of n ?t "released hash job ?t"] by simp
  qed
  have A: "account ?y + mset (map fst ?ws) = account y + mset (map fst rs)"
  proof -
    have "mset (sy_jobs y) = add_mset job (mset (remove1 job (sy_jobs y)))" using j by simp
    then have "mset (map job_target (sy_jobs y)) = add_mset (job_target job) (mset (map job_target (remove1 job (sy_jobs y))))"
      by (simp only: mset_map image_mset_add_mset)
    moreover have "mset (map fst ?ws) = mset (map fl_target (waiters job ?t)) + {#job_target job#}"
      by (simp add: follower_pair_def job_target_def comp_def)
    ultimately show ?thesis using W rs(1) pend(1) by (simp add: account_def ac_simps)
  qed
  have le: "account ?y \<subseteq># account y"
  proof (rule mset_subset_eqI)
    fix x
    show "count (account ?y) x \<le> count (account y) x"
      using arg_cong[OF A, of "\<lambda>M. count M x"] mset_subset_eq_count[OF rs(2), of x] by (simp only: count_union)
  qed
  have "system_inv hash reliable ?y"
    unfolding system_inv_def
  proof (intro conjI)
    show "cache_ok (ws_cache (sy_worker ?y))" using pend(2) by simp
    show "pending_inv hash (sy_jobs ?y) (sy_clients ?y) (ws_pending (sy_worker ?y))" using ri pend(1) by simp
    show "\<forall>(t, r)\<in>set (replies (sy_worker ?y)). \<exists>q. sy_clients ?y t = Some q \<and> valid_reply q r"
      using old rs(1,3) clients by fastforce
    show "\<forall>t. count (account ?y) t \<le> (if sy_clients ?y t = None then 0 else 1)"
    proof
      fix t show "count (account ?y) t \<le> (if sy_clients ?y t = None then 0 else 1)"
        using cnt[rule_format, of t] mset_subset_eq_count[OF le, of t] by (simp split: if_splits)
    qed
    show "reliable \<longrightarrow> (\<forall>t. is_tcp t \<longrightarrow> sy_clients ?y t \<noteq> None \<longrightarrow> t \<in># account ?y)"
    proof (intro impI allI)
      fix t assume t: "reliable" "is_tcp t" "sy_clients ?y t \<noteq> None"
      then have "t \<in># account y" using rel by simp
      have send: "\<forall>p. en_send env t p = None" using t(1,2) e by (auto simp: env_ok_def is_tcp_def split: response_target.splits)
      have one: "count (account y) t \<le> 1" using cnt[rule_format, of t] by (simp split: if_splits)
      show "t \<in># account ?y"
      proof (cases "t \<in> fst ` set ?ws")
        case True
        then obtain x where "t = fst x" "x \<in> set ?ws" by (rule imageE)
        then have q: "(t, snd x) \<in> set ?ws" by (simp only: prod.collapse)
        have "t \<in> fst ` set rs" using bspec[OF rs(4) q] t(2) send by simp
        then have "t \<in> set (map fst (replies w))" using rs(1) by auto
        then show ?thesis by (simp add: account_def)
      next
        case False
        then have z: "count (mset (map fst ?ws)) t = 0" by (simp only: count_eq_zero_iff set_mset_mset set_map not_False_eq_True)
        have "count (mset (map fst rs)) t = 0"
          using mset_subset_eq_count[OF rs(2), of t] by (simp only: z le_zero_eq)
        then have "count (account ?y) t = count (account y) t"
          using arg_cong[OF A, of "\<lambda>M. count M t"] by (simp only: count_union z add_0_right)
        then show ?thesis using \<open>t \<in># account y\<close> by (simp add: count_greater_zero_iff[symmetric] del: count_greater_zero_iff)
      qed
    qed
  qed
  then show ?thesis using o by simp
qed


lemma refreshed_inv:
  assumes inv: "system_inv hash reliable y" and e: "env_ok hash reliable env"
    and r: "result_ok (rj_query rj) result" and h: "run_refresh env ctx f rj expired result (sy_worker y) = Some w"
  shows "system_inv hash reliable (y\<lparr>sy_worker := w\<rparr>)"
proof -
  have ok: "cache_ok (ws_cache (sy_worker y))" using inv by (simp add: system_inv_def)
  have it: "iter_ok (en_iter env)" using e by (simp add: env_ok_def)
  have "ws_pending w = ws_pending (sy_worker y) \<and> replies w = replies (sy_worker y) \<and> cache_ok (ws_cache w)"
    using run_refresh_ok[OF ok it r, of ctx f expired] h by simp
  then show ?thesis using inv by (simp add: system_inv_def account_def)
qed

lemma step_inv:
  assumes "query_step hash reliable y y'" and "system_inv hash reliable y"
  shows "system_inv hash reliable y'"
  using assms
proof (induction rule: query_step.induct)
  case (answered env y item ctx f w out)
  then show ?case using answered_inv by blast
next
  case (forwarded env y item ctx f w job)
  then show ?case using forwarded_inv by blast
next
  case (finished env job y result ctx f traffic w out)
  then show ?case using finished_inv by blast
next
  case (refreshed env rj result ctx f expired y w)
  then show ?case using refreshed_inv by blast
qed

lemma start_inv: "cache_ok cache \<Longrightarrow> system_inv hash reliable (system_start access cache n)"
proof -
  have "waiting (pending_new n) = {#}" by (simp add: waiting_def pending_new_def)
  then show "cache_ok cache \<Longrightarrow> system_inv hash reliable (system_start access cache n)"
    using pending_start by (simp add: system_inv_def system_start_def account_def replies_def List.map_filter_def)
qed

lemma system_reachable_inv: "worker_reachable hash reliable y \<Longrightarrow> system_inv hash reliable y"
  by (induction rule: worker_reachable.induct) (auto intro: start_inv step_inv)

section \<open>Runs, for the examples\<close>

definition system_submit ::
  "worker_env \<Rightarrow> worker_context \<Rightarrow> filter_runtime \<Rightarrow> work_item \<Rightarrow> worker_system \<Rightarrow> worker_system" where
  "system_submit env ctx f item y =
     (case handle_start env ctx f item (sy_worker y) of
        (w, Done _) \<Rightarrow> y\<lparr>sy_worker := w, sy_clients := (sy_clients y)(wi_target item \<mapsto> wi_query item)\<rparr>
      | (w, Forward job) \<Rightarrow> y\<lparr>sy_worker := w, sy_jobs := job # sy_jobs y,
                              sy_clients := (sy_clients y)(wi_target item \<mapsto> wi_query item)\<rparr>)"

definition system_answer ::
  "worker_env \<Rightarrow> worker_context \<Rightarrow> filter_runtime \<Rightarrow> string + forward_response \<Rightarrow> worker_system \<Rightarrow> worker_system" where
  "system_answer env ctx f result y =
     (case sy_jobs y of
        [] \<Rightarrow> y
      | job # jobs \<Rightarrow> y\<lparr>sy_worker := fst (handle_finish env ctx f job no_traffic result (sy_worker y)), sy_jobs := jobs\<rparr>)"

lemma submit_reachable:
  assumes "worker_reachable hash reliable y" and "env_ok hash reliable env" and "sy_clients y (wi_target item) = None"
  shows "worker_reachable hash reliable (system_submit env ctx f item y)"
proof -
  obtain w out where h: "handle_start env ctx f item (sy_worker y) = (w, out)" by (meson surj_pair)
  show ?thesis
    using worker_reachable.step[OF assms(1)] query_step.answered[OF assms(2,3)] query_step.forwarded[OF assms(2,3)] h
    by (cases out) (auto simp: system_submit_def)
qed

lemma answer_reachable:
  assumes "worker_reachable hash reliable y" and "env_ok hash reliable env"
    and "case sy_jobs y of [] \<Rightarrow> True | job # _ \<Rightarrow> result_ok (wi_query (fj_item job)) result"
  shows "worker_reachable hash reliable (system_answer env ctx f result y)"
proof (cases "sy_jobs y")
  case Nil
  then show ?thesis using assms(1) by (simp add: system_answer_def)
next
  case (Cons job jobs)
  obtain w out where h: "handle_finish env ctx f job no_traffic result (sy_worker y) = (w, out)" by (meson surj_pair)
  have "query_step hash reliable y (y\<lparr>sy_worker := w, sy_jobs := remove1 job (sy_jobs y)\<rparr>)"
    by (rule query_step.finished[OF assms(2) _ _ h]) (use Cons assms(3) in auto)
  then show ?thesis using worker_reachable.step[OF assms(1)] Cons h by (simp add: system_answer_def)
qed

text \<open>Two TCP clients ask for the same name; the second waits for the first.\<close>

definition sample_env :: worker_env where
  "sample_env = \<lparr>en_send = (\<lambda>_ _. None), en_queue = QueueAccepted, en_spawn = True, en_hash = (\<lambda>_. 0), en_iter = (\<lambda>es. es),
     en_access_second = 0, en_pause_second = 0, en_cache_second = 0, en_weekday = 0, en_minute = 0\<rparr>"

definition sample_context :: worker_context where
  "sample_context = \<lparr>wc_routes = \<lparr>us_domains = [], us_clients = []\<rparr>, wc_refuse_any = True, wc_private_reverse = False,
     wc_paused_until = 0, wc_cache_config = None, wc_persistence = False, wc_query_log = False, wc_statistics = False,
     wc_anonymize = False, wc_detailed = False\<rparr>"

text \<open>No rules at all.\<close>

definition sample_rules :: compiled_rules where
  "sample_rules = \<lparr>blocks = empty_rule_set, allows = empty_rule_set, sources = [''custom''], summary = default_summary,
     has_dnsrewrites = False, disabled = {}, base = None\<rparr>"

definition sample_filter :: filter_runtime where
  "sample_filter = \<lparr>ft_rules = sample_rules, ft_rewrites = default_rewrites, ft_blocking = default_policy,
     ft_rebinding_protection = False, ft_rebinding_allowed = {}, ft_cname_cloaking = False, ft_log_ignore = {},
     ft_statistics_ignore = {}, ft_client_filtering = \<lparr>fp_rules = [], fp_default = \<lparr>pf_name = [],
       pf_mode = FilterClient, pf_safe_search = False, pf_blocked_services = []\<rparr>\<rparr>\<rparr>"

definition sample_item :: "nat \<Rightarrow> u8 \<Rightarrow> work_item" where
  "sample_item n b = \<lparr>wi_query = sample_query[0 := b], wi_client = IpV4 0x0A000001, wi_target = TcpTarget n\<rparr>"

definition sample_access :: client_access where
  "sample_access = \<lparr>ca_allowed = empty_matcher, ca_blocked = empty_matcher, ca_rate_limiter = None\<rparr>"

definition sample_waiting :: worker_system where
  "sample_waiting = system_submit sample_env sample_context sample_filter (sample_item 1 7)
     (system_submit sample_env sample_context sample_filter (sample_item 0 0x12) (system_start sample_access None 2))"

definition sample_answered :: worker_system where
  "sample_answered = system_answer sample_env sample_context sample_filter
     (Inr \<lparr>fw_response = sample_response, fw_upstream = [], fw_duration_ms = 1\<rparr>) sample_waiting"

lemma sample_env_ok: "env_ok (\<lambda>_. 0) True sample_env"
  by (simp add: env_ok_def sample_env_def iter_ok_def)

lemma system_clients [simp]:
  "sy_clients (system_submit env ctx f item y) = (sy_clients y)(wi_target item \<mapsto> wi_query item)"
  "sy_clients (system_answer env ctx f result y) = sy_clients y"
  by (auto simp: system_submit_def system_answer_def split: prod.splits start_outcome.splits list.splits)


lemma sample_evaluated:
  "(let y = sample_waiting; w = sy_worker (system_answer sample_env sample_context sample_filter
        (Inr \<lparr>fw_response = sample_response, fw_upstream = [], fw_duration_ms = 1\<rparr>) y)
    in (map (\<lambda>j. wi_query (fj_item j)) (sy_jobs y), map fst (replies w), snd (replies w ! 0))) =
   ([sample_query], [TcpTarget 1, TcpTarget 0], Some ((sample_response[0 := 7])[15 := 66]))"
  by code_simp

lemma sample_facts:
  "map (\<lambda>j. wi_query (fj_item j)) (sy_jobs sample_waiting) = [sample_query]"
  "map fst (replies (sy_worker sample_answered)) = [TcpTarget 1, TcpTarget 0]"
  "snd (replies (sy_worker sample_answered) ! 0) = Some ((sample_response[0 := 7])[15 := 66])"
  using sample_evaluated by (simp_all only: Let_def prod.inject sample_answered_def)

lemma sample_result: "result_ok sample_query (Inr \<lparr>fw_response = sample_response, fw_upstream = u, fw_duration_ms = m\<rparr>)"
proof -
  have "validate_response_for_query sample_query sample_response = Inr ()" by code_simp
  then show ?thesis by (simp add: result_ok_def)
qed

lemma sample_reachable:
  "worker_reachable (\<lambda>_. 0) True sample_waiting" "worker_reachable (\<lambda>_. 0) True sample_answered"
proof -
  have s: "worker_reachable (\<lambda>_. 0) True (system_start sample_access None 2)"
    by (rule worker_reachable.start) (simp add: cache_ok_def)
  show w: "worker_reachable (\<lambda>_. 0) True sample_waiting" unfolding sample_waiting_def
    by (intro submit_reachable s sample_env_ok) (simp_all add: sample_item_def system_start_def)
  obtain job where "sy_jobs sample_waiting = [job]" "wi_query (fj_item job) = sample_query"
    using sample_facts(1) by auto
  then show "worker_reachable (\<lambda>_. 0) True sample_answered" unfolding sample_answered_def
    by (intro answer_reachable w sample_env_ok) (simp add: sample_result)
qed

section \<open>Properties\<close>

text \<open>C27. In every run, with any environment and any answers of the upstream servers that are valid for
  the query they were asked, each packet a client gets validates against the query of that client, also
  when it was fetched for another client, comes from the cache, or was cut to the size of a datagram.\<close>

theorem replies_answer_queries:
  assumes "worker_reachable hash reliable y" and "(t, Some p) \<in> set (replies (sy_worker y))"
  shows "\<exists>query. sy_clients y t = Some query \<and> validate_response_for_query query p = Inr ()"
  using system_reachable_inv[OF assms(1)] assms(2) by (fastforce simp: system_inv_def valid_reply_def)

theorem replies_answer_queries_witness:
  "\<exists>query. sy_clients sample_answered (TcpTarget 1) = Some query \<and>
     validate_response_for_query query ((sample_response[0 := 7])[15 := 66]) = Inr ()"
proof (rule replies_answer_queries[OF sample_reachable(2)])
  let ?rs = "replies (sy_worker sample_answered)"
  have "length ?rs = 2" "fst (?rs ! 0) = TcpTarget 1"
    using sample_facts(2) by (metis length_map length_Cons list.size(3) numeral_2_eq_2, metis length_map length_Cons nth_Cons_0 nth_map zero_less_Suc)
  then show "(TcpTarget 1, Some ((sample_response[0 := 7])[15 := 66])) \<in> set ?rs"
    using sample_facts(3) by (metis nth_mem prod.collapse zero_less_numeral)
qed





end
