(* ===== verification/RuleCache.thy ===== *)
theory RuleCache
  imports RuleVerdict AppConfig
begin

text \<open>
  \<open>dns/rule_cache.rs\<close> with the texts it compiles (\<open>build_remote_rules\<close>, \<open>build_effective_rules\<close> of
  \<open>config.rs\<close>): the compiled rules come from the rules in use, from the remote lists in use, from the
  cache file, or from the compiler, whichever has the right fingerprint.  The files of a data
  directory, the JSON encoder, the version of the package and the binary format of the crate
  \<open>postcard\<close> are parameters.  A dead weak pointer is \<open>None\<close>.
\<close>

section \<open>Fingerprints\<close>

definition FNV_OFFSET :: u64 where "FNV_OFFSET = 0xcbf29ce484222325"
definition FNV_PRIME :: u64 where "FNV_PRIME = 0x100000001b3"

fun fnv_write :: "u64 \<Rightarrow> u8 list \<Rightarrow> u64" where
  "fnv_write h [] = h"
| "fnv_write h (b # bs) = fnv_write ((h XOR ucast b) * FNV_PRIME) bs"

definition le32 :: "u32 \<Rightarrow> u8 list" where
  "le32 v = map (\<lambda>i. ucast (drop_bit (8 * i) v)) [0..<4]"

definition le64 :: "u64 \<Rightarrow> u8 list" where
  "le64 v = map (\<lambda>i. ucast (drop_bit (8 * i) v)) [0..<8]"

definition le128 :: "u128 \<Rightarrow> u8 list" where
  "le128 v = map (\<lambda>i. ucast (drop_bit (8 * i) v)) [0..<16]"

definition RULE_CACHE_FORMAT_VERSION :: u32 where "RULE_CACHE_FORMAT_VERSION = 5"
definition RULE_CACHE_MAGIC :: "u8 list" where "RULE_CACHE_MAGIC = str_bytes ''DNSBRC03''"
definition RULE_CACHE_FILE :: string where "RULE_CACHE_FILE = ''.compiled-rules-v3.postcard''"

definition LEGACY_RULE_CACHE_FILES :: "string list" where
  "LEGACY_RULE_CACHE_FILES = [''.compiled-rules-v1.postcard'', ''.compiled-rules-v2.postcard'']"

definition is_rule_cache_file :: "string \<Rightarrow> bool" where
  "is_rule_cache_file name =
     list_ex (\<lambda>f. name = f \<or> (starts_with (f @ ''.'') name \<and> ends_with ''.tmp'' name))
       (RULE_CACHE_FILE # LEGACY_RULE_CACHE_FILES)"

section \<open>The texts of the rules\<close>

text \<open>A file of the directory of filter lists: its bytes and what \<open>metadata\<close> says of it.\<close>

record list_file =
  lf_bytes :: string
  lf_text :: bool
  lf_size :: u64
  lf_modified :: u128

record rule_inputs =
  ri_dir :: string
  ri_files :: "string \<Rightarrow> list_file option"
  ri_config :: app_config

record rule_codec =
  rk_json_read :: "string \<Rightarrow> string option"
  rk_json_write :: "string \<Rightarrow> string"
  rk_package :: string
  rk_write :: "compiled_rules \<Rightarrow> u8 list"
  rk_read :: "u8 list \<Rightarrow> compiled_rules option"

definition FILTER_SOURCE_PREFIX :: string where "FILTER_SOURCE_PREFIX = ''f:''"

definition filter_source_tag :: "string \<Rightarrow> string" where
  "filter_source_tag i = FILTER_SOURCE_PREFIX @ i"

definition enabled_filters :: "rule_inputs \<Rightarrow> filter_subscription list" where
  "enabled_filters inp = filter fs_enabled (ac_filters (ri_config inp))"

text \<open>\<open>lf_text\<close> says that the bytes are the UTF-8 \<open>read_to_string\<close> asks for.\<close>

definition read_filter_cache :: "rule_inputs \<Rightarrow> string \<Rightarrow> string option" where
  "read_filter_cache inp i =
     (case ri_files inp i of None \<Rightarrow> None | Some f \<Rightarrow> if lf_text f then Some (lf_bytes f) else None)"

fun append_filters :: "rule_codec \<Rightarrow> rule_inputs \<Rightarrow> string \<Rightarrow> filter_subscription list \<Rightarrow> string" where
  "append_filters codec inp rules [] = rules"
| "append_filters codec inp rules (f # fs) =
     append_filters codec inp
       (case read_filter_cache inp (fs_id f) of
          None \<Rightarrow> rules
        | Some content \<Rightarrow>
            (if rules = [] then rules else rules @ [newline]) @ SOURCE_MARKER_PREFIX @
              rk_json_write codec (filter_source_tag (fs_id f)) @ [newline] @ content)
       fs"

definition build_remote_rules :: "rule_codec \<Rightarrow> rule_inputs \<Rightarrow> string" where
  "build_remote_rules codec inp =
     (if \<not> ac_use_filters (ri_config inp) then [] else append_filters codec inp [] (enabled_filters inp))"

definition CUSTOM_MARKER :: string where
  "CUSTOM_MARKER = SOURCE_MARKER_PREFIX @ [CHR 0x22] @ DEFAULT_SOURCE @ [CHR 0x22, newline]"

definition build_effective_rules :: "rule_codec \<Rightarrow> rule_inputs \<Rightarrow> string" where
  "build_effective_rules codec inp =
     (if \<not> ac_use_filters (ri_config inp) then []
      else (let rules = build_remote_rules codec inp
            in if trim (ac_blacklist (ri_config inp)) = [] then rules
               else (if rules = [] then rules else rules @ [newline]) @ CUSTOM_MARKER @ ac_blacklist (ri_config inp)))"

section \<open>Fingerprints of the texts\<close>

definition missing_filter :: "u8 list" where "missing_filter = str_bytes ''missing-filter''"

fun fingerprint_filters :: "rule_codec \<Rightarrow> rule_inputs \<Rightarrow> u64 \<Rightarrow> bool \<Rightarrow> filter_subscription list \<Rightarrow> u64" where
  "fingerprint_filters codec inp h has [] = h"
| "fingerprint_filters codec inp h has (f # fs) =
     (case ri_files inp (fs_id f) of
        None \<Rightarrow> fingerprint_filters codec inp (fnv_write (fnv_write h missing_filter) (str_bytes (fs_id f))) has fs
      | Some file \<Rightarrow>
          fingerprint_filters codec inp
            (fnv_write h ((if has then str_bytes [newline] else []) @ str_bytes SOURCE_MARKER_PREFIX @
               str_bytes (rk_json_write codec (filter_source_tag (fs_id f))) @ str_bytes [newline] @
               str_bytes (lf_bytes file)))
            True fs)"

definition fingerprint_start :: "rule_codec \<Rightarrow> rule_inputs \<Rightarrow> u64" where
  "fingerprint_start codec inp =
     fnv_write FNV_OFFSET (le32 RULE_CACHE_FORMAT_VERSION @ str_bytes (rk_package codec) @
       [if ac_use_filters (ri_config inp) then 1 else 0])"

text \<open>The fingerprint that is computed when the manifest is not the remembered one.\<close>

definition fresh_fingerprint :: "rule_codec \<Rightarrow> rule_inputs \<Rightarrow> u64" where
  "fresh_fingerprint codec inp =
     (if \<not> ac_use_filters (ri_config inp) then fingerprint_start codec inp
      else fingerprint_filters codec inp (fingerprint_start codec inp) False (enabled_filters inp))"

definition write_manifest_segment :: "u64 \<Rightarrow> u8 list \<Rightarrow> u64" where
  "write_manifest_segment h v = fnv_write (fnv_write h (le64 (of_nat (length v)))) v"

definition manifest_filter :: "rule_inputs \<Rightarrow> u64 \<Rightarrow> filter_subscription \<Rightarrow> u64" where
  "manifest_filter inp h f =
     (let h' = write_manifest_segment (write_manifest_segment h (str_bytes (fs_id f))) (str_bytes (fs_name f))
      in case ri_files inp (fs_id f) of
           None \<Rightarrow> fnv_write h' missing_filter
         | Some file \<Rightarrow> fnv_write (fnv_write h' (le64 (lf_size file))) (le128 (lf_modified file)))"

definition remote_rules_manifest :: "rule_codec \<Rightarrow> rule_inputs \<Rightarrow> u64" where
  "remote_rules_manifest codec inp =
     (let h = write_manifest_segment (fingerprint_start codec inp) (str_bytes (ri_dir inp))
      in if \<not> ac_use_filters (ri_config inp) then h else foldl (manifest_filter inp) h (enabled_filters inp))"

definition effective_rules_fingerprint :: "u64 \<Rightarrow> app_config \<Rightarrow> u64" where
  "effective_rules_fingerprint remote config =
     (if \<not> ac_use_filters config \<or> trim (ac_blacklist config) = [] then remote
      else fnv_write (fnv_write remote (str_bytes (newline # CUSTOM_MARKER))) (str_bytes (ac_blacklist config)))"

section \<open>The cache file\<close>

definition write_rule_cache_header :: "u64 \<Rightarrow> u8 list" where
  "write_rule_cache_header fingerprint = RULE_CACHE_MAGIC @ le32 RULE_CACHE_FORMAT_VERSION @ le64 fingerprint"

definition from_le :: "u8 list \<Rightarrow> nat" where
  "from_le bs = foldr (\<lambda>b n. unat b + 256 * n) bs 0"

datatype cache_error = HeaderTooShort | UnknownFormat | Outdated | BadContents

definition read_rule_cache_header :: "u8 list \<Rightarrow> cache_error + (u32 \<times> u64 \<times> u8 list)" where
  "read_rule_cache_header bytes =
     (if length bytes < 8 then Inl HeaderTooShort
      else if take 8 bytes \<noteq> RULE_CACHE_MAGIC then Inl UnknownFormat
      else if length bytes < 20 then Inl HeaderTooShort
      else Inr (of_nat (from_le (slice bytes 8 12)), of_nat (from_le (slice bytes 12 20)), drop 20 bytes))"

definition load_rule_cache :: "rule_codec \<Rightarrow> u8 list \<Rightarrow> u64 \<Rightarrow> cache_error + compiled_rules" where
  "load_rule_cache codec bytes fingerprint =
     (case read_rule_cache_header bytes of
        Inl e \<Rightarrow> Inl e
      | Inr (version, cached, contents) \<Rightarrow>
          if version \<noteq> RULE_CACHE_FORMAT_VERSION \<or> cached \<noteq> fingerprint then Inl Outdated
          else (case rk_read codec contents of None \<Rightarrow> Inl BadContents | Some rules \<Rightarrow> Inr rules))"

section \<open>Loading\<close>

datatype rule_load_source = FromMemory | FromCache | FromCompiler

text \<open>A background writer: its thread has started, its temporary file is written, or it has seen that
  its rules are the latest and is about to rename the file.\<close>

datatype writer_stage = Queued | Written | Checked

record rule_loader =
  rl_active :: "(u64 \<times> compiled_rules) option"
  rl_remote :: "(u64 \<times> compiled_rules) option"
  rl_manifest :: "(u64 \<times> u64) option"
  rl_latest :: u64
  rl_file :: "u8 list option"
  rl_writers :: "(u64 \<times> compiled_rules \<times> writer_stage) list"

definition remote_rules_fingerprint :: "rule_codec \<Rightarrow> rule_inputs \<Rightarrow> rule_loader \<Rightarrow> rule_loader \<times> u64" where
  "remote_rules_fingerprint codec inp s =
     (let manifest = remote_rules_manifest codec inp
      in case rl_manifest s of
           Some (m, fp) \<Rightarrow>
             if m = manifest then (s, fp)
             else if \<not> ac_use_filters (ri_config inp) then (s, fresh_fingerprint codec inp)
             else (s\<lparr>rl_manifest := Some (manifest, fresh_fingerprint codec inp)\<rparr>, fresh_fingerprint codec inp)
         | None \<Rightarrow>
             if \<not> ac_use_filters (ri_config inp) then (s, fresh_fingerprint codec inp)
             else (s\<lparr>rl_manifest := Some (manifest, fresh_fingerprint codec inp)\<rparr>, fresh_fingerprint codec inp))"

definition reuse_rules :: "(u64 \<times> compiled_rules) option \<Rightarrow> u64 \<Rightarrow> compiled_rules option" where
  "reuse_rules remembered fingerprint =
     (case remembered of
        None \<Rightarrow> None
      | Some (fp, rules) \<Rightarrow> if fp = fingerprint then Some rules else None)"

definition load_remote_rules ::
  "rule_codec \<Rightarrow> rule_inputs \<Rightarrow> u64 \<Rightarrow> rule_loader \<Rightarrow> rule_loader \<times> compiled_rules \<times> rule_load_source" where
  "load_remote_rules codec inp fp s =
     (case reuse_rules (rl_remote s) fp of
        Some rules \<Rightarrow> (s, rules, FromMemory)
      | None \<Rightarrow>
          (case (case rl_file s of None \<Rightarrow> None
                 | Some bytes \<Rightarrow> (case load_rule_cache codec bytes fp of Inl _ \<Rightarrow> None | Inr rules \<Rightarrow> Some rules)) of
             Some rules \<Rightarrow> (s\<lparr>rl_remote := Some (fp, rules)\<rparr>, rules, FromCache)
           | None \<Rightarrow>
               (let rules = compile_rules (rk_json_read codec) (build_remote_rules codec inp)
                in (s\<lparr>rl_remote := Some (fp, rules), rl_writers := (fp, rules, Queued) # rl_writers s\<rparr>, rules,
                    FromCompiler))))"

definition load_or_compile_rules ::
  "rule_codec \<Rightarrow> rule_inputs \<Rightarrow> rule_loader \<Rightarrow> rule_loader \<times> compiled_rules \<times> rule_load_source" where
  "load_or_compile_rules codec inp s0 =
     (case remote_rules_fingerprint codec inp s0 of
        (s1, remote_fp) \<Rightarrow>
          (let config = ri_config inp;
               fp = effective_rules_fingerprint remote_fp config;
               s2 = s1\<lparr>rl_latest := remote_fp\<rparr>
           in case reuse_rules (rl_active s2) fp of
                Some rules \<Rightarrow> (s2, rules, FromMemory)
              | None \<Rightarrow>
                  (let has_custom = (ac_use_filters config \<and> trim (ac_blacklist config) \<noteq> [])
                   in if has_custom \<and> custom_rules_have_badfilter (ac_blacklist config)
                      then (let rules = compile_rules (rk_json_read codec) (build_effective_rules codec inp)
                            in (s2\<lparr>rl_active := Some (fp, rules)\<rparr>, rules, FromCompiler))
                      else (case load_remote_rules codec inp remote_fp s2 of
                          (s3, remote, source) \<Rightarrow>
                            (let rules = (if has_custom
                                  then with_custom_layer (rk_json_read codec) remote (ac_blacklist config)
                                  else remote)
                             in (s3\<lparr>rl_active := Some (fp, rules)\<rparr>, rules, source))))))"

definition forget_active_rules :: "rule_loader \<Rightarrow> rule_loader" where
  "forget_active_rules s = s\<lparr>rl_active := None, rl_remote := None, rl_manifest := None\<rparr>"

text \<open>The steps of a writer; \<open>ok\<close>: the file operations succeed.\<close>

definition save_rule_cache :: "rule_codec \<Rightarrow> bool \<Rightarrow> nat \<Rightarrow> rule_loader \<Rightarrow> rule_loader" where
  "save_rule_cache codec ok i s =
     (case get_at (rl_writers s) i of
        None \<Rightarrow> s
      | Some (fp, rules, stage) \<Rightarrow>
          (let gone = take i (rl_writers s) @ drop (i + 1) (rl_writers s)
           in case stage of
                Queued \<Rightarrow> if ok then s\<lparr>rl_writers := (rl_writers s)[i := (fp, rules, Written)]\<rparr> else s\<lparr>rl_writers := gone\<rparr>
              | Written \<Rightarrow>
                  if rl_latest s \<noteq> fp then s\<lparr>rl_writers := gone\<rparr>
                  else s\<lparr>rl_writers := (rl_writers s)[i := (fp, rules, Checked)]\<rparr>
              | Checked \<Rightarrow>
                  s\<lparr>rl_writers := gone, rl_file := if ok then Some (write_rule_cache_header fp @ rk_write codec rules) else None\<rparr>))"

text \<open>The files of the directory with their sizes that are deleted, and what is counted of them.\<close>

definition clear_cache_files :: "(string \<times> u64) list \<Rightarrow> (string \<times> u64) list \<times> nat \<times> u64" where
  "clear_cache_files files =
     (let removed = filter (\<lambda>(name, size). is_rule_cache_file name) files
      in (filter (\<lambda>(name, size). \<not> is_rule_cache_file name) files, length removed, sum_list (map snd removed)))"

text \<open>The cache file and every temporary file are deleted, so that no writer that has one can rename it.\<close>

definition clear_rule_cache :: "rule_loader \<Rightarrow> rule_loader" where
  "clear_rule_cache s =
     (forget_active_rules (s\<lparr>rl_latest := 0\<rparr>))
       \<lparr>rl_file := None, rl_writers := filter (\<lambda>(fp, rules, stage). stage = Queued) (rl_writers s)\<rparr>"

end
