(* ===== verification/RuleCacheSpec.thy ===== *)
theory RuleCacheSpec
  imports RuleCache
begin

text \<open>
  What the rule cache promises: whatever is reused, the rules decide every query as the rules compiled
  from the full text of the lists and the custom rules; the header of the cache file is read back; a
  cleared cache is not written again by a writer that was already under way.
\<close>

section \<open>Lines of texts put together\<close>






















section \<open>The custom rules behind the lists\<close>











section \<open>The header of the file\<close>




section \<open>The rules of every load\<close>


































section \<open>Clearing\<close>

text \<open>After the cache is cleared, no writer that is still under way brings its file back.\<close>

definition no_file_coming :: "rule_loader \<Rightarrow> bool" where
  "no_file_coming s \<longleftrightarrow> rl_file s = None \<and> rl_latest s = 0 \<and>
     (\<forall>(fp, r, stage)\<in>set (rl_writers s). fp \<noteq> 0 \<and> stage \<noteq> Checked)"

lemma no_file_coming_step: "no_file_coming s \<Longrightarrow> no_file_coming (save_rule_cache K ok i s)"
proof (cases "get_at (rl_writers s) i")
  case (Some w)
  assume inv: "no_file_coming s"
  obtain fp r stage where w: "w = (fp, r, stage)" by (cases w)
  have "w \<in> set (rl_writers s)" using Some by (auto simp: get_at_def split: if_splits)
  then have ok: "fp \<noteq> 0" "stage \<noteq> Checked" using inv w by (auto simp: no_file_coming_def)
  have gone: "no_file_coming (s\<lparr>rl_writers := take i (rl_writers s) @ drop (i + 1) (rl_writers s)\<rparr>)"
    using inv by (fastforce simp: no_file_coming_def dest: in_set_takeD in_set_dropD)
  have advanced: "no_file_coming (s\<lparr>rl_writers := (rl_writers s)[i := (fp, r, Written)]\<rparr>)"
    using inv ok set_update_subset_insert[of "rl_writers s" i "(fp, r, Written)"] by (fastforce simp: no_file_coming_def)
  show ?thesis
    using Some w ok gone advanced inv
    by (cases stage) (auto simp: save_rule_cache_def Let_def no_file_coming_def)
qed (simp add: save_rule_cache_def)

lemma cleared_cache_not_restored:
  assumes "\<forall>(fp, r, stage)\<in>set (rl_writers s). fp \<noteq> 0"
  shows "rl_file (fold (\<lambda>(ok, i). save_rule_cache K ok i) steps (clear_rule_cache s)) = None"
proof -
  have "no_file_coming (clear_rule_cache s)"
    using assms by (auto simp: no_file_coming_def clear_rule_cache_def forget_active_rules_def)
  then have "no_file_coming (fold (\<lambda>(ok, i). save_rule_cache K ok i) steps (clear_rule_cache s))"
    by (induction steps arbitrary: s rule: rev_induct) (auto intro: no_file_coming_step split: prod.splits)
  then show ?thesis by (simp add: no_file_coming_def)
qed

end
