(* ===== verification/WebAuth.thy ===== *)
theory WebAuth
  imports NetAddr DomainName
begin

text \<open>
  \<open>web_auth.rs\<close>: the password of the web administration, the sessions and the limits on logins.  Every
  function is a transition of \<open>web_auth\<close>; a login is two of them, because the password is checked
  between them without any lock.  The clocks, the random token, the salted hash (\<open>Argon2\<close>), the digest
  (\<open>Sha256\<close>) and whether the database works come from the environment.  Times are nanoseconds of the
  monotonic clock.  A poisoned lock is not modelled.
\<close>

section \<open>Constants and data\<close>

definition SECOND :: nat where "SECOND = 1000000000"
definition SESSION_COOKIE :: string where "SESSION_COOKIE = ''dnsblackhole_session''"
definition SESSION_ABSOLUTE_LIFETIME :: nat where "SESSION_ABSOLUTE_LIFETIME = 12 * 3600 * SECOND"
definition MAX_SESSIONS :: nat where "MAX_SESSIONS = 16"
definition MIN_PASSWORD_CHARS :: nat where "MIN_PASSWORD_CHARS = 8"
definition MAX_PASSWORD_BYTES :: nat where "MAX_PASSWORD_BYTES = 128"
definition MAX_PASSWORD_FILE_BYTES :: nat where "MAX_PASSWORD_FILE_BYTES = 4 * 1024"
definition LOCKOUT_AFTER_FAILURES :: u32 where "LOCKOUT_AFTER_FAILURES = 5"
definition LOCKOUT_BASE :: nat where "LOCKOUT_BASE = 15 * SECOND"
definition LOCKOUT_MAX :: nat where "LOCKOUT_MAX = 15 * 60 * SECOND"
definition MAX_TRACKED_CLIENTS :: nat where "MAX_TRACKED_CLIENTS = 1024"
definition ATTEMPT_RETENTION :: nat where "ATTEMPT_RETENTION = 3600 * SECOND"
definition GLOBAL_FAILURE_WINDOW :: nat where "GLOBAL_FAILURE_WINDOW = 300 * SECOND"
definition GLOBAL_FAILURE_LIMIT :: u32 where "GLOBAL_FAILURE_LIMIT = 100"
definition GLOBAL_LOCKOUT :: nat where "GLOBAL_LOCKOUT = 60 * SECOND"

datatype password_fault = TooFewChars | TooManyBytes | ControlChar

datatype auth_failure =
    SetupRequired | AlreadyConfigured | Unauthenticated | InvalidPassword
  | Locked nat | InvalidInput password_fault | AuthInternal string

datatype password_origin = WebSetup | WebChange | LocalCli | LocalReset | PasswordFile

datatype auth_event =
    PasswordChanged "ip_addr option" password_origin
  | LoginSucceeded ip_addr
  | LoginRejected ip_addr
  | ChangeRejected ip_addr
  | LoginLocked ip_addr nat

record session_entry =
  se_key :: "u8 list"
  se_created :: nat
  se_seen :: nat

record client_attempts =
  at_failures :: u32
  at_locked_until :: "nat option"
  at_last_failure :: nat

record rate_state =
  rs_clients :: "(ip_addr \<times> client_attempts) list"
  rs_failures :: u32
  rs_window :: "nat option"
  rs_locked_until :: "nat option"

record web_auth =
  wa_loaded :: bool
  wa_hash :: "string option"
  wa_updated :: "u64 option"
  wa_sessions :: "session_entry list"
  wa_limit :: rate_state
  wa_stored :: "(string \<times> u64) option"
  wa_events :: "auth_event list"

text \<open>What one call finds: the monotonic clock at its steps, the clock of the database, the error of the
  database if it fails, the configured idle time, the hash of the new password, the random bytes.\<close>

record auth_env =
  ae_check :: nat
  ae_reject :: nat
  ae_session :: nat
  ae_unix :: u64
  ae_database :: "string option"
  ae_idle_minutes :: u32
  ae_phc :: "string + string"
  ae_random :: "string + u8 list"
  ae_digest :: "string \<Rightarrow> u8 list"
  ae_verify :: "string \<Rightarrow> string \<Rightarrow> string + bool"

definition web_auth_new :: "(string \<times> u64) option \<Rightarrow> web_auth" where
  "web_auth_new stored =
     \<lparr>wa_loaded = False, wa_hash = None, wa_updated = None, wa_sessions = [],
      wa_limit = \<lparr>rs_clients = [], rs_failures = 0, rs_window = None, rs_locked_until = None\<rparr>,
      wa_stored = stored, wa_events = []\<rparr>"

fun origin_client :: "password_origin \<Rightarrow> ip_addr option" where
  "origin_client WebSetup = None"
| "origin_client WebChange = None"
| "origin_client _ = Some (IpV4 0x7F000001)"

definition record_event :: "auth_event \<Rightarrow> web_auth \<Rightarrow> web_auth" where
  "record_event e s = s\<lparr>wa_events := wa_events s @ [e]\<rparr>"

section \<open>Credentials\<close>

definition load_credential_cache :: "auth_env \<Rightarrow> web_auth \<Rightarrow> string + web_auth" where
  "load_credential_cache env s =
     (if wa_loaded s then Inr s
      else (case ae_database env of
          Some e \<Rightarrow> Inl e
        | None \<Rightarrow> Inr (s\<lparr>wa_hash := map_option fst (wa_stored s), wa_updated := map_option snd (wa_stored s),
                        wa_loaded := True\<rparr>)))"

definition credential_hash :: "auth_env \<Rightarrow> web_auth \<Rightarrow> web_auth \<times> (string + string option)" where
  "credential_hash env s =
     (case load_credential_cache env s of Inl e \<Rightarrow> (s, Inl e) | Inr s' \<Rightarrow> (s', Inr (wa_hash s')))"

text \<open>The characters of a UTF-8 text are its bytes that continue none.\<close>

definition char_count :: "string \<Rightarrow> nat" where
  "char_count s = length (filter (\<lambda>c. \<not> in_code 0x80 0xBF c) s)"

fun has_control :: "string \<Rightarrow> bool" where
  "has_control [] = False"
| "has_control [a] = (in_code 0 0x1F a \<or> in_code 0x7F 0x7F a)"
| "has_control (a # b # r) =
     (in_code 0 0x1F a \<or> in_code 0x7F 0x7F a \<or> (in_code 0xC2 0xC2 a \<and> in_code 0x80 0x9F b) \<or> has_control (b # r))"

definition validate_password :: "string \<Rightarrow> password_fault option" where
  "validate_password password =
     (if char_count password < MIN_PASSWORD_CHARS then Some TooFewChars
      else if MAX_PASSWORD_BYTES < length password then Some TooManyBytes
      else if has_control password then Some ControlChar
      else None)"

definition create_initial_password ::
  "auth_env \<Rightarrow> string \<Rightarrow> password_origin \<Rightarrow> ip_addr option \<Rightarrow> web_auth \<Rightarrow> web_auth \<times> auth_failure option" where
  "create_initial_password env password origin client s =
     (case validate_password password of
        Some fault \<Rightarrow> (s, Some (InvalidInput fault))
      | None \<Rightarrow>
          (case ae_phc env of
             Inl e \<Rightarrow> (s, Some (AuthInternal e))
           | Inr phc \<Rightarrow>
               (case load_credential_cache env s of
                  Inl e \<Rightarrow> (s, Some (AuthInternal e))
                | Inr s1 \<Rightarrow>
                    if wa_hash s1 \<noteq> None then (s1, Some AlreadyConfigured)
                    else (case ae_database env of
                        Some e \<Rightarrow> (s1, Some (AuthInternal e))
                      | None \<Rightarrow>
                          (case wa_stored s1 of
                             Some (h, t) \<Rightarrow>
                               (s1\<lparr>wa_hash := Some h, wa_updated := Some t, wa_loaded := True\<rparr>, Some AlreadyConfigured)
                           | None \<Rightarrow>
                               (record_event (PasswordChanged (case client of Some c \<Rightarrow> Some c | None \<Rightarrow> origin_client origin) origin)
                                  (s1\<lparr>wa_stored := Some (phc, ae_unix env), wa_loaded := True, wa_hash := Some phc,
                                     wa_updated := Some (ae_unix env)\<rparr>), None))))))"

definition store_password ::
  "auth_env \<Rightarrow> string \<Rightarrow> password_origin \<Rightarrow> ip_addr option \<Rightarrow> web_auth \<Rightarrow> web_auth \<times> auth_failure option" where
  "store_password env password origin client s =
     (case validate_password password of
        Some fault \<Rightarrow> (s, Some (InvalidInput fault))
      | None \<Rightarrow>
          (case ae_phc env of
             Inl e \<Rightarrow> (s, Some (AuthInternal e))
           | Inr phc \<Rightarrow>
               (case ae_database env of
                  Some e \<Rightarrow> (s, Some (AuthInternal e))
                | None \<Rightarrow>
                    (record_event (PasswordChanged (case client of Some c \<Rightarrow> Some c | None \<Rightarrow> origin_client origin) origin)
                       (s\<lparr>wa_stored := Some (phc, ae_unix env), wa_loaded := True, wa_hash := Some phc,
                          wa_updated := Some (ae_unix env)\<rparr>), None))))"

section \<open>Sessions\<close>

definition constant_time_eq :: "u8 list \<Rightarrow> u8 list \<Rightarrow> bool" where
  "constant_time_eq l r = (fold (\<lambda>i diff. diff OR ((l ! i) XOR (r ! i))) [0..<32] (0 :: u8) = 0)"

definition idle_timeout :: "auth_env \<Rightarrow> nat" where
  "idle_timeout env = unat (ae_idle_minutes env) * 60 * SECOND"

definition prune_sessions :: "session_entry list \<Rightarrow> nat \<Rightarrow> nat \<Rightarrow> session_entry list" where
  "prune_sessions sessions idle now =
     filter (\<lambda>s. now - se_created s \<le> SESSION_ABSOLUTE_LIFETIME \<and> now - se_seen s \<le> idle) sessions"

fun hex_digit :: "nat \<Rightarrow> char" where
  "hex_digit n = char_of (if n < 10 then 48 + n else 87 + n)"

definition token_text :: "u8 list \<Rightarrow> string" where
  "token_text raw = concat (map (\<lambda>b. [hex_digit (unat b div 16), hex_digit (unat b mod 16)]) raw)"

definition issue_session :: "auth_env \<Rightarrow> web_auth \<Rightarrow> web_auth \<times> (auth_failure + string)" where
  "issue_session env s =
     (case ae_random env of
        Inl e \<Rightarrow> (s, Inl (AuthInternal e))
      | Inr raw \<Rightarrow>
          (let token = token_text raw; now = ae_session env;
               kept = prune_sessions (wa_sessions s) (idle_timeout env) now;
               room = (if MAX_SESSIONS \<le> length kept then tl kept else kept)
           in (s\<lparr>wa_sessions := room @ [\<lparr>se_key = ae_digest env token, se_created = now, se_seen = now\<rparr>]\<rparr>,
               Inr token)))"

text \<open>The loop keeps the last match.\<close>

definition matching_session :: "u8 list \<Rightarrow> session_entry list \<Rightarrow> nat option" where
  "matching_session key sessions =
     fold (\<lambda>i m. if constant_time_eq (se_key (sessions ! i)) key then Some i else m) [0..<length sessions] None"

definition touch_session :: "auth_env \<Rightarrow> u8 list \<Rightarrow> web_auth \<Rightarrow> web_auth \<times> bool" where
  "touch_session env key s =
     (let now = ae_session env; kept = prune_sessions (wa_sessions s) (idle_timeout env) now
      in case matching_session key kept of
           Some i \<Rightarrow> (s\<lparr>wa_sessions := kept[i := (kept ! i)\<lparr>se_seen := now\<rparr>]\<rparr>, True)
         | None \<Rightarrow> (s\<lparr>wa_sessions := kept\<rparr>, False))"

definition remove_session :: "u8 list \<Rightarrow> web_auth \<Rightarrow> web_auth" where
  "remove_session key s = s\<lparr>wa_sessions := filter (\<lambda>e. \<not> constant_time_eq (se_key e) key) (wa_sessions s)\<rparr>"

definition retain_only_session :: "u8 list option \<Rightarrow> web_auth \<Rightarrow> web_auth" where
  "retain_only_session keep s =
     s\<lparr>wa_sessions := (case keep of None \<Rightarrow> [] | Some key \<Rightarrow> filter (\<lambda>e. constant_time_eq (se_key e) key) (wa_sessions s))\<rparr>"

definition active_session_count :: "auth_env \<Rightarrow> web_auth \<Rightarrow> web_auth \<times> nat" where
  "active_session_count env s =
     (let kept = prune_sessions (wa_sessions s) (idle_timeout env) (ae_session env)
      in (s\<lparr>wa_sessions := kept\<rparr>, length kept))"

definition session_cookie :: "string \<Rightarrow> bool \<Rightarrow> string" where
  "session_cookie token secure =
     SESSION_COOKIE @ ''='' @ token @ ''; HttpOnly; SameSite=Strict; Path=/'' @ (if secure then ''; Secure'' else [])"

definition cleared_session_cookie :: "bool \<Rightarrow> string" where
  "cleared_session_cookie secure =
     SESSION_COOKIE @ ''=; HttpOnly; SameSite=Strict; Path=/; Max-Age=0'' @ (if secure then ''; Secure'' else [])"

definition session_token_from_cookies :: "string \<Rightarrow> string option" where
  "session_token_from_cookies header =
     (case find (\<lambda>(name, _). trim name = SESSION_COOKIE)
             (List.map_filter (split_once (CHR ''='')) (split_on (CHR '';'') header)) of
        None \<Rightarrow> None
      | Some (_, value) \<Rightarrow> if trim value = [] then None else Some (trim value))"

section \<open>Limits on logins\<close>

definition remaining_seconds :: "nat \<Rightarrow> nat \<Rightarrow> nat" where
  "remaining_seconds until now = max ((until - now) div SECOND) 1"

definition check_lockout :: "nat \<Rightarrow> ip_addr \<Rightarrow> rate_state \<Rightarrow> rate_state \<times> nat option" where
  "check_lockout now client l =
     (case (case rs_locked_until l of Some u \<Rightarrow> if now < u then Some u else None | None \<Rightarrow> None) of
        Some u \<Rightarrow> (l, Some (remaining_seconds u now))
      | None \<Rightarrow>
          (l\<lparr>rs_locked_until := None\<rparr>,
           case find (\<lambda>(ip, _). ip = client) (rs_clients l) of
             None \<Rightarrow> None
           | Some (_, a) \<Rightarrow>
               (case at_locked_until a of
                  None \<Rightarrow> None
                | Some u \<Rightarrow> if now < u then Some (remaining_seconds u now) else None)))"

text \<open>\<open>min_by_key\<close> returns the first of the least elements.\<close>

fun oldest_index :: "(ip_addr \<times> client_attempts) list \<Rightarrow> nat option" where
  "oldest_index [] = None"
| "oldest_index ((ip, a) # cs) =
     (case oldest_index cs of
        None \<Rightarrow> Some 0
      | Some i \<Rightarrow> if at_last_failure a \<le> at_last_failure (snd (cs ! i)) then Some 0 else Some (Suc i))"

function evict_oldest :: "(ip_addr \<times> client_attempts) list \<Rightarrow> (ip_addr \<times> client_attempts) list" where
  "evict_oldest cs =
     (if MAX_TRACKED_CLIENTS \<le> length cs
      then (case oldest_index cs of None \<Rightarrow> cs | Some i \<Rightarrow> evict_oldest (take i cs @ drop (Suc i) cs))
      else cs)"
  by pat_completeness auto

lemma oldest_index_less: "oldest_index cs = Some i \<Longrightarrow> i < length cs"
  by (induction cs arbitrary: i rule: oldest_index.induct) (auto split: option.splits if_splits)

termination evict_oldest
  by (relation "measure length") (auto dest: oldest_index_less)

declare evict_oldest.simps [simp del]

definition evict_stale_attempts :: "nat \<Rightarrow> (ip_addr \<times> client_attempts) list \<Rightarrow> (ip_addr \<times> client_attempts) list" where
  "evict_stale_attempts now cs =
     evict_oldest (filter (\<lambda>(_, a). (case at_locked_until a of None \<Rightarrow> False | Some u \<Rightarrow> now < u) \<or>
                                    now - at_last_failure a \<le> ATTEMPT_RETENTION) cs)"

text \<open>The global counter: the state after it and the seconds of the lock it starts.\<close>

definition count_failure :: "nat \<Rightarrow> rate_state \<Rightarrow> rate_state \<times> nat option" where
  "count_failure now l =
     (let within = (case rs_window l of None \<Rightarrow> False | Some started \<Rightarrow> now - started \<le> GLOBAL_FAILURE_WINDOW);
          l1 = (if within then l\<lparr>rs_failures := sat_add (rs_failures l) 1\<rparr>
                else l\<lparr>rs_window := Some now, rs_failures := 1\<rparr>)
      in if GLOBAL_FAILURE_LIMIT \<le> rs_failures l1
         then (l1\<lparr>rs_locked_until := Some (now + GLOBAL_LOCKOUT), rs_failures := 0, rs_window := Some now\<rparr>,
               Some (GLOBAL_LOCKOUT div SECOND))
         else (l1, None))"

definition lock_length :: "u32 \<Rightarrow> nat" where
  "lock_length failures = min (LOCKOUT_BASE * 2 ^ min (unat (failures - LOCKOUT_AFTER_FAILURES)) 16) LOCKOUT_MAX"

definition fail_again :: "nat \<Rightarrow> client_attempts \<Rightarrow> client_attempts \<times> nat option" where
  "fail_again now a =
     (let failures = sat_add (at_failures a) 1;
          a1 = a\<lparr>at_failures := failures, at_last_failure := now\<rparr>
      in if LOCKOUT_AFTER_FAILURES \<le> failures
         then (a1\<lparr>at_locked_until := Some (now + lock_length failures)\<rparr>, Some (lock_length failures div SECOND))
         else (a1, None))"

fun update_client ::
  "ip_addr \<Rightarrow> nat \<Rightarrow> (ip_addr \<times> client_attempts) list \<Rightarrow> (ip_addr \<times> client_attempts) list \<times> nat option" where
  "update_client client now [] =
     (let (a, lock) = fail_again now \<lparr>at_failures = 0, at_locked_until = None, at_last_failure = now\<rparr>
      in ([(client, a)], lock))"
| "update_client client now ((ip, a) # cs) =
     (if ip = client then (let (a', lock) = fail_again now a in ((ip, a') # cs, lock))
      else (let (cs', lock) = update_client client now cs in ((ip, a) # cs', lock)))"

definition record_failure :: "nat \<Rightarrow> ip_addr \<Rightarrow> rate_state \<Rightarrow> rate_state \<times> nat option" where
  "record_failure now client l =
     (case count_failure now l of
        (l1, lock1) \<Rightarrow>
          (case update_client client now (evict_stale_attempts now (rs_clients l1)) of
             (cs, lock2) \<Rightarrow> (l1\<lparr>rs_clients := cs\<rparr>, case lock2 of Some k \<Rightarrow> Some k | None \<Rightarrow> lock1)))"

definition clear_failures :: "ip_addr \<Rightarrow> rate_state \<Rightarrow> rate_state" where
  "clear_failures client l = l\<lparr>rs_clients := filter (\<lambda>(ip, _). ip \<noteq> client) (rs_clients l)\<rparr>"

definition reject_login :: "auth_env \<Rightarrow> ip_addr \<Rightarrow> web_auth \<Rightarrow> web_auth \<times> auth_failure" where
  "reject_login env client s =
     (case record_failure (ae_reject env) client (wa_limit s) of
        (l, lock) \<Rightarrow>
          (let s1 = record_event (LoginRejected client) (s\<lparr>wa_limit := l\<rparr>)
           in case lock of
                Some k \<Rightarrow> (record_event (LoginLocked client k) s1, Locked k)
              | None \<Rightarrow> (s1, InvalidPassword)))"

section \<open>The operations\<close>

datatype auth_outcome = Authorized | Rejected auth_failure

definition authorize :: "auth_env \<Rightarrow> string option \<Rightarrow> web_auth \<Rightarrow> web_auth \<times> auth_outcome" where
  "authorize env cookie s =
     (case credential_hash env s of
        (s1, Inl e) \<Rightarrow> (s1, Rejected (AuthInternal e))
      | (s1, Inr None) \<Rightarrow> (s1, Rejected SetupRequired)
      | (s1, Inr (Some _)) \<Rightarrow>
          (case (case cookie of None \<Rightarrow> None | Some header \<Rightarrow> session_token_from_cookies header) of
             None \<Rightarrow> (s1, Rejected Unauthenticated)
           | Some token \<Rightarrow>
               (case touch_session env (ae_digest env token) s1 of
                  (s2, True) \<Rightarrow> (s2, Authorized)
                | (s2, False) \<Rightarrow> (s2, Rejected Unauthenticated))))"

definition setup_password :: "auth_env \<Rightarrow> ip_addr \<Rightarrow> string \<Rightarrow> web_auth \<Rightarrow> web_auth \<times> (auth_failure + string)" where
  "setup_password env client password s =
     (case create_initial_password env password WebSetup (Some client) s of
        (s1, Some failure) \<Rightarrow> (s1, Inl failure)
      | (s1, None) \<Rightarrow> issue_session env s1)"

text \<open>A login up to the check of the password: the hash it will be checked against.\<close>

definition login_begin :: "auth_env \<Rightarrow> ip_addr \<Rightarrow> web_auth \<Rightarrow> web_auth \<times> (auth_failure + string)" where
  "login_begin env client s =
     (case credential_hash env s of
        (s1, Inl e) \<Rightarrow> (s1, Inl (AuthInternal e))
      | (s1, Inr None) \<Rightarrow> (s1, Inl SetupRequired)
      | (s1, Inr (Some stored)) \<Rightarrow>
          (case check_lockout (ae_check env) client (wa_limit s1) of
             (l, Some k) \<Rightarrow> (s1\<lparr>wa_limit := l\<rparr>, Inl (Locked k))
           | (l, None) \<Rightarrow> (s1\<lparr>wa_limit := l\<rparr>, Inr stored)))"

definition login_end ::
  "auth_env \<Rightarrow> ip_addr \<Rightarrow> string \<Rightarrow> string \<Rightarrow> web_auth \<Rightarrow> web_auth \<times> (auth_failure + string)" where
  "login_end env client password stored s =
     (let rejected = (case reject_login env client s of (s1, failure) \<Rightarrow> (s1, Inl failure))
      in if MAX_PASSWORD_BYTES < length password \<or> has_control password then rejected
         else (case ae_verify env stored password of
             Inl e \<Rightarrow> (s, Inl (AuthInternal e))
           | Inr False \<Rightarrow> rejected
           | Inr True \<Rightarrow>
               (case issue_session env (s\<lparr>wa_limit := clear_failures client (wa_limit s)\<rparr>) of
                  (s1, Inl failure) \<Rightarrow> (s1, Inl failure)
                | (s1, Inr token) \<Rightarrow> (record_event (LoginSucceeded client) s1, Inr token))))"

definition login :: "auth_env \<Rightarrow> ip_addr \<Rightarrow> string \<Rightarrow> web_auth \<Rightarrow> web_auth \<times> (auth_failure + string)" where
  "login env client password s =
     (case login_begin env client s of
        (s1, Inl failure) \<Rightarrow> (s1, Inl failure)
      | (s1, Inr stored) \<Rightarrow> login_end env client password stored s1)"

definition change_password ::
  "auth_env \<Rightarrow> ip_addr \<Rightarrow> string option \<Rightarrow> string \<Rightarrow> string \<Rightarrow> web_auth \<Rightarrow> web_auth \<times> auth_failure option" where
  "change_password env client cookie current fresh s =
     (case validate_password fresh of
        Some fault \<Rightarrow> (s, Some (InvalidInput fault))
      | None \<Rightarrow>
          (case ae_phc env of
             Inl e \<Rightarrow> (s, Some (AuthInternal e))
           | Inr phc \<Rightarrow>
               (case load_credential_cache env s of
                  Inl e \<Rightarrow> (s, Some (AuthInternal e))
                | Inr s1 \<Rightarrow>
                    (case wa_hash s1 of
                       None \<Rightarrow> (s1, Some SetupRequired)
                     | Some stored \<Rightarrow>
                         (case ae_verify env stored current of
                            Inl e \<Rightarrow> (s1, Some (AuthInternal e))
                          | Inr False \<Rightarrow> (record_event (ChangeRejected client) s1, Some InvalidPassword)
                          | Inr True \<Rightarrow>
                              (case ae_database env of
                                 Some e \<Rightarrow> (s1, Some (AuthInternal e))
                               | None \<Rightarrow>
                                   (retain_only_session
                                      (map_option (ae_digest env)
                                        (case cookie of None \<Rightarrow> None | Some header \<Rightarrow> session_token_from_cookies header))
                                      (record_event (PasswordChanged (Some client) WebChange)
                                        (s1\<lparr>wa_stored := Some (phc, ae_unix env), wa_hash := Some phc,
                                           wa_updated := Some (ae_unix env)\<rparr>)), None)))))))"

definition logout :: "auth_env \<Rightarrow> string option \<Rightarrow> web_auth \<Rightarrow> web_auth" where
  "logout env cookie s =
     (case (case cookie of None \<Rightarrow> None | Some header \<Rightarrow> session_token_from_cookies header) of
        None \<Rightarrow> s
      | Some token \<Rightarrow> remove_session (ae_digest env token) s)"

definition invalidate_sessions :: "web_auth \<Rightarrow> web_auth" where
  "invalidate_sessions s = retain_only_session None s"

definition set_password_locally ::
  "auth_env \<Rightarrow> string \<Rightarrow> password_origin \<Rightarrow> web_auth \<Rightarrow> web_auth \<times> auth_failure option" where
  "set_password_locally env password origin s =
     (case store_password env password origin None s of
        (s1, Some failure) \<Rightarrow> (s1, Some failure)
      | (s1, None) \<Rightarrow> (retain_only_session None s1, None))"

definition reset_password :: "auth_env \<Rightarrow> web_auth \<Rightarrow> web_auth \<times> (auth_failure + bool)" where
  "reset_password env s =
     (case ae_database env of
        Some e \<Rightarrow> (s, Inl (AuthInternal e))
      | None \<Rightarrow>
          (let removed = (wa_stored s \<noteq> None);
               s1 = retain_only_session None
                      (s\<lparr>wa_stored := None, wa_loaded := True, wa_hash := None, wa_updated := None\<rparr>)
           in (if removed then record_event (PasswordChanged (origin_client LocalReset) LocalReset) s1 else s1,
               Inr removed)))"

record web_auth_status =
  ws_configured :: bool
  ws_updated :: "u64 option"
  ws_sessions :: nat

definition auth_status :: "auth_env \<Rightarrow> web_auth \<Rightarrow> web_auth \<times> (auth_failure + web_auth_status)" where
  "auth_status env s =
     (case credential_hash env s of
        (s1, Inl e) \<Rightarrow> (s1, Inl (AuthInternal e))
      | (s1, Inr hash) \<Rightarrow>
          (case active_session_count env s1 of
             (s2, n) \<Rightarrow> (s2, Inr \<lparr>ws_configured = (hash \<noteq> None), ws_updated = wa_updated s1, ws_sessions = n\<rparr>)))"

text \<open>The password file: whether it is a regular file, its size, and its text if it is UTF-8.\<close>

datatype password_file_error = FileUnreadable | NotRegular | FileTooLarge | NotText | FileRejected auth_failure

definition read_password_file :: "(bool \<times> nat \<times> string option) option \<Rightarrow> password_file_error + string" where
  "read_password_file file =
     (case file of
        None \<Rightarrow> Inl FileUnreadable
      | Some (regular, bytes, text) \<Rightarrow>
          if \<not> regular then Inl NotRegular
          else if MAX_PASSWORD_FILE_BYTES < bytes then Inl FileTooLarge
          else (case text of
              None \<Rightarrow> Inl NotText
            | Some content \<Rightarrow> Inr (rev (dropWhile (\<lambda>c. c = newline \<or> c = carriage) (rev content)))))"

definition apply_password_file ::
  "auth_env \<Rightarrow> (bool \<times> nat \<times> string option) option \<Rightarrow> web_auth \<Rightarrow> web_auth \<times> password_file_error option" where
  "apply_password_file env file s =
     (case credential_hash env s of
        (s1, Inl e) \<Rightarrow> (s1, Some (FileRejected (AuthInternal e)))
      | (s1, Inr (Some _)) \<Rightarrow> (s1, None)
      | (s1, Inr None) \<Rightarrow>
          (case read_password_file file of
             Inl e \<Rightarrow> (s1, Some e)
           | Inr password \<Rightarrow>
               (case create_initial_password env password PasswordFile None s1 of
                  (s2, None) \<Rightarrow> (s2, None)
                | (s2, Some AlreadyConfigured) \<Rightarrow> (s2, None)
                | (s2, Some failure) \<Rightarrow> (s2, Some (FileRejected failure)))))"

end
