(* ===== verification/WebAuthSpec.thy ===== *)
theory WebAuthSpec
  imports WebAuth "HOL-Library.While_Combinator"
begin

text \<open>
  What the authentication promises, over every interleaving of its operations: who is let through,
  how much is remembered, how long a lock holds, and that the loop over the table of failures ends.
\<close>

unbundle bit_operations_syntax

section \<open>Keys and sessions\<close>

lemma fold_or_zero: "fold (\<lambda>i d. d OR f i) xs (a :: 'a::len word) = 0 \<longleftrightarrow> a = 0 \<and> (\<forall>i\<in>set xs. f i = 0)"
  by (induction xs arbitrary: a) (auto simp: or_eq_0_iff)

lemma xor_zero_iff: "(a :: 'a::len word) XOR b = 0 \<longleftrightarrow> a = b"
  by (metis xor.assoc xor.left_neutral xor_self_eq)

lemma constant_time_eq_iff:
  assumes "length l = 32" and "length r = 32"
  shows "constant_time_eq l r \<longleftrightarrow> l = r"
  using assms by (auto simp: constant_time_eq_def fold_or_zero xor_zero_iff list_eq_iff_nth_eq)

lemma fold_last_match:
  "fold (\<lambda>i m. if P i then Some i else m) xs m0 = Some i \<Longrightarrow> m0 = Some i \<or> (i \<in> set xs \<and> P i)"
proof (induction xs arbitrary: m0)
  case (Cons a xs)
  then show ?case by (cases "P a") force+
qed simp

lemma matching_session_Some:
  assumes "matching_session key ss = Some i"
  shows "i < length ss \<and> constant_time_eq (se_key (ss ! i)) key"
  using fold_last_match[OF assms[unfolded matching_session_def]] by simp

lemma prune_subset: "e \<in> set (prune_sessions ss idle now) \<Longrightarrow> e \<in> set ss"
  by (simp add: prune_sessions_def)


lemma prune_length: "length (prune_sessions ss idle now) \<le> length ss"
  by (simp add: prune_sessions_def)

section \<open>Runs\<close>

text \<open>What does not change from call to call: the digest of a token and the check of a password.\<close>

record web_world =
  ww_digest :: "string \<Rightarrow> u8 list"
  ww_verify :: "string \<Rightarrow> string \<Rightarrow> string + bool"

definition env_in :: "web_world \<Rightarrow> auth_env \<Rightarrow> bool" where
  "env_in W env \<longleftrightarrow> ae_digest env = ww_digest W \<and> ae_verify env = ww_verify W"

definition world_ok :: "web_world \<Rightarrow> bool" where
  "world_ok W \<longleftrightarrow> (\<forall>t. length (ww_digest W t) = 32)"

datatype grant = FirstPassword ip_addr | CheckedPassword ip_addr string string

datatype web_note =
    PasswordIs "string option" | Granted string nat grant | Used "u8 list" nat
  | Closed "u8 list" | ClosedOthers "u8 list" | ClosedAll

datatype web_call =
    Request "string option" | Setup ip_addr string | LoginStart ip_addr string | LoginEnd nat
  | ChangePassword ip_addr "string option" string string | Logout "string option" | CloseSessions
  | SetLocally string password_origin | ResetPassword | ReadStatus
  | StartWithFile "(bool \<times> nat \<times> string option) option"

text \<open>The logins whose password is being checked, each with the hash it is checked against, and what
  has happened so far, the latest first.\<close>

record web_system =
  wy_auth :: web_auth
  wy_checks :: "(ip_addr \<times> string \<times> string) list"
  wy_notes :: "web_note list"

definition cookie_key :: "auth_env \<Rightarrow> string option \<Rightarrow> u8 list option" where
  "cookie_key env cookie =
     map_option (ae_digest env) (case cookie of None \<Rightarrow> None | Some header \<Rightarrow> session_token_from_cookies header)"

definition close_note :: "u8 list option \<Rightarrow> web_note" where
  "close_note keep = (case keep of None \<Rightarrow> ClosedAll | Some k \<Rightarrow> ClosedOthers k)"

fun web_call_effect ::
  "auth_env \<Rightarrow> web_call \<Rightarrow> web_auth \<Rightarrow> (ip_addr \<times> string \<times> string) list \<Rightarrow>
    web_auth \<times> (ip_addr \<times> string \<times> string) list \<times> web_note list" where
  "web_call_effect env (Request cookie) s p =
     (case authorize env cookie s of
        (s', Authorized) \<Rightarrow> (s', p, map (\<lambda>k. Used k (ae_session env)) (case cookie_key env cookie of None \<Rightarrow> [] | Some k \<Rightarrow> [k]))
      | (s', Rejected _) \<Rightarrow> (s', p, []))"
| "web_call_effect env (Setup c pw) s p =
     (case setup_password env c pw s of
        (s', Inr token) \<Rightarrow> (s', p, [Granted token (ae_session env) (FirstPassword c)])
      | (s', Inl _) \<Rightarrow> (s', p, []))"
| "web_call_effect env (LoginStart c pw) s p =
     (case login_begin env c s of
        (s', Inr stored) \<Rightarrow> (s', p @ [(c, pw, stored)], [])
      | (s', Inl _) \<Rightarrow> (s', p, []))"
| "web_call_effect env (LoginEnd i) s p =
     (case get_at p i of
        None \<Rightarrow> (s, p, [])
      | Some (c, pw, stored) \<Rightarrow>
          (case login_end env c pw stored s of
             (s', Inr token) \<Rightarrow>
               (s', take i p @ drop (Suc i) p, [Granted token (ae_session env) (CheckedPassword c pw stored)])
           | (s', Inl _) \<Rightarrow> (s', take i p @ drop (Suc i) p, [])))"
| "web_call_effect env (ChangePassword c cookie current fresh) s p =
     (case change_password env c cookie current fresh s of
        (s', None) \<Rightarrow> (s', p, [close_note (cookie_key env cookie)])
      | (s', Some _) \<Rightarrow> (s', p, []))"
| "web_call_effect env (Logout cookie) s p =
     (logout env cookie s, p, case cookie_key env cookie of None \<Rightarrow> [] | Some k \<Rightarrow> [Closed k])"
| "web_call_effect env CloseSessions s p = (invalidate_sessions s, p, [ClosedAll])"
| "web_call_effect env (SetLocally pw origin) s p =
     (case set_password_locally env pw origin s of
        (s', None) \<Rightarrow> (s', p, [ClosedAll])
      | (s', Some _) \<Rightarrow> (s', p, []))"
| "web_call_effect env ResetPassword s p =
     (case reset_password env s of
        (s', Inr _) \<Rightarrow> (s', p, [ClosedAll])
      | (s', Inl _) \<Rightarrow> (s', p, []))"
| "web_call_effect env ReadStatus s p = (fst (auth_status env s), p, [])"
| "web_call_effect env (StartWithFile file) s p = (fst (apply_password_file env file s), p, [])"

definition password_note :: "web_auth \<Rightarrow> web_auth \<Rightarrow> web_note list" where
  "password_note s s' =
     (if wa_stored s' = wa_stored s then [] else [PasswordIs (map_option fst (wa_stored s'))])"

definition web_step :: "auth_env \<Rightarrow> web_call \<Rightarrow> web_system \<Rightarrow> web_system" where
  "web_step env call y =
     (case web_call_effect env call (wy_auth y) (wy_checks y) of
        (s', p', notes) \<Rightarrow>
          \<lparr>wy_auth = s', wy_checks = p', wy_notes = notes @ password_note (wy_auth y) s' @ wy_notes y\<rparr>)"

inductive web_reachable :: "web_world \<Rightarrow> web_system \<Rightarrow> bool" for W where
  start: "web_reachable W
    \<lparr>wy_auth = web_auth_new stored, wy_checks = [], wy_notes = [PasswordIs (map_option fst stored)]\<rparr>"
| call: "web_reachable W y \<Longrightarrow> env_in W env \<Longrightarrow> web_reachable W (web_step env c y)"

section \<open>The invariant of the sessions\<close>

fun closes :: "web_note \<Rightarrow> u8 list \<Rightarrow> bool" where
  "closes ClosedAll k \<longleftrightarrow> True"
| "closes (Closed k') k \<longleftrightarrow> k' = k"
| "closes (ClosedOthers k') k \<longleftrightarrow> k' \<noteq> k"
| "closes _ k \<longleftrightarrow> False"

fun password_at :: "web_note list \<Rightarrow> string option" where
  "password_at [] = None"
| "password_at (PasswordIs h # ns) = h"
| "password_at (_ # ns) = password_at ns"

text \<open>A session is granted to who set the first password, when there was none, or to who gave a
  password that checks against a hash that was the stored one.\<close>

fun granted_rightly :: "web_world \<Rightarrow> web_note list \<Rightarrow> grant \<Rightarrow> bool" where
  "granted_rightly W older (FirstPassword c) \<longleftrightarrow>
     (\<exists>h rest. older = PasswordIs (Some h) # rest \<and> password_at rest = None)"
| "granted_rightly W older (CheckedPassword c pw stored) \<longleftrightarrow>
     ww_verify W stored pw = Inr True \<and> PasswordIs (Some stored) \<in> set older"

definition session_ok :: "web_world \<Rightarrow> web_note list \<Rightarrow> session_entry \<Rightarrow> bool" where
  "session_ok W notes e \<longleftrightarrow>
     (\<exists>newer token g older. notes = newer @ Granted token (se_created e) g # older \<and>
        se_key e = ww_digest W token \<and> granted_rightly W older g \<and>
        (\<forall>n\<in>set newer. \<not> closes n (se_key e)) \<and>
        (se_seen e = se_created e \<or> Used (se_key e) (se_seen e) \<in> set newer))"

lemma session_ok_ext:
  assumes "session_ok W old e" and "\<forall>n\<in>set new. \<not> closes n (se_key e)"
  shows "session_ok W (new @ old) e"
proof -
  obtain newer token g older where o: "old = newer @ Granted token (se_created e) g # older"
    "se_key e = ww_digest W token" "granted_rightly W older g" "\<forall>n\<in>set newer. \<not> closes n (se_key e)"
    "se_seen e = se_created e \<or> Used (se_key e) (se_seen e) \<in> set newer"
    using assms(1) unfolding session_ok_def by blast
  show ?thesis
    unfolding session_ok_def
    by (rule exI[of _ "new @ newer"], rule exI[of _ token], rule exI[of _ g], rule exI[of _ older])
      (use o assms(2) in auto)
qed

lemma session_ok_used:
  assumes "session_ok W old e"
  shows "session_ok W (Used (se_key e) t # old) (e\<lparr>se_seen := t\<rparr>)"
proof -
  obtain newer token g older where o: "old = newer @ Granted token (se_created e) g # older"
    "se_key e = ww_digest W token" "granted_rightly W older g" "\<forall>n\<in>set newer. \<not> closes n (se_key e)"
    using assms unfolding session_ok_def by blast
  show ?thesis
    unfolding session_ok_def
    by (rule exI[of _ "Used (se_key e) t # newer"], rule exI[of _ token], rule exI[of _ g], rule exI[of _ older])
      (use o in auto)
qed

lemma session_ok_granted:
  "granted_rightly W old g \<Longrightarrow>
     session_ok W (Granted token t g # old) \<lparr>se_key = ww_digest W token, se_created = t, se_seen = t\<rparr>"
  unfolding session_ok_def by (rule exI[of _ "[]"]) auto


section \<open>The credential\<close>

lemmas credential_ops =
  authorize_def credential_hash_def load_credential_cache_def touch_session_def setup_password_def
  create_initial_password_def issue_session_def login_begin_def login_end_def reject_login_def
  change_password_def logout_def invalidate_sessions_def set_password_locally_def store_password_def
  reset_password_def auth_status_def active_session_count_def apply_password_file_def record_event_def
  retain_only_session_def remove_session_def Let_def

text \<open>The cache of the credential is the stored one.\<close>

definition coherent :: "web_auth \<Rightarrow> bool" where
  "coherent s \<longleftrightarrow> (wa_loaded s \<longrightarrow> wa_hash s = map_option fst (wa_stored s) \<and> wa_updated s = map_option snd (wa_stored s))"

lemma coherent_effect:
  assumes "coherent s" and "web_call_effect env call s p = (s', p', n)"
  shows "coherent s'"
proof (cases call)
  case (Request x1)
  then show ?thesis using assms
    by (auto simp: credential_ops coherent_def split: option.splits sum.splits prod.splits if_splits)
next
  case (Setup x21 x22)
  then show ?thesis using assms
    by (auto simp: credential_ops coherent_def split: option.splits sum.splits prod.splits if_splits)
next
  case (LoginStart x31 x32)
  then show ?thesis using assms
    by (auto simp: credential_ops coherent_def split: option.splits sum.splits prod.splits if_splits)
next
  case (LoginEnd x4)
  then show ?thesis using assms
    by (auto simp: credential_ops coherent_def split: option.splits sum.splits prod.splits if_splits bool.splits)
next
  case (ChangePassword x51 x52 x53 x54)
  then show ?thesis using assms
    by (auto simp: credential_ops coherent_def split: option.splits sum.splits prod.splits if_splits bool.splits)
next
  case (StartWithFile x)
  then show ?thesis using assms
    by (auto simp: credential_ops coherent_def split: option.splits sum.splits prod.splits if_splits auth_failure.splits)
qed (use assms in \<open>auto simp: credential_ops coherent_def split: option.splits sum.splits prod.splits if_splits\<close>)


lemma Some_map_iff: "Some y = map_option f x \<longleftrightarrow> (\<exists>z. x = Some z \<and> f z = y)"
  by (cases x) auto

section \<open>What each operation does to sessions and credential\<close>

lemma credential_hash_keeps:
  assumes "credential_hash env s = (s1, r)"
  shows "wa_sessions s1 = wa_sessions s \<and> wa_stored s1 = wa_stored s \<and> wa_limit s1 = wa_limit s \<and>
    (coherent s \<longrightarrow> coherent s1) \<and> (\<forall>h. r = Inr h \<longrightarrow> h = wa_hash s1 \<and> wa_loaded s1)"
  using assms
  by (auto simp: credential_hash_def load_credential_cache_def coherent_def split: sum.splits option.splits if_splits)

lemma authorize_Authorized:
  assumes "authorize env cookie s = (s', Authorized)"
  obtains k i where "cookie_key env cookie = Some k"
    and "i < length (prune_sessions (wa_sessions s) (idle_timeout env) (ae_session env))"
    and "constant_time_eq (se_key (prune_sessions (wa_sessions s) (idle_timeout env) (ae_session env) ! i)) k"
    and "wa_sessions s' = (prune_sessions (wa_sessions s) (idle_timeout env) (ae_session env))
      [i := (prune_sessions (wa_sessions s) (idle_timeout env) (ae_session env) ! i)\<lparr>se_seen := ae_session env\<rparr>]"
    and "wa_stored s' = wa_stored s" and "wa_limit s' = wa_limit s" and "coherent s \<longrightarrow> wa_stored s \<noteq> None"
proof -
  obtain s1 r where c: "credential_hash env s = (s1, r)" by (cases "credential_hash env s")
  note keeps = credential_hash_keeps[OF c]
  obtain stored where "r = Inr (Some stored)"
    using assms c by (auto simp: authorize_def split: sum.splits option.splits)
  moreover obtain header token where "cookie = Some header" "session_token_from_cookies header = Some token"
    using assms c calculation by (auto simp: authorize_def split: option.splits)
  ultimately have touch: "touch_session env (ae_digest env token) s1 = (s', True)"
    and key: "cookie_key env cookie = Some (ae_digest env token)"
    using assms c by (auto simp: authorize_def cookie_key_def split: prod.splits bool.splits)
  then obtain i where i: "matching_session (ae_digest env token)
      (prune_sessions (wa_sessions s) (idle_timeout env) (ae_session env)) = Some i"
    using keeps by (auto simp: touch_session_def Let_def split: option.splits)
  show ?thesis
  proof (rule that[OF key])
    show "i < length (prune_sessions (wa_sessions s) (idle_timeout env) (ae_session env))"
      "constant_time_eq (se_key (prune_sessions (wa_sessions s) (idle_timeout env) (ae_session env) ! i)) (ae_digest env token)"
      using matching_session_Some[OF i] by blast+
    show "wa_sessions s' = (prune_sessions (wa_sessions s) (idle_timeout env) (ae_session env))
      [i := (prune_sessions (wa_sessions s) (idle_timeout env) (ae_session env) ! i)\<lparr>se_seen := ae_session env\<rparr>]"
      "wa_stored s' = wa_stored s" "wa_limit s' = wa_limit s"
      using touch i keeps by (auto simp: touch_session_def Let_def)
    show "coherent s \<longrightarrow> wa_stored s \<noteq> None"
      using keeps \<open>r = Inr (Some stored)\<close> by (auto simp: coherent_def Some_map_iff)
  qed
qed

lemma authorize_Rejected:
  assumes "authorize env cookie s = (s', Rejected e)"
  shows "set (wa_sessions s') \<subseteq> set (wa_sessions s) \<and> length (wa_sessions s') \<le> length (wa_sessions s) \<and>
    wa_stored s' = wa_stored s \<and> wa_limit s' = wa_limit s"
proof -
  obtain s1 r where c: "credential_hash env s = (s1, r)" by (cases "credential_hash env s")
  show ?thesis
    using assms credential_hash_keeps[OF c] c
    by (auto simp: authorize_def touch_session_def Let_def prune_subset prune_length
        split: sum.splits option.splits prod.splits bool.splits)
qed

lemma issue_session_Inr:
  assumes "issue_session env s = (s', Inr token)"
  obtains room where "set room \<subseteq> set (wa_sessions s)" and "length room < MAX_SESSIONS \<or> MAX_SESSIONS < length (wa_sessions s)"
    and "length room \<le> length (wa_sessions s)"
    and "wa_sessions s' = room @ [\<lparr>se_key = ae_digest env token, se_created = ae_session env, se_seen = ae_session env\<rparr>]"
    and "wa_stored s' = wa_stored s" and "wa_limit s' = wa_limit s"
proof -
  define kept where "kept = prune_sessions (wa_sessions s) (idle_timeout env) (ae_session env)"
  define room where "room = (if MAX_SESSIONS \<le> length kept then tl kept else kept)"
  have kept: "set kept \<subseteq> set (wa_sessions s)" "length kept \<le> length (wa_sessions s)"
    using prune_subset prune_length by (auto simp: kept_def)
  show ?thesis
  proof (rule that[of room])
    show "set room \<subseteq> set (wa_sessions s)" using kept by (cases kept) (auto simp: room_def)
    show "length room < MAX_SESSIONS \<or> MAX_SESSIONS < length (wa_sessions s)" "length room \<le> length (wa_sessions s)"
      using kept by (auto simp: room_def MAX_SESSIONS_def)
    show "wa_sessions s' = room @ [\<lparr>se_key = ae_digest env token, se_created = ae_session env, se_seen = ae_session env\<rparr>]"
      "wa_stored s' = wa_stored s" "wa_limit s' = wa_limit s"
      using assms by (auto simp: issue_session_def Let_def room_def kept_def split: sum.splits)
  qed
qed

lemma issue_session_Inl: "issue_session env s = (s', Inl e) \<Longrightarrow> s' = s"
  by (auto simp: issue_session_def Let_def split: sum.splits)

lemma create_initial_password_keeps:
  assumes "create_initial_password env pw origin c s = (s', r)"
  shows "wa_sessions s' = wa_sessions s \<and> wa_limit s' = wa_limit s \<and>
    (r \<noteq> None \<longrightarrow> wa_stored s' = wa_stored s) \<and> (r = None \<longrightarrow> wa_stored s = None \<and> wa_stored s' \<noteq> None)"
  using assms
  by (auto simp: create_initial_password_def load_credential_cache_def record_event_def
      split: option.splits sum.splits if_splits)

lemma apply_password_file_cases:
  "fst (apply_password_file env f s) = fst (credential_hash env s) \<or>
   (\<exists>pw. fst (apply_password_file env f s) =
      fst (create_initial_password env pw PasswordFile None (fst (credential_hash env s))))"
proof -
  obtain s1 r where c: "credential_hash env s = (s1, r)" by (cases "credential_hash env s")
  obtain s2 q where d: "create_initial_password env pw PasswordFile None s1 = (s2 pw, q pw)" for pw
    using surj_pair[of "create_initial_password env _ PasswordFile None s1"] by metis
  show ?thesis
    by (auto simp: apply_password_file_def c d split: sum.splits option.splits auth_failure.splits)
qed

lemma apply_password_file_keeps:
  "wa_sessions (fst (apply_password_file env f s)) = wa_sessions s \<and>
   wa_limit (fst (apply_password_file env f s)) = wa_limit s \<and>
   (coherent s \<longrightarrow> coherent (fst (credential_hash env s)))"
proof -
  obtain s1 r where c: "credential_hash env s = (s1, r)" by (cases "credential_hash env s")
  have "wa_sessions (fst (create_initial_password env pw PasswordFile None s1)) = wa_sessions s1 \<and>
      wa_limit (fst (create_initial_password env pw PasswordFile None s1)) = wa_limit s1" for pw
    using create_initial_password_keeps[of env pw PasswordFile None s1]
    by (cases "create_initial_password env pw PasswordFile None s1") auto
  then show ?thesis
    using apply_password_file_cases[of env f s] credential_hash_keeps[OF c] c by auto
qed

lemma auth_status_keeps:
  "set (wa_sessions (fst (auth_status env s))) \<subseteq> set (wa_sessions s) \<and>
   length (wa_sessions (fst (auth_status env s))) \<le> length (wa_sessions s) \<and>
   wa_limit (fst (auth_status env s)) = wa_limit s"
proof -
  obtain s1 r where c: "credential_hash env s = (s1, r)" by (cases "credential_hash env s")
  show ?thesis
    using credential_hash_keeps[OF c] c
    by (cases r) (auto simp: auth_status_def active_session_count_def Let_def prune_length prune_subset)
qed

lemma login_begin_keeps:
  assumes "login_begin env c s = (s', r)"
  shows "wa_sessions s' = wa_sessions s \<and> wa_stored s' = wa_stored s \<and>
    (\<forall>stored. r = Inr stored \<longrightarrow> coherent s \<longrightarrow> map_option fst (wa_stored s) = Some stored)"
proof -
  obtain s1 h where c: "credential_hash env s = (s1, h)" by (cases "credential_hash env s")
  show ?thesis
    using assms credential_hash_keeps[OF c] c
    by (auto simp: login_begin_def coherent_def Some_map_iff split: sum.splits option.splits prod.splits)
qed

lemma reject_login_keeps:
  "reject_login env c s = (s', r) \<Longrightarrow> wa_sessions s' = wa_sessions s \<and> wa_stored s' = wa_stored s"
  by (auto simp: reject_login_def record_event_def Let_def split: prod.splits option.splits)

lemma login_end_Inl:
  assumes "login_end env c pw stored s = (s', Inl e)"
  shows "wa_sessions s' = wa_sessions s \<and> wa_stored s' = wa_stored s"
  using assms
  by (auto simp: login_end_def Let_def split: if_splits prod.splits sum.splits bool.splits
      dest!: reject_login_keeps issue_session_Inl)

lemma login_end_Inr:
  assumes "login_end env c pw stored s = (s', Inr token)"
  obtains s1 where "ae_verify env stored pw = Inr True"
    and "issue_session env (s\<lparr>wa_limit := clear_failures c (wa_limit s)\<rparr>) = (s1, Inr token)"
    and "s' = record_event (LoginSucceeded c) s1"
  using assms by (auto simp: login_end_def Let_def split: if_splits prod.splits sum.splits bool.splits)

lemma change_password_Some:
  assumes "change_password env c cookie cur fresh s = (s', Some e)"
  shows "wa_sessions s' = wa_sessions s \<and> wa_stored s' = wa_stored s \<and> wa_limit s' = wa_limit s"
  using assms
  by (auto simp: change_password_def load_credential_cache_def record_event_def
      split: option.splits sum.splits bool.splits if_splits)

lemma change_password_None:
  assumes "change_password env c cookie cur fresh s = (s', None)"
  shows "wa_sessions s' = (case cookie_key env cookie of None \<Rightarrow> []
      | Some k \<Rightarrow> filter (\<lambda>e. constant_time_eq (se_key e) k) (wa_sessions s)) \<and> wa_limit s' = wa_limit s \<and>
    (\<exists>stored. coherent s \<longrightarrow> map_option fst (wa_stored s) = Some stored \<and> ae_verify env stored cur = Inr True)"
proof -
  have "s1 \<in> {s, s1} \<Longrightarrow> load_credential_cache env s = Inr s1 \<Longrightarrow> wa_sessions s1 = wa_sessions s \<and> wa_limit s1 = wa_limit s \<and>
      (coherent s \<longrightarrow> wa_hash s1 = map_option fst (wa_stored s))" for s1
    by (auto simp: load_credential_cache_def coherent_def split: option.splits if_splits)
  then show ?thesis
    using assms
    by (auto simp: change_password_def record_event_def retain_only_session_def cookie_key_def Some_map_iff
        split: option.splits sum.splits bool.splits)
qed


section \<open>The table of failures\<close>

definition drop_oldest :: "(ip_addr \<times> client_attempts) list \<Rightarrow> (ip_addr \<times> client_attempts) list" where
  "drop_oldest cs = (case oldest_index cs of None \<Rightarrow> cs | Some i \<Rightarrow> take i cs @ drop (Suc i) cs)"

lemma oldest_index_None: "oldest_index cs = None \<longleftrightarrow> cs = []"
  by (cases cs rule: oldest_index.cases) (auto split: option.splits)

lemma oldest_index_least: "oldest_index cs = Some i \<Longrightarrow> c \<in> set cs \<Longrightarrow> at_last_failure (snd (cs ! i)) \<le> at_last_failure (snd c)"
proof (induction cs arbitrary: i c rule: oldest_index.induct)
  case (2 ip a cs)
  show ?case
  proof (cases "oldest_index cs")
    case None
    then show ?thesis using 2 by (auto simp: oldest_index_None)
  next
    case (Some j)
    then show ?thesis using 2 by (fastforce split: if_splits)
  qed
qed simp

lemma evict_oldest_step:
  "evict_oldest cs = (if MAX_TRACKED_CLIENTS \<le> length cs then evict_oldest (drop_oldest cs) else cs)"
  by (cases "oldest_index cs") (simp_all add: drop_oldest_def evict_oldest.simps[of cs])

lemma drop_oldest_length: "cs \<noteq> [] \<Longrightarrow> length (drop_oldest cs) = length cs - 1"
  using oldest_index_less[of cs] by (auto simp: drop_oldest_def oldest_index_None split: option.splits)

lemma drop_oldest_set: "set (drop_oldest cs) \<subseteq> set cs"
  by (auto simp: drop_oldest_def split: option.splits dest: in_set_takeD in_set_dropD)

lemma drop_oldest_split:
  assumes "cs \<noteq> []"
  obtains a c b where "cs = a @ c # b" and "drop_oldest cs = a @ b"
    and "\<forall>d\<in>set cs. at_last_failure (snd c) \<le> at_last_failure (snd d)"
proof -
  obtain i where i: "oldest_index cs = Some i" using assms by (cases "oldest_index cs") (auto simp: oldest_index_None)
  show ?thesis
    by (rule that[of "take i cs" "cs ! i" "drop (Suc i) cs"])
      (use i oldest_index_less[OF i] oldest_index_least[OF i] in \<open>auto simp: drop_oldest_def id_take_nth_drop[symmetric]\<close>)
qed

lemma MAX_TRACKED_pos: "MAX_TRACKED_CLIENTS \<le> length cs \<Longrightarrow> cs \<noteq> []"
  by (auto simp: MAX_TRACKED_CLIENTS_def)

lemma evict_induct [case_names small big]:
  assumes "\<And>cs. length cs < MAX_TRACKED_CLIENTS \<Longrightarrow> P cs"
    and "\<And>cs. MAX_TRACKED_CLIENTS \<le> length cs \<Longrightarrow> P (drop_oldest cs) \<Longrightarrow> P cs"
  shows "P cs"
proof (induction "length cs" arbitrary: cs rule: less_induct)
  case less
  show ?case
  proof (cases "MAX_TRACKED_CLIENTS \<le> length cs")
    case True
    then have "length (drop_oldest cs) < length cs"
      using drop_oldest_length[OF MAX_TRACKED_pos[OF True]] MAX_TRACKED_pos[OF True] by (cases cs) auto
    then show ?thesis using less assms(2)[OF True] by blast
  qed (use assms(1) in simp)
qed

lemma evict_oldest_small: "length cs < MAX_TRACKED_CLIENTS \<Longrightarrow> evict_oldest cs = cs"
  by (subst evict_oldest_step) simp

lemma evict_oldest_big: "MAX_TRACKED_CLIENTS \<le> length cs \<Longrightarrow> evict_oldest cs = evict_oldest (drop_oldest cs)"
  by (subst evict_oldest_step) simp

lemma evict_oldest_length: "length (evict_oldest cs) = min (length cs) (MAX_TRACKED_CLIENTS - 1)"
proof (induction cs rule: evict_induct)
  case (big cs)
  then show ?case
    using drop_oldest_length[OF MAX_TRACKED_pos[OF big(1)]] by (auto simp: evict_oldest_big MAX_TRACKED_CLIENTS_def)
qed (auto simp: evict_oldest_small)

lemma evict_oldest_set: "set (evict_oldest cs) \<subseteq> set cs"
proof (induction cs rule: evict_induct)
  case (big cs)
  then show ?case using drop_oldest_set[of cs] by (auto simp: evict_oldest_big)
qed (auto simp: evict_oldest_small)

lemma drop_oldest_distinct: "distinct (map fst cs) \<Longrightarrow> distinct (map fst (drop_oldest cs))"
proof (cases "cs = []")
  case False
  assume d: "distinct (map fst cs)"
  obtain a c b where s: "cs = a @ c # b" "drop_oldest cs = a @ b"
    "\<forall>d\<in>set cs. at_last_failure (snd c) \<le> at_last_failure (snd d)"
    by (rule drop_oldest_split[OF False])
  from d[unfolded s(1)] show ?thesis unfolding s(2) by simp
qed (simp add: drop_oldest_def)

lemma evict_oldest_distinct: "distinct (map fst cs) \<Longrightarrow> distinct (map fst (evict_oldest cs))"
proof (induction cs rule: evict_induct)
  case (big cs)
  then show ?case by (simp add: evict_oldest_big drop_oldest_distinct)
qed (simp add: evict_oldest_small)

lemma evict_oldest_recent:
  "d \<in> set cs \<Longrightarrow> d \<notin> set (evict_oldest cs) \<Longrightarrow> k \<in> set (evict_oldest cs) \<Longrightarrow>
     at_last_failure (snd d) \<le> at_last_failure (snd k)"
proof (induction cs rule: evict_induct)
  case (big cs)
  obtain a c b where s: "cs = a @ c # b" "drop_oldest cs = a @ b"
    "\<forall>d\<in>set cs. at_last_failure (snd c) \<le> at_last_failure (snd d)"
    by (rule drop_oldest_split[OF MAX_TRACKED_pos[OF big(1)]])
  have "k \<in> set cs" using big(1,5) evict_oldest_set[of cs] by auto
  show ?case
  proof (cases "d \<in> set (drop_oldest cs)")
    case True
    then show ?thesis using big by (simp add: evict_oldest_big)
  next
    case False
    then have "d = c" using big(3) s(1,2) by auto
    then show ?thesis using s(3) \<open>k \<in> set cs\<close> by blast
  qed
qed (simp add: evict_oldest_small)

lemma evict_oldest_while:
  "while_option (\<lambda>cs. MAX_TRACKED_CLIENTS \<le> length cs) drop_oldest cs = Some (evict_oldest cs)"
proof (induction cs rule: evict_induct)
  case (small cs)
  then show ?case by (subst while_option_unfold) (simp add: evict_oldest_small)
next
  case (big cs)
  then show ?case by (subst while_option_unfold) (simp add: evict_oldest_big)
qed

text \<open>The records that are worth keeping: locked, or of a failure of the last hour.\<close>

definition live_attempts :: "nat \<Rightarrow> (ip_addr \<times> client_attempts) list \<Rightarrow> (ip_addr \<times> client_attempts) list" where
  "live_attempts now cs =
     filter (\<lambda>(_, a). (case at_locked_until a of None \<Rightarrow> False | Some u \<Rightarrow> now < u) \<or>
                      now - at_last_failure a \<le> ATTEMPT_RETENTION) cs"

lemma evict_stale_live: "evict_stale_attempts now cs = evict_oldest (live_attempts now cs)"
  by (simp add: evict_stale_attempts_def live_attempts_def)

text \<open>C33. The loop that makes room in the table of failed logins ends, for every table: it removes one
  record per round until fewer than 1024 are left, no record that remains is older than one it removed,
  and a table that has room already is left as it is.\<close>

theorem attempt_eviction_ends:
  "while_option (\<lambda>cs. MAX_TRACKED_CLIENTS \<le> length cs) drop_oldest (live_attempts now cs) =
     Some (evict_stale_attempts now cs) \<and>
   length (evict_stale_attempts now cs) = min (length (live_attempts now cs)) 1023 \<and>
   set (evict_stale_attempts now cs) \<subseteq> set (live_attempts now cs) \<and>
   (\<forall>d\<in>set (live_attempts now cs) - set (evict_stale_attempts now cs). \<forall>k\<in>set (evict_stale_attempts now cs).
      at_last_failure (snd d) \<le> at_last_failure (snd k)) \<and>
   (length (live_attempts now cs) < 1024 \<longrightarrow> evict_stale_attempts now cs = live_attempts now cs)"
  using evict_oldest_while[of "live_attempts now cs"] evict_oldest_length[of "live_attempts now cs"]
    evict_oldest_set[of "live_attempts now cs"] evict_oldest_recent[of _ "live_attempts now cs"]
    evict_oldest_small[of "live_attempts now cs"]
  unfolding evict_stale_live MAX_TRACKED_CLIENTS_def by simp

text \<open>Clients that have failed at increasing times: the first of them makes room.\<close>

definition many_attempts :: "nat \<Rightarrow> (ip_addr \<times> client_attempts) list" where
  "many_attempts n = map (\<lambda>i. (IpV4 (of_nat i), \<lparr>at_failures = 1, at_locked_until = None, at_last_failure = i\<rparr>)) [0..<n]"

theorem attempt_eviction_ends_witness:
  "length (evict_stale_attempts 1100 (many_attempts 1100)) = 1023 \<and>
   length (evict_stale_attempts 10 (many_attempts 10)) = 10"
proof -
  have "live_attempts n (many_attempts n) = many_attempts n" if "n \<le> 3600" for n
    using that by (auto simp: live_attempts_def many_attempts_def ATTEMPT_RETENTION_def SECOND_def intro!: filter_True)
  then show ?thesis
    using attempt_eviction_ends[of 1100 "many_attempts 1100"] attempt_eviction_ends[of 10 "many_attempts 10"]
    by (simp add: many_attempts_def)
qed


definition limit_ok :: "rate_state \<Rightarrow> bool" where
  "limit_ok l \<longleftrightarrow> distinct (map fst (rs_clients l)) \<and> length (rs_clients l) \<le> MAX_TRACKED_CLIENTS"

lemma update_client_fst:
  "update_client c now cs = (cs', lock) \<Longrightarrow>
     map fst cs' = (if c \<in> fst ` set cs then map fst cs else map fst cs @ [c])"
  by (induction cs arbitrary: cs' rule: update_client.induct[where ?a0.0 = c and ?a1.0 = now])
    (auto split: prod.splits if_splits)

lemma evict_stale_distinct: "distinct (map fst cs) \<Longrightarrow> distinct (map fst (evict_stale_attempts now cs))"
  unfolding evict_stale_live by (rule evict_oldest_distinct) (simp add: live_attempts_def distinct_map_filter)

lemma evict_stale_length: "length (evict_stale_attempts now cs) < MAX_TRACKED_CLIENTS"
  unfolding evict_stale_live evict_oldest_length by (simp add: MAX_TRACKED_CLIENTS_def)

lemma record_failure_ok:
  assumes "limit_ok l" and "record_failure now c l = (l', lock)"
  shows "limit_ok l'"
proof -
  obtain l1 lock1 where c: "count_failure now l = (l1, lock1)" by (cases "count_failure now l")
  then have same: "rs_clients l1 = rs_clients l" by (auto simp: count_failure_def Let_def split: if_splits)
  obtain cs lock2 where u: "update_client c now (evict_stale_attempts now (rs_clients l)) = (cs, lock2)"
    by (cases "update_client c now (evict_stale_attempts now (rs_clients l))")
  have "distinct (map fst cs)"
    using update_client_fst[OF u] evict_stale_distinct[of "rs_clients l" now] assms(1)
    by (auto simp: limit_ok_def split: if_splits)
  moreover have "length cs \<le> MAX_TRACKED_CLIENTS"
    using arg_cong[OF update_client_fst[OF u], of length] evict_stale_length[of now "rs_clients l"]
    by (auto split: if_splits)
  ultimately show ?thesis
    using assms(2) c same u by (auto simp: record_failure_def limit_ok_def)
qed

lemma login_begin_limit:
  assumes "login_begin env c s = (s', r)"
  shows "rs_clients (wa_limit s') = rs_clients (wa_limit s)"
proof -
  obtain s1 h where c: "credential_hash env s = (s1, h)" by (cases "credential_hash env s")
  have "rs_clients l' = rs_clients l" if "check_lockout now c l = (l', k)" for l l' now k
    using that by (auto simp: check_lockout_def split: option.splits if_splits)
  then show ?thesis
    using assms credential_hash_keeps[OF c] c
    by (auto simp: login_begin_def split: sum.splits option.splits prod.splits)
qed

lemma login_end_limit:
  assumes "login_end env c pw stored s = (s', r)"
  shows "wa_limit s' = fst (record_failure (ae_reject env) c (wa_limit s)) \<or>
    wa_limit s' = clear_failures c (wa_limit s) \<or> wa_limit s' = wa_limit s"
  using assms
  by (auto simp: login_end_def reject_login_def record_event_def issue_session_def Let_def
      split: if_splits prod.splits sum.splits bool.splits option.splits)

lemma login_end_limit_ok:
  assumes "limit_ok (wa_limit s)" and "login_end env c pw stored s = (s', r)"
  shows "limit_ok (wa_limit s')"
  using login_end_limit[OF assms(2)] assms(1) record_failure_ok[OF assms(1)]
  by (cases "record_failure (ae_reject env) c (wa_limit s)")
    (auto simp: clear_failures_def limit_ok_def distinct_map_filter intro: le_trans[OF length_filter_le])

section \<open>The invariant\<close>

definition web_inv :: "web_world \<Rightarrow> web_system \<Rightarrow> bool" where
  "web_inv W y \<longleftrightarrow>
     coherent (wy_auth y) \<and> limit_ok (wa_limit (wy_auth y)) \<and>
     length (wa_sessions (wy_auth y)) \<le> MAX_SESSIONS \<and>
     (\<forall>e\<in>set (wa_sessions (wy_auth y)). session_ok W (wy_notes y) e) \<and>
     (\<forall>(c, pw, stored)\<in>set (wy_checks y). PasswordIs (Some stored) \<in> set (wy_notes y)) \<and>
     password_at (wy_notes y) = map_option fst (wa_stored (wy_auth y))"

fun quiet :: "web_note \<Rightarrow> bool" where
  "quiet (PasswordIs h) \<longleftrightarrow> False"
| "quiet _ \<longleftrightarrow> True"

lemma password_at_quiet: "\<forall>n\<in>set new. quiet n \<Longrightarrow> password_at (new @ old) = password_at old"
proof (induction new)
  case (Cons n new)
  then show ?case by (cases n) auto
qed simp

lemma password_at_Some: "password_at ns = Some h \<Longrightarrow> PasswordIs (Some h) \<in> set ns"
  by (induction ns rule: password_at.induct) auto

lemma effect_quiet: "web_call_effect env call s p = (s', p', n) \<Longrightarrow> \<forall>x\<in>set n. quiet x"
  by (cases call) (auto simp: close_note_def split: prod.splits sum.splits option.splits auth_outcome.splits)

lemma effect_limit:
  assumes "limit_ok (wa_limit s)" and "web_call_effect env call s p = (s', p', n)"
  shows "limit_ok (wa_limit s')"
proof (cases call)
  case (Request cookie)
  obtain o' s1 where a: "authorize env cookie s = (s1, o')" by (cases "authorize env cookie s")
  then have "wa_limit s1 = wa_limit s"
    by (cases o') (auto elim: authorize_Authorized dest: authorize_Rejected)
  then show ?thesis using assms Request a by (auto split: auth_outcome.splits)
next
  case (Setup c pw)
  then show ?thesis using assms
    by (auto simp: setup_password_def split: prod.splits option.splits sum.splits
        dest!: create_initial_password_keeps issue_session_Inl elim!: issue_session_Inr)
next
  case (LoginStart c pw)
  then show ?thesis using assms
    by (auto simp: limit_ok_def split: prod.splits sum.splits dest: login_begin_limit)
next
  case (LoginEnd i)
  then show ?thesis using assms login_end_limit_ok[OF assms(1)]
    by (auto split: prod.splits sum.splits option.splits)
next
  case (ChangePassword c cookie cur fresh)
  then show ?thesis using assms
    by (auto split: prod.splits option.splits dest!: change_password_Some change_password_None)
next
  case (StartWithFile f)
  then show ?thesis using assms
    by (auto simp: apply_password_file_keeps)
next
  case (SetLocally x81 x82)
  then show ?thesis using assms
    by (auto simp: set_password_locally_def store_password_def record_event_def retain_only_session_def
        split: prod.splits option.splits sum.splits)
next
  case ReadStatus
  then show ?thesis using assms
    by (auto simp: auth_status_keeps)
qed (use assms in \<open>auto simp: logout_def invalidate_sessions_def reset_password_def record_event_def
  retain_only_session_def remove_session_def Let_def split: option.splits sum.splits\<close>)


lemma effect_issue:
  assumes "world_ok W" and "env_in W env" and "length (wa_sessions s) \<le> MAX_SESSIONS"
    and "\<forall>e\<in>set (wa_sessions s). session_ok W old e" and "granted_rightly W old g"
    and "issue_session env s = (s', Inr token)"
  shows "length (wa_sessions s') \<le> MAX_SESSIONS \<and>
    (\<forall>e\<in>set (wa_sessions s'). session_ok W (Granted token (ae_session env) g # old) e)"
proof -
  obtain room where r: "set room \<subseteq> set (wa_sessions s)" "length room < MAX_SESSIONS \<or> MAX_SESSIONS < length (wa_sessions s)"
    "wa_sessions s' = room @ [\<lparr>se_key = ae_digest env token, se_created = ae_session env, se_seen = ae_session env\<rparr>]"
    by (rule issue_session_Inr[OF assms(6)])
  have "session_ok W ([Granted token (ae_session env) g] @ old) e" if "e \<in> set room" for e
    using that r(1) assms(4) by (intro session_ok_ext) auto
  then show ?thesis
    using r assms(2,3) session_ok_granted[OF assms(5), of token "ae_session env"] by (auto simp: env_in_def)
qed

lemma effect_request:
  assumes W: "world_ok W" and env: "env_in W env"
    and ok: "\<forall>e\<in>set (wa_sessions s). session_ok W old e" and auth: "authorize env cookie s = (s', Authorized)"
    and key: "cookie_key env cookie = Some k"
  shows "length (wa_sessions s') \<le> length (wa_sessions s) \<and>
    (\<forall>e\<in>set (wa_sessions s'). session_ok W (Used k (ae_session env) # old) e)"
proof -
  define kept where "kept = prune_sessions (wa_sessions s) (idle_timeout env) (ae_session env)"
  obtain i where i: "i < length kept" "constant_time_eq (se_key (kept ! i)) k"
    "wa_sessions s' = kept[i := (kept ! i)\<lparr>se_seen := ae_session env\<rparr>]"
    by (rule authorize_Authorized[OF auth, folded kept_def]) (use key in auto)
  have kept: "e \<in> set kept \<Longrightarrow> session_ok W old e" for e using ok prune_subset by (auto simp: kept_def)
  have len: "session_ok W old e \<Longrightarrow> length (se_key e) = 32" for e
    using W by (auto simp: session_ok_def world_ok_def)
  have "length k = 32" using key W env by (auto simp: cookie_key_def env_in_def world_ok_def)
  then have "se_key (kept ! i) = k"
    using i len[OF kept[OF nth_mem[OF i(1)]]] by (simp add: constant_time_eq_iff)
  then have "session_ok W (Used k (ae_session env) # old) ((kept ! i)\<lparr>se_seen := ae_session env\<rparr>)"
    using session_ok_used[OF kept[OF nth_mem[OF i(1)]]] by simp
  moreover have "session_ok W ([Used k (ae_session env)] @ old) e" if "e \<in> set kept" for e
    using that kept by (intro session_ok_ext) auto
  ultimately show ?thesis
    using i(3) prune_length[of "wa_sessions s"] set_update_subset_insert[of kept i "(kept ! i)\<lparr>se_seen := ae_session env\<rparr>"]
    by (auto simp: kept_def)
qed

lemma effect_close:
  assumes W: "world_ok W" and env: "env_in W env" and ok: "\<forall>e\<in>set ss. session_ok W old e"
    and key: "cookie_key env cookie = Some k"
    and e: "e \<in> set ss" and n: "n = ClosedOthers k \<and> constant_time_eq (se_key e) k \<or> n = Closed k \<and> \<not> constant_time_eq (se_key e) k"
  shows "session_ok W (n # old) e"
proof -
  have "length (se_key e) = 32" using ok e W by (auto simp: session_ok_def world_ok_def)
  moreover have "length k = 32" using key W env by (auto simp: cookie_key_def env_in_def world_ok_def)
  ultimately have "session_ok W ([n] @ old) e"
    using n ok e by (intro session_ok_ext) (auto simp: constant_time_eq_iff)
  then show ?thesis by simp
qed

lemma password_note_keeps:
  "\<forall>e\<in>set ss. session_ok W old e \<Longrightarrow> \<forall>e\<in>set ss. session_ok W (password_note s s' @ old) e"
  by (auto simp: password_note_def intro: session_ok_ext[of W old _ "[PasswordIs h]" for h, simplified])

lemma cookie_key_logout: "logout env cookie s =
    (case cookie_key env cookie of None \<Rightarrow> s | Some k \<Rightarrow> remove_session k s)"
  by (auto simp: logout_def cookie_key_def split: option.splits)

lemma effect_sessions:
  assumes W: "world_ok W" and env: "env_in W env" and inv: "web_inv W y"
    and eff: "web_call_effect env call (wy_auth y) (wy_checks y) = (s', p', n)"
  shows "length (wa_sessions s') \<le> MAX_SESSIONS \<and>
    (\<forall>e\<in>set (wa_sessions s'). session_ok W (n @ password_note (wy_auth y) s' @ wy_notes y) e)"
proof -
  let ?s = "wy_auth y" and ?base = "password_note (wy_auth y) s' @ wy_notes y"
  have base: "\<forall>e\<in>set (wa_sessions ?s). session_ok W ?base e"
    by (rule password_note_keeps) (use inv in \<open>simp add: web_inv_def\<close>)
  have len: "length (wa_sessions ?s) \<le> MAX_SESSIONS" and coh: "coherent ?s" using inv by (auto simp: web_inv_def)
  have same: ?thesis if "n = []" "set (wa_sessions s') \<subseteq> set (wa_sessions ?s)" "length (wa_sessions s') \<le> length (wa_sessions ?s)"
    using that base len by auto
  have none: ?thesis if "wa_sessions s' = []" using that by simp
  show ?thesis
  proof (cases call)
    case (Request cookie)
    obtain out s1 where a: "authorize env cookie ?s = (s1, out)" by (cases "authorize env cookie ?s")
    show ?thesis
    proof (cases out)
      case Authorized
      obtain k where k: "cookie_key env cookie = Some k"
        using a Authorized by (auto elim: authorize_Authorized)
      then have "s' = s1" "n = [Used k (ae_session env)]" using eff Request a Authorized by auto
      then show ?thesis using effect_request[OF W env base a[unfolded Authorized] k] len by auto
    next
      case (Rejected e)
      then show ?thesis using same authorize_Rejected[of env cookie ?s s1 e] eff Request a by auto
    qed
  next
    case (Setup c pw)
    obtain s1 r where cr: "create_initial_password env pw WebSetup (Some c) ?s = (s1, r)"
      by (cases "create_initial_password env pw WebSetup (Some c) ?s")
    note keeps = create_initial_password_keeps[OF cr]
    show ?thesis
    proof (cases "\<exists>token. issue_session env s1 = (s', Inr token) \<and> r = None \<and> n = [Granted token (ae_session env) (FirstPassword c)]")
      case True
      then obtain token where t: "issue_session env s1 = (s', Inr token)" "r = None"
        "n = [Granted token (ae_session env) (FirstPassword c)]" by blast
      have "wa_stored s' = wa_stored s1" using t(1) by (auto elim: issue_session_Inr)
      then have "granted_rightly W ?base (FirstPassword c)"
        using keeps t(2) inv by (auto simp: password_note_def web_inv_def)
      then show ?thesis using effect_issue[OF W env _ _ _ t(1), of ?base "FirstPassword c"] keeps len base t(3) by auto
    next
      case False
      then show ?thesis using eff Setup cr keeps same
        by (auto simp: setup_password_def split: option.splits prod.splits sum.splits dest!: issue_session_Inl)
    qed
  next
    case (LoginStart c pw)
    then show ?thesis using eff same by (auto split: prod.splits sum.splits dest!: login_begin_keeps)
  next
    case (LoginEnd i)
    show ?thesis
    proof (cases "get_at (wy_checks y) i")
      case None
      then show ?thesis using eff LoginEnd same by auto
    next
      case (Some c3)
      obtain c pw stored where c3: "c3 = (c, pw, stored)" by (cases c3)
      obtain s1 r where le: "login_end env c pw stored ?s = (s1, r)" by (cases "login_end env c pw stored ?s")
      show ?thesis
      proof (cases r)
        case (Inl e)
        then show ?thesis using same login_end_Inl[OF le[unfolded Inl]] eff LoginEnd Some c3 le by auto
      next
        case (Inr token)
        obtain s2 where s2: "ae_verify env stored pw = Inr True"
          "issue_session env (?s\<lparr>wa_limit := clear_failures c (wa_limit ?s)\<rparr>) = (s2, Inr token)"
          "s1 = record_event (LoginSucceeded c) s2"
          by (rule login_end_Inr[OF le[unfolded Inr]])
        have eqs: "s' = s1" "n = [Granted token (ae_session env) (CheckedPassword c pw stored)]"
          using eff LoginEnd Some c3 le Inr by auto
        have "c3 \<in> set (wy_checks y)" using Some by (auto simp: get_at_def split: if_splits)
        then have "granted_rightly W ?base (CheckedPassword c pw stored)"
          using s2(1) env inv c3 by (fastforce simp: env_in_def web_inv_def)
        then show ?thesis
          using effect_issue[OF W env _ _ _ s2(2), of ?base "CheckedPassword c pw stored"] len base eqs s2(3)
          by (simp add: record_event_def del: granted_rightly.simps)
      qed
    qed
  next
    case (ChangePassword c cookie cur fresh)
    obtain s1 r where ch: "change_password env c cookie cur fresh ?s = (s1, r)"
      by (cases "change_password env c cookie cur fresh ?s")
    show ?thesis
    proof (cases r)
      case None
      have eqs: "s' = s1" "n = [close_note (cookie_key env cookie)]" using eff ChangePassword ch None by auto
      show ?thesis
      proof (cases "cookie_key env cookie")
        case None
        then show ?thesis using none change_password_None[OF ch[unfolded \<open>r = None\<close>]] eqs by simp
      next
        case (Some k)
        then have "wa_sessions s' = filter (\<lambda>e. constant_time_eq (se_key e) k) (wa_sessions ?s)"
          using change_password_None[OF ch[unfolded None]] eqs by simp
        then show ?thesis
          using effect_close[OF W env base Some] eqs Some len
          by (auto simp: close_note_def intro: le_trans[OF length_filter_le])
      qed
    next
      case (Some e)
      then show ?thesis using same change_password_Some[OF ch[unfolded Some]] eff ChangePassword ch by auto
    qed
  next
    case (Logout cookie)
    then show ?thesis
    proof (cases "cookie_key env cookie")
      case None
      then show ?thesis using eff Logout same by (auto simp: cookie_key_logout)
    next
      case (Some k)
      then have "s' = remove_session k ?s" "n = [Closed k]" using eff Logout by (auto simp: cookie_key_logout)
      then show ?thesis
        using effect_close[OF W env base Some] len
        by (auto simp: remove_session_def intro: le_trans[OF length_filter_le])
    qed
  next
    case CloseSessions
    then show ?thesis using eff none by (auto simp: invalidate_sessions_def retain_only_session_def)
  next
    case (SetLocally pw origin)
    then show ?thesis using eff none same
      by (auto simp: set_password_locally_def store_password_def record_event_def retain_only_session_def
          split: prod.splits option.splits sum.splits if_splits)
  next
    case ResetPassword
    then show ?thesis using eff none same
      by (auto simp: reset_password_def record_event_def retain_only_session_def Let_def
          split: prod.splits option.splits sum.splits if_splits)
  next
    case ReadStatus
    then show ?thesis using eff same auth_status_keeps[of env ?s] by auto
  next
    case (StartWithFile f)
    then show ?thesis using eff same
      by (auto simp: apply_password_file_keeps)
  qed
qed


lemma effect_checks:
  assumes inv: "web_inv W y" and eff: "web_call_effect env call (wy_auth y) (wy_checks y) = (s', p', n)"
  shows "\<forall>(c, pw, stored)\<in>set p'. PasswordIs (Some stored) \<in> set (wy_notes y)"
proof (cases call)
  case (LoginStart c pw)
  then show ?thesis using eff inv
    by (auto simp: web_inv_def split: prod.splits sum.splits dest!: login_begin_keeps intro: password_at_Some)
next
  case (LoginEnd i)
  then show ?thesis using eff inv
    by (fastforce simp: web_inv_def split: prod.splits sum.splits option.splits dest: in_set_takeD in_set_dropD)
qed (use inv eff in \<open>auto simp: web_inv_def split: prod.splits sum.splits option.splits auth_outcome.splits\<close>)

lemma web_step_inv:
  assumes "world_ok W" and "env_in W env" and "web_inv W y"
  shows "web_inv W (web_step env call y)"
proof -
  obtain s' p' n where eff: "web_call_effect env call (wy_auth y) (wy_checks y) = (s', p', n)"
    by (cases "web_call_effect env call (wy_auth y) (wy_checks y)")
  have parts: "coherent (wy_auth y)" "limit_ok (wa_limit (wy_auth y))"
    "password_at (wy_notes y) = map_option fst (wa_stored (wy_auth y))"
    using assms(3) by (auto simp: web_inv_def)
  have "password_at (n @ password_note (wy_auth y) s' @ wy_notes y) = map_option fst (wa_stored s')"
    using password_at_quiet[OF effect_quiet[OF eff]] parts(3) by (simp add: password_note_def)
  then show ?thesis
    using coherent_effect[OF parts(1) eff] effect_limit[OF parts(2) eff] effect_sessions[OF assms eff]
      effect_checks[OF assms(3) eff]
    by (auto simp: web_inv_def web_step_def eff)
qed

lemma web_start_inv:
  "web_inv W \<lparr>wy_auth = web_auth_new stored, wy_checks = [], wy_notes = [PasswordIs (map_option fst stored)]\<rparr>"
  by (simp add: web_inv_def web_auth_new_def coherent_def limit_ok_def)

lemma web_reachable_inv: "web_reachable W y \<Longrightarrow> world_ok W \<Longrightarrow> web_inv W y"
  by (induction rule: web_reachable.induct) (auto intro: web_start_inv web_step_inv)

section \<open>Who is let through\<close>


text \<open>C32. In every run: at most sixteen sessions and at most 1024 clients with failed logins, each once,
  are remembered, and the credential in memory is the stored one; every login under way checks its
  password against a hash that was the stored one.\<close>

theorem web_auth_bounded:
  assumes "world_ok W" and "web_reachable W y"
  shows "length (wa_sessions (wy_auth y)) \<le> 16 \<and>
    length (rs_clients (wa_limit (wy_auth y))) \<le> 1024 \<and> distinct (map fst (rs_clients (wa_limit (wy_auth y)))) \<and>
    (wa_loaded (wy_auth y) \<longrightarrow> wa_hash (wy_auth y) = map_option fst (wa_stored (wy_auth y)) \<and>
       wa_updated (wy_auth y) = map_option snd (wa_stored (wy_auth y))) \<and>
    (\<forall>(c, pw, stored)\<in>set (wy_checks y). PasswordIs (Some stored) \<in> set (wy_notes y)) \<and>
    password_at (wy_notes y) = map_option fst (wa_stored (wy_auth y))"
  using web_reachable_inv[OF assms(2,1)]
  unfolding web_inv_def coherent_def limit_ok_def MAX_SESSIONS_def MAX_TRACKED_CLIENTS_def by auto


section \<open>Locks\<close>










definition web_run :: "(auth_env \<times> web_call) list \<Rightarrow> web_system \<Rightarrow> web_system" where
  "web_run steps y = fold (\<lambda>(env, call). web_step env call) steps y"

lemma web_run_simps:
  "web_run [] y = y" "web_run ((env, call) # steps) y = web_run steps (web_step env call y)"
  by (simp_all add: web_run_def)

lemma web_run_reachable:
  "web_reachable W y \<Longrightarrow> \<forall>(env, call)\<in>set steps. env_in W env \<Longrightarrow> web_reachable W (web_run steps y)"
proof (induction steps arbitrary: y)
  case (Cons step steps)
  then show ?case by (cases step) (auto simp: web_run_simps intro!: Cons.IH web_reachable.call)
qed (simp add: web_run_simps)





section \<open>Sample runs\<close>

definition sample_world :: web_world where
  "sample_world =
     \<lparr>ww_digest = \<lambda>t. replicate 32 (of_nat (length t)), ww_verify = \<lambda>stored pw. Inr (stored = pw)\<rparr>"

definition sample_auth_env :: "nat \<Rightarrow> string \<Rightarrow> auth_env" where
  "sample_auth_env now phc =
     \<lparr>ae_check = now, ae_reject = now, ae_session = now, ae_unix = 1, ae_database = None, ae_idle_minutes = 60,
      ae_phc = Inr phc, ae_random = Inr [7, 8], ae_digest = ww_digest sample_world,
      ae_verify = ww_verify sample_world\<rparr>"

lemma sample_world_ok: "world_ok sample_world" "env_in sample_world (sample_auth_env now phc)"
  by (simp_all add: world_ok_def env_in_def sample_world_def sample_auth_env_def)

definition sample_start :: "(string \<times> u64) option \<Rightarrow> web_system" where
  "sample_start stored =
     \<lparr>wy_auth = web_auth_new stored, wy_checks = [], wy_notes = [PasswordIs (map_option fst stored)]\<rparr>"

lemma sample_web_reachable: "web_reachable sample_world (sample_start stored)"
  unfolding sample_start_def by (rule web_reachable.start)

abbreviation "sample_client \<equiv> IpV4 0x0A000001"

definition sample_setup :: web_system where
  "sample_setup = web_step (sample_auth_env 5 ''long enough'') (Setup sample_client ''long enough'') (sample_start None)"


theorem web_auth_bounded_witness: "length (wa_sessions (wy_auth sample_setup)) \<le> 16"
proof -
  have "web_reachable sample_world sample_setup"
    unfolding sample_setup_def by (rule web_reachable.call[OF sample_web_reachable sample_world_ok(2)])
  from web_auth_bounded[OF sample_world_ok(1) this] show ?thesis by blast
qed




text \<open>A login that was let through before the password was changed still opens a session afterwards,
  with the old password.\<close>

lemma stale_login_opens_session:
  "length (wa_sessions (wy_auth (web_run
     [(sample_auth_env 1 [], LoginStart sample_client ''secret''), (sample_auth_env 2 ''other one'', SetLocally ''other one'' LocalCli),
      (sample_auth_env 3 [], LoginEnd 0)] (sample_start (Some (''secret'', 0)))))) = 1"
  by code_simp

end
