(* ===== verification/Stats.thy ===== *)
theory Stats
  imports Worker
begin

text \<open>
  \<open>dns/stats.rs\<close>: the runtime statistics and the recent security events.  A function takes the second
  of the clock; counters are \<open>u64\<close> and wrap as in a release build.  The channel to the writer of the
  events is not part of the record here but of the system in \<open>SecurityEvents\<close>.  What the
  statistics database puts into the record (totals of traffic, upstream figures) is kept as it came.
\<close>

section \<open>Data\<close>

definition TRAFFIC_BUCKET_WINDOW_MINUTES :: u64 where "TRAFFIC_BUCKET_WINDOW_MINUTES = 90 * 24 * 60"
definition SECURITY_EVENT_CAPACITY :: nat where "SECURITY_EVENT_CAPACITY = 200"
definition SECURITY_EVENT_AGGREGATE_SECONDS :: u64 where "SECURITY_EVENT_AGGREGATE_SECONDS = 10"
definition SECURITY_EVENT_AGGREGATE_LOOKBACK :: nat where "SECURITY_EVENT_AGGREGATE_LOOKBACK = 32"

datatype security_event_type =
    AccessDeniedEvent | RateLimitedEvent | InvalidQueryEvent
  | WebAuthLoginEvent | WebAuthFailedEvent | WebAuthLockedEvent | WebAuthPasswordChangedEvent

record security_event =
  ev_type :: security_event_type
  ev_protocol :: dns_transport
  ev_client :: string
  ev_reason :: string
  ev_first :: u64
  ev_last :: u64
  ev_count :: u64

record traffic_bucket =
  tb_minute :: u64
  tb_queries :: u64
  tb_blocked :: u64
  tb_bytes :: u64

record traffic_totals =
  tt_client_in :: u64
  tt_client_out :: u64
  tt_upstream_out :: u64
  tt_upstream_in :: u64
  tt_cache_saved :: u64

type_synonym counts = "string \<rightharpoonup> u64"

record dns_stats =
  st_started_at :: "u64 option"
  st_dashboard_started_at :: "u64 option"
  st_dashboard_ended_at :: "u64 option"
  st_queries :: u64
  st_blocked :: u64
  st_forwarded :: u64
  st_failed :: u64
  st_access_denied :: u64
  st_rate_limited :: u64
  st_refused_any :: u64
  st_rebinding_blocked :: u64
  st_cname_cloaking_blocked :: u64
  st_dropped_udp :: u64
  st_invalid_query :: u64
  st_worker_queue_dropped :: u64
  st_persistence_queue_dropped :: u64
  st_upstream_task_queue_rejected :: u64
  st_tcp_connection_rejected :: u64
  st_cache :: cache_metrics
  st_cache_entries :: u64
  st_cache_bytes :: u64
  st_security_events :: "security_event list"
  st_last_query :: "string option"
  st_last_blocked :: "string option"
  st_last_error :: "string option"
  st_query_domains :: counts
  st_blocked_domains :: counts
  st_client_requests :: counts
  st_client_blocked :: counts
  st_blocklist_hits :: counts
  st_traffic :: "traffic_bucket list"
  st_traffic_totals :: traffic_totals
  st_domain_traffic :: counts
  st_client_traffic :: counts
  st_upstream_requests :: "(string \<times> u64) list"
  st_upstream_avg_latency :: "(string \<times> u64) list"

definition default_stats :: dns_stats where
  "default_stats =
     \<lparr>st_started_at = None, st_dashboard_started_at = None, st_dashboard_ended_at = None, st_queries = 0,
      st_blocked = 0, st_forwarded = 0, st_failed = 0, st_access_denied = 0, st_rate_limited = 0,
      st_refused_any = 0, st_rebinding_blocked = 0, st_cname_cloaking_blocked = 0, st_dropped_udp = 0,
      st_invalid_query = 0, st_worker_queue_dropped = 0, st_persistence_queue_dropped = 0,
      st_upstream_task_queue_rejected = 0, st_tcp_connection_rejected = 0, st_cache = zero_metrics,
      st_cache_entries = 0, st_cache_bytes = 0, st_security_events = [], st_last_query = None,
      st_last_blocked = None, st_last_error = None, st_query_domains = Map.empty,
      st_blocked_domains = Map.empty, st_client_requests = Map.empty, st_client_blocked = Map.empty,
      st_blocklist_hits = Map.empty, st_traffic = [],
      st_traffic_totals = \<lparr>tt_client_in = 0, tt_client_out = 0, tt_upstream_out = 0, tt_upstream_in = 0, tt_cache_saved = 0\<rparr>,
      st_domain_traffic = Map.empty, st_client_traffic = Map.empty, st_upstream_requests = [],
      st_upstream_avg_latency = []\<rparr>"

definition reset_stats :: "u64 option \<Rightarrow> dns_stats" where
  "reset_stats now = default_stats\<lparr>st_started_at := now\<rparr>"

section \<open>Counting\<close>

definition bump :: "string \<Rightarrow> counts \<Rightarrow> counts" where
  "bump key m = m(key \<mapsto> (case m key of None \<Rightarrow> 0 | Some n \<Rightarrow> n) + 1)"

definition increment_traffic_bucket :: "bool \<Rightarrow> traffic_bucket \<Rightarrow> traffic_bucket" where
  "increment_traffic_bucket blocked b =
     (if blocked then b\<lparr>tb_blocked := tb_blocked b + 1\<rparr> else b\<lparr>tb_queries := tb_queries b + 1\<rparr>)"

definition current_minute :: "u64 \<Rightarrow> u64" where
  "current_minute second = second div 60"

definition record_traffic :: "u64 \<Rightarrow> bool \<Rightarrow> dns_stats \<Rightarrow> dns_stats" where
  "record_traffic second blocked s =
     (let minute = current_minute second; buckets = st_traffic s
      in if buckets \<noteq> [] \<and> tb_minute (last buckets) = minute
         then s\<lparr>st_traffic := butlast buckets @ [increment_traffic_bucket blocked (last buckets)]\<rparr>
         else (case find (\<lambda>i. tb_minute (buckets ! i) = minute) [0..<length buckets] of
             Some i \<Rightarrow> s\<lparr>st_traffic := buckets[i := increment_traffic_bucket blocked (buckets ! i)]\<rparr>
           | None \<Rightarrow>
               s\<lparr>st_traffic :=
                   filter (\<lambda>b. sat_sub minute TRAFFIC_BUCKET_WINDOW_MINUTES \<le> tb_minute b) buckets @
                   [increment_traffic_bucket blocked
                      \<lparr>tb_minute = minute, tb_queries = 0, tb_blocked = 0, tb_bytes = 0\<rparr>]\<rparr>))"

definition record_query :: "u64 \<Rightarrow> string \<Rightarrow> ip_addr \<Rightarrow> bool \<Rightarrow> dns_stats \<Rightarrow> dns_stats" where
  "record_query second name client detailed s0 =
     (let s = s0\<lparr>st_queries := st_queries s0 + 1, st_last_query := Some name\<rparr>
      in if \<not> detailed then s
         else record_traffic second False
           (s\<lparr>st_query_domains := bump name (st_query_domains s),
              st_client_requests := bump (show_ip client) (st_client_requests s)\<rparr>))"

definition record_blocked_query ::
  "u64 \<Rightarrow> string \<Rightarrow> ip_addr \<Rightarrow> string \<Rightarrow> bool \<Rightarrow> dns_stats \<Rightarrow> dns_stats" where
  "record_blocked_query second name client source detailed s0 =
     (let s = s0\<lparr>st_queries := st_queries s0 + 1, st_blocked := st_blocked s0 + 1,
                 st_last_query := Some name, st_last_blocked := Some name\<rparr>
      in if \<not> detailed then s
         else record_traffic second True (record_traffic second False
           (s\<lparr>st_query_domains := bump name (st_query_domains s),
              st_blocked_domains := bump name (st_blocked_domains s),
              st_client_requests := bump (show_ip client) (st_client_requests s),
              st_client_blocked := bump (show_ip client) (st_client_blocked s),
              st_blocklist_hits := bump source (st_blocklist_hits s)\<rparr>)))"

definition record_forwarded :: "dns_stats \<Rightarrow> dns_stats" where
  "record_forwarded s = s\<lparr>st_last_error := None, st_forwarded := st_forwarded s + 1\<rparr>"

definition record_error :: "string \<Rightarrow> dns_stats \<Rightarrow> dns_stats" where
  "record_error error s = s\<lparr>st_failed := st_failed s + 1, st_last_error := Some error\<rparr>"

definition record_worker_queue_drop :: "string \<Rightarrow> dns_stats \<Rightarrow> dns_stats" where
  "record_worker_queue_drop error s =
     s\<lparr>st_failed := st_failed s + 1, st_worker_queue_dropped := st_worker_queue_dropped s + 1,
       st_last_error := Some error\<rparr>"

definition record_persistence_queue_drop :: "string \<Rightarrow> dns_stats \<Rightarrow> dns_stats" where
  "record_persistence_queue_drop error s =
     s\<lparr>st_persistence_queue_dropped := st_persistence_queue_dropped s + 1, st_last_error := Some error\<rparr>"

definition record_upstream_task_queue_rejected :: "dns_stats \<Rightarrow> dns_stats" where
  "record_upstream_task_queue_rejected s =
     s\<lparr>st_upstream_task_queue_rejected := st_upstream_task_queue_rejected s + 1\<rparr>"

definition record_tcp_connection_rejected :: "string \<Rightarrow> dns_stats \<Rightarrow> dns_stats" where
  "record_tcp_connection_rejected error s =
     s\<lparr>st_failed := st_failed s + 1, st_tcp_connection_rejected := st_tcp_connection_rejected s + 1,
       st_last_error := Some error\<rparr>"

definition record_refused_any :: "dns_stats \<Rightarrow> dns_stats" where
  "record_refused_any s = s\<lparr>st_refused_any := st_refused_any s + 1\<rparr>"

definition record_response_blocked ::
  "u64 \<Rightarrow> string \<Rightarrow> ip_addr \<Rightarrow> string \<Rightarrow> protection_kind \<Rightarrow> bool \<Rightarrow> dns_stats \<Rightarrow> dns_stats" where
  "record_response_blocked second name client source kind detailed s0 =
     (let s = (case kind of
                 Rebinding \<Rightarrow> s0\<lparr>st_rebinding_blocked := st_rebinding_blocked s0 + 1\<rparr>
               | CnameCloaking \<Rightarrow> s0\<lparr>st_cname_cloaking_blocked := st_cname_cloaking_blocked s0 + 1\<rparr>)
      in if \<not> detailed then s
         else record_traffic second True
           (s\<lparr>st_blocked := st_blocked s + 1, st_last_blocked := Some name,
              st_blocked_domains := bump name (st_blocked_domains s),
              st_client_blocked := bump (show_ip client) (st_client_blocked s),
              st_blocklist_hits := bump source (st_blocklist_hits s)\<rparr>))"

definition apply_cache_stats :: "cache_metrics \<Rightarrow> u64 \<times> u64 \<Rightarrow> dns_stats \<Rightarrow> dns_stats" where
  "apply_cache_stats metrics totals s =
     s\<lparr>st_cache := metrics, st_cache_entries := fst totals, st_cache_bytes := snd totals\<rparr>"

section \<open>Security events\<close>

text \<open>The loop over the offsets \<open>k..\<close>, \<open>n\<close> of them left.\<close>

fun find_aggregatable ::
  "security_event list \<Rightarrow> u64 \<Rightarrow> security_event_type \<Rightarrow> dns_transport \<Rightarrow> string \<Rightarrow> string \<Rightarrow> nat \<Rightarrow> nat \<Rightarrow> nat option"
  where
  "find_aggregatable events now ty protocol client reason offset 0 = None"
| "find_aggregatable events now ty protocol client reason offset (Suc n) =
     (let index = length events - offset; event = events ! index
      in if SECURITY_EVENT_AGGREGATE_SECONDS < sat_sub now (ev_last event) then None
         else if ev_type event = ty \<and> ev_protocol event = protocol \<and> ev_client event = client \<and> ev_reason event = reason
         then Some index
         else find_aggregatable events now ty protocol client reason (offset + 1) n)"

definition find_aggregatable_event ::
  "dns_stats \<Rightarrow> u64 \<Rightarrow> security_event_type \<Rightarrow> dns_transport \<Rightarrow> string \<Rightarrow> string \<Rightarrow> nat option" where
  "find_aggregatable_event s now ty protocol client reason =
     find_aggregatable (st_security_events s) now ty protocol client reason 1
       (min (length (st_security_events s)) SECURITY_EVENT_AGGREGATE_LOOKBACK)"

definition append_security_event ::
  "u64 \<Rightarrow> security_event_type \<Rightarrow> dns_transport \<Rightarrow> string \<Rightarrow> string \<Rightarrow> dns_stats \<Rightarrow> dns_stats \<times> security_event" where
  "append_security_event now ty protocol client reason s =
     (let events = st_security_events s
      in case find_aggregatable_event s now ty protocol client reason of
           Some i \<Rightarrow>
             (let event = (events ! i)\<lparr>ev_last := now, ev_count := sat_add (ev_count (events ! i)) 1\<rparr>
              in (s\<lparr>st_security_events := take i events @ drop (Suc i) events @ [event]\<rparr>, event))
         | None \<Rightarrow>
             (let room = (if SECURITY_EVENT_CAPACITY \<le> length events then tl events else events);
                  event = \<lparr>ev_type = ty, ev_protocol = protocol, ev_client = client, ev_reason = reason,
                           ev_first = now, ev_last = now, ev_count = 1\<rparr>
              in (s\<lparr>st_security_events := room @ [event]\<rparr>, event)))"

text \<open>What is counted with the event: the state and the event that is to be written.\<close>

definition record_security_event ::
  "u64 \<Rightarrow> security_event_type \<Rightarrow> dns_transport \<Rightarrow> ip_addr \<Rightarrow> string \<Rightarrow> dns_stats \<Rightarrow> dns_stats \<times> security_event" where
  "record_security_event now ty protocol client reason s =
     (case append_security_event now ty protocol (show_ip client) reason s of
        (s', event) \<Rightarrow> (s', event\<lparr>ev_count := 1\<rparr>))"

definition count_dropped_udp :: "dns_transport \<Rightarrow> dns_stats \<Rightarrow> dns_stats" where
  "count_dropped_udp protocol s =
     (if protocol = TransportUdp then s\<lparr>st_dropped_udp := st_dropped_udp s + 1\<rparr> else s)"

definition record_access_denied ::
  "u64 \<Rightarrow> ip_addr \<Rightarrow> dns_transport \<Rightarrow> string \<Rightarrow> dns_stats \<Rightarrow> dns_stats \<times> security_event" where
  "record_access_denied now client protocol reason s =
     record_security_event now AccessDeniedEvent protocol client reason
       (count_dropped_udp protocol (s\<lparr>st_access_denied := st_access_denied s + 1\<rparr>))"

definition record_invalid_query ::
  "u64 \<Rightarrow> ip_addr \<Rightarrow> dns_transport \<Rightarrow> string \<Rightarrow> dns_stats \<Rightarrow> dns_stats \<times> security_event" where
  "record_invalid_query now client protocol reason s =
     record_security_event now InvalidQueryEvent protocol client reason
       (count_dropped_udp protocol (s\<lparr>st_invalid_query := st_invalid_query s + 1\<rparr>))"

definition record_rate_limited ::
  "u64 \<Rightarrow> ip_addr \<Rightarrow> dns_transport \<Rightarrow> string \<Rightarrow> dns_stats \<Rightarrow> dns_stats \<times> security_event" where
  "record_rate_limited now client protocol reason s =
     record_security_event now RateLimitedEvent protocol client reason
       (count_dropped_udp protocol (s\<lparr>st_rate_limited := st_rate_limited s + 1\<rparr>))"

definition restore_security_events :: "security_event list \<Rightarrow> dns_stats \<Rightarrow> dns_stats" where
  "restore_security_events events s =
     (let sorted = sort_key (\<lambda>e. unat (ev_last e)) (sort_key (\<lambda>e. unat (ev_first e)) events)
      in s\<lparr>st_security_events := drop (length sorted - SECURITY_EVENT_CAPACITY) sorted\<rparr>)"

section \<open>What the workers count\<close>

text \<open>The statistics after an event of a worker, with the security event that is to be written.  The
  texts of errors and reasons are a parameter.\<close>

fun apply_stat_event ::
  "(stat_event \<Rightarrow> string) \<Rightarrow> u64 \<Rightarrow> stat_event \<Rightarrow> dns_stats \<Rightarrow> dns_stats \<times> security_event option" where
  "apply_stat_event txt now (StatAccessDenied client protocol r) s =
     map_prod id Some (record_access_denied now client protocol (txt (StatAccessDenied client protocol r)) s)"
| "apply_stat_event txt now (StatRateLimited client protocol) s =
     map_prod id Some (record_rate_limited now client protocol (txt (StatRateLimited client protocol)) s)"
| "apply_stat_event txt now (StatInvalidQuery client protocol e) s =
     map_prod id Some (record_invalid_query now client protocol (txt (StatInvalidQuery client protocol e)) s)"
| "apply_stat_event txt now (StatQuery name client detailed) s = (record_query now name client detailed s, None)"
| "apply_stat_event txt now (StatBlockedQuery name client source detailed) s =
     (record_blocked_query now name client source detailed s, None)"
| "apply_stat_event txt now (StatResponseBlocked name client source kind detailed) s =
     (record_response_blocked now name client source kind detailed s, None)"
| "apply_stat_event txt now (StatForwarded detailed) s = (record_forwarded s, None)"
| "apply_stat_event txt now (StatError e) s = (record_error (txt (StatError e)) s, None)"
| "apply_stat_event txt now StatRefusedAny s = (record_refused_any s, None)"
| "apply_stat_event txt now (StatQueueDrop full) s = (record_persistence_queue_drop (txt (StatQueueDrop full)) s, None)"

end
