(* ===== verification/SecurityEvents.thy ===== *)
theory SecurityEvents
  imports Stats
begin

text \<open>
  \<open>dns/security_events.rs\<close> with the statements on the table of security events in \<open>database.rs\<close> and
  the two operations of \<open>service_core.rs\<close> that delete events.  A table is the list of its rows in
  the order of their identifiers.  The system has the statistics with their lock, the channel, the
  thread that writes, and the table; a step is one lock section, one message, or one transaction.
\<close>

section \<open>The table\<close>

definition same_identity :: "security_event \<Rightarrow> security_event \<Rightarrow> bool" where
  "same_identity a b \<longleftrightarrow> ev_type a = ev_type b \<and> ev_protocol a = ev_protocol b \<and> ev_client a = ev_client b \<and>
     ev_reason a = ev_reason b \<and> ev_first a = ev_first b"

text \<open>\<open>INSERT ... ON CONFLICT DO UPDATE\<close>: the counts are added, the later time is kept.\<close>

definition upsert_event :: "security_event list \<Rightarrow> security_event \<Rightarrow> security_event list" where
  "upsert_event rows e =
     (if list_ex (same_identity e) rows
      then map (\<lambda>r. if same_identity e r
                     then r\<lparr>ev_last := max (ev_last r) (ev_last e), ev_count := ev_count r + ev_count e\<rparr>
                     else r) rows
      else rows @ [e])"

definition fits_i64 :: "u64 \<Rightarrow> bool" where
  "fits_i64 v \<longleftrightarrow> unat v < 2 ^ 63"

text \<open>\<open>ok\<close>: the statements of the transaction succeed.  A transaction writes all or nothing.\<close>

definition append_security_events ::
  "bool \<Rightarrow> security_event list \<Rightarrow> security_event list \<Rightarrow> security_event list option" where
  "append_security_events ok events rows =
     (if events = [] then Some rows
      else if \<not> ok \<or> list_ex (\<lambda>e. \<not> fits_i64 (ev_first e) \<or> \<not> fits_i64 (ev_last e) \<or> \<not> fits_i64 (ev_count e)) events
      then None
      else Some (foldl upsert_event rows events))"

text \<open>The last rows by time and identifier, oldest first.\<close>

definition recent_security_events :: "nat \<Rightarrow> security_event list \<Rightarrow> security_event list" where
  "recent_security_events limit rows =
     (let sorted = sort_key (\<lambda>e. unat (ev_last e)) rows in drop (length sorted - limit) sorted)"

definition prune_event_rows :: "u64 \<Rightarrow> security_event list \<Rightarrow> security_event list" where
  "prune_event_rows since rows = filter (\<lambda>e. since \<le> ev_last e) rows"

section \<open>The writer\<close>

definition QUEUE_CAPACITY :: nat where "QUEUE_CAPACITY = 4096"
definition BATCH_SIZE :: nat where "BATCH_SIZE = 256"

datatype security_message = EventMessage security_event | FlushMessage | StopMessage

text \<open>What the thread finds when it waits for a message: one, nothing until its deadline, or no sender.\<close>

datatype received = Got security_message | Timeout | Disconnected

text \<open>After one round of the loop: the batch (\<open>None\<close>: the thread has ended), the table, and the reply of
  a flush.\<close>

definition write_batch :: "bool \<Rightarrow> security_event list \<Rightarrow> security_event list \<Rightarrow> security_event list option \<times> security_event list" where
  "write_batch ok batch rows =
     (case append_security_events ok batch rows of
        Some rows' \<Rightarrow> (Some [], rows')
      | None \<Rightarrow> (None, rows))"

fun write_events ::
  "bool \<Rightarrow> received \<Rightarrow> security_event list \<Rightarrow> security_event list \<Rightarrow>
    security_event list option \<times> security_event list \<times> bool option" where
  "write_events ok (Got (EventMessage e)) batch rows =
     (if length (batch @ [e]) < BATCH_SIZE then (Some (batch @ [e]), rows, None)
      else (case write_batch ok (batch @ [e]) rows of (b, rows') \<Rightarrow> (b, rows', None)))"
| "write_events ok (Got FlushMessage) batch rows =
     (case write_batch ok batch rows of (b, rows') \<Rightarrow> (b, rows', Some (b \<noteq> None)))"
| "write_events ok (Got StopMessage) batch rows = (None, snd (write_batch ok batch rows), None)"
| "write_events ok Disconnected batch rows = (None, snd (write_batch ok batch rows), None)"
| "write_events ok Timeout batch rows =
     (case write_batch ok batch rows of (b, rows') \<Rightarrow> (b, rows', None))"

section \<open>The system\<close>

text \<open>Who holds the lock of the statistics across steps: a caller of \<open>flush_security_events\<close> that goes on
  to clear all events, or to prune those before a second.  Its stage: it waits for the reply, or has it.\<close>

datatype flush_purpose = ClearEvents | PruneEvents u64
datatype flush_stage = AwaitReply | Flushed

record security_system =
  se_stats :: dns_stats
  se_sender :: bool
  se_queue :: "security_message list"
  se_batch :: "security_event list option"
  se_rows :: "security_event list"
  se_lock :: "(flush_purpose \<times> flush_stage) option"
  se_web :: "security_event list"

text \<open>\<open>persist_security_event\<close>: a send waits for room in the channel and fails when the thread has
  ended; \<open>None\<close>: it waits.\<close>

definition persist_security_event :: "string \<Rightarrow> security_event \<Rightarrow> security_system \<Rightarrow> security_system option" where
  "persist_security_event closed e s =
     (if \<not> se_sender s then Some s
      else if se_batch s = None
      then Some (s\<lparr>se_stats := (se_stats s)\<lparr>st_persistence_queue_dropped := st_persistence_queue_dropped (se_stats s) + 1,
                     st_last_error := Some closed\<rparr>\<rparr>)
      else if length (se_queue s) < QUEUE_CAPACITY then Some (s\<lparr>se_queue := se_queue s @ [EventMessage e]\<rparr>)
      else None)"

text \<open>A worker counts an event.\<close>

definition record_worker_event ::
  "(stat_event \<Rightarrow> string) \<Rightarrow> string \<Rightarrow> u64 \<Rightarrow> stat_event \<Rightarrow> security_system \<Rightarrow> security_system option" where
  "record_worker_event txt closed now e s =
     (if se_lock s \<noteq> None then None
      else (case apply_stat_event txt now e (se_stats s) of
          (st, None) \<Rightarrow> Some (s\<lparr>se_stats := st\<rparr>)
        | (st, Some event) \<Rightarrow> persist_security_event closed event (s\<lparr>se_stats := st\<rparr>)))"

text \<open>The authentication of the web administration: the view first, then, without the lock, the table.\<close>

definition record_web_admin_security_event ::
  "u64 \<Rightarrow> security_event_type \<Rightarrow> string \<Rightarrow> string \<Rightarrow> security_system \<Rightarrow> security_system option" where
  "record_web_admin_security_event now ty client reason s =
     (if se_lock s \<noteq> None then None
      else (case append_security_event now ty TransportTcp client reason (se_stats s) of
          (st, event) \<Rightarrow> Some (s\<lparr>se_stats := st, se_web := se_web s @ [event\<lparr>ev_count := 1\<rparr>]\<rparr>)))"

definition write_web_event :: "bool \<Rightarrow> nat \<Rightarrow> security_system \<Rightarrow> security_system option" where
  "write_web_event ok i s =
     (case get_at (se_web s) i of
        None \<Rightarrow> None
      | Some e \<Rightarrow>
          Some (s\<lparr>se_web := take i (se_web s) @ drop (Suc i) (se_web s),
                 se_rows := (case append_security_events ok [e] (se_rows s) of Some rows \<Rightarrow> rows | None \<Rightarrow> se_rows s)\<rparr>))"

text \<open>The thread takes the next message, or times out, or finds the channel without senders.  The end of
  the thread drops the channel.\<close>

definition writer_receives :: "bool \<Rightarrow> security_system \<Rightarrow> (received \<times> security_message list) option" where
  "writer_receives timeout s =
     (case se_queue s of
        m # rest \<Rightarrow> if timeout then None else Some (Got m, rest)
      | [] \<Rightarrow> if timeout then Some (Timeout, []) else if \<not> se_sender s then Some (Disconnected, []) else None)"

definition writer_round :: "bool \<Rightarrow> bool \<Rightarrow> security_system \<Rightarrow> security_system option" where
  "writer_round timeout ok s =
     (case (se_batch s, writer_receives timeout s) of
        (Some batch, Some (r, rest)) \<Rightarrow>
          (case write_events ok r batch (se_rows s) of
             (b, rows, reply) \<Rightarrow>
               Some (s\<lparr>se_batch := b, se_rows := rows, se_queue := (if b = None then [] else rest),
                       se_lock := (case (reply, se_lock s) of
                           (Some True, Some (p, AwaitReply)) \<Rightarrow> Some (p, Flushed)
                         | (Some False, Some (p, AwaitReply)) \<Rightarrow> None
                         | (None, Some (p, AwaitReply)) \<Rightarrow> if b = None then None else se_lock s
                         | _ \<Rightarrow> se_lock s)\<rparr>))
      | _ \<Rightarrow> None)"

text \<open>\<open>clear_security_events_blocking\<close> and \<open>prune_security_events\<close>: the lock is taken and a flush is
  sent; without a sender there is nothing to wait for; a closed channel is an error.\<close>

definition flush_begin :: "flush_purpose \<Rightarrow> security_system \<Rightarrow> security_system option" where
  "flush_begin p s =
     (if se_lock s \<noteq> None then None
      else if \<not> se_sender s then Some (s\<lparr>se_lock := Some (p, Flushed)\<rparr>)
      else if se_batch s = None then Some s
      else if length (se_queue s) < QUEUE_CAPACITY
      then Some (s\<lparr>se_queue := se_queue s @ [FlushMessage], se_lock := Some (p, AwaitReply)\<rparr>)
      else None)"

definition flush_end :: "bool \<Rightarrow> security_system \<Rightarrow> security_system option" where
  "flush_end ok s =
     (case se_lock s of
        Some (p, Flushed) \<Rightarrow>
          (let s' = s\<lparr>se_lock := None\<rparr>
           in if \<not> ok then Some s'
              else (case p of
                  ClearEvents \<Rightarrow> Some (s'\<lparr>se_rows := [], se_stats := (se_stats s)\<lparr>st_security_events := []\<rparr>\<rparr>)
                | PruneEvents since \<Rightarrow>
                    Some (s'\<lparr>se_rows := prune_event_rows since (se_rows s),
                            se_stats := (se_stats s)\<lparr>st_security_events :=
                              filter (\<lambda>e. since \<le> ev_last e) (st_security_events (se_stats s))\<rparr>\<rparr>)))
      | _ \<Rightarrow> None)"

text \<open>\<open>restore_persisted_security_events\<close>, under the lock; \<open>ok\<close>: the table can be read.\<close>

definition restore_persisted_security_events :: "bool \<Rightarrow> u64 \<Rightarrow> u32 \<Rightarrow> security_system \<Rightarrow> security_system option" where
  "restore_persisted_security_events ok now retention_hours s =
     (if se_lock s \<noteq> None then None
      else if \<not> ok then Some s
      else Some (s\<lparr>se_stats := restore_security_events
          (filter (\<lambda>e. sat_sub now (ucast retention_hours * 3600) \<le> ev_last e)
            (recent_security_events SECURITY_EVENT_CAPACITY (se_rows s)))
          (se_stats s)\<rparr>))"

text \<open>\<open>SecurityEventWriter::start\<close>, and \<open>stop\<close> up to the join of the thread; the thread must have ended
  before the next start.\<close>

definition writer_start :: "security_system \<Rightarrow> security_system option" where
  "writer_start s =
     (if se_lock s \<noteq> None \<or> se_batch s \<noteq> None then None
      else Some (s\<lparr>se_sender := True, se_queue := [], se_batch := Some []\<rparr>))"

definition writer_stop :: "security_system \<Rightarrow> security_system option" where
  "writer_stop s =
     (if se_lock s \<noteq> None then None
      else if \<not> se_sender s then Some s
      else if se_batch s = None then Some (s\<lparr>se_sender := False\<rparr>)
      else if length (se_queue s) < QUEUE_CAPACITY
      then Some (s\<lparr>se_sender := False, se_queue := se_queue s @ [StopMessage]\<rparr>)
      else None)"

definition security_start :: "security_event list \<Rightarrow> security_system" where
  "security_start rows =
     \<lparr>se_stats = default_stats, se_sender = False, se_queue = [], se_batch = None, se_rows = rows, se_lock = None,
      se_web = []\<rparr>"

end
