(* ===== verification/SecuritySpec.thy ===== *)
theory SecuritySpec
  imports SecurityEvents "HOL-Library.Multiset"
begin

text \<open>
  Security events over every interleaving of workers, the writing thread, the web administration and the
  callers that delete: no event is lost or written twice, a deletion that waited for the writer leaves
  nothing behind, and the view stays bounded.
\<close>

section \<open>Counts per identity\<close>

definition count_of :: "security_event \<Rightarrow> security_event list \<Rightarrow> u64" where
  "count_of k es = sum_list (map ev_count (filter (same_identity k) es))"

lemma count_of_simps [simp]:
  "count_of k [] = 0"
  "count_of k (e # es) = (if same_identity k e then ev_count e else 0) + count_of k es"
  "count_of k (xs @ ys) = count_of k xs + count_of k ys"
  by (simp_all add: count_of_def)

lemma same_identity_refl [simp]: "same_identity e e"
  by (simp add: same_identity_def)

lemma same_identity_sym: "same_identity a b \<longleftrightarrow> same_identity b a"
  by (auto simp: same_identity_def)

lemma same_identity_trans: "same_identity a b \<Longrightarrow> same_identity b c \<Longrightarrow> same_identity a c"
  by (simp add: same_identity_def)

lemma same_identity_update [simp]:
  "same_identity k (e\<lparr>ev_last := l, ev_count := c\<rparr>) \<longleftrightarrow> same_identity k e"
  "same_identity (e\<lparr>ev_last := l, ev_count := c\<rparr>) k \<longleftrightarrow> same_identity e k"
  by (simp_all add: same_identity_def)

text \<open>The unique index of the table.\<close>

fun unique_rows :: "security_event list \<Rightarrow> bool" where
  "unique_rows [] \<longleftrightarrow> True"
| "unique_rows (r # rows) \<longleftrightarrow> \<not> list_ex (same_identity r) rows \<and> unique_rows rows"

definition bump_row :: "security_event \<Rightarrow> security_event \<Rightarrow> security_event" where
  "bump_row e r =
     (if same_identity e r
      then r\<lparr>ev_last := max (ev_last r) (ev_last e), ev_count := ev_count r + ev_count e\<rparr> else r)"

lemma upsert_event_bump:
  "upsert_event rows e = (if list_ex (same_identity e) rows then map (bump_row e) rows else rows @ [e])"
  by (auto simp: upsert_event_def bump_row_def)

lemma bump_row_identity [simp]: "same_identity k (bump_row e r) \<longleftrightarrow> same_identity k r"
  "same_identity (bump_row e r) k \<longleftrightarrow> same_identity r k"
  by (simp_all add: bump_row_def)

lemma list_ex_bump [simp]: "list_ex (same_identity k) (map (bump_row e) rows) = list_ex (same_identity k) rows"
  by (induction rows) auto

lemma unique_bump: "unique_rows (map (bump_row e) rows) = unique_rows rows"
  by (induction rows) (auto simp: list_ex_iff)

lemma unique_append: "unique_rows rows \<Longrightarrow> \<not> list_ex (same_identity e) rows \<Longrightarrow> unique_rows (rows @ [e])"
  by (induction rows) (auto simp: same_identity_sym[of e])

lemma unique_upsert: "unique_rows rows \<Longrightarrow> unique_rows (upsert_event rows e)"
  by (simp add: upsert_event_bump unique_bump unique_append)

lemma count_no_match: "\<not> list_ex (same_identity k) rows \<Longrightarrow> count_of k rows = 0"
  by (induction rows) auto

lemma count_bump:
  "unique_rows rows \<Longrightarrow> count_of k (map (bump_row e) rows) =
     count_of k rows + (if same_identity k e \<and> list_ex (same_identity e) rows then ev_count e else 0)"
proof (induction rows)
  case (Cons r rows)
  show ?case
  proof (cases "same_identity e r")
    case True
    then have none: "\<not> list_ex (same_identity e) rows"
      using Cons.prems by (auto simp: list_ex_iff dest: same_identity_trans[OF True[unfolded same_identity_sym[of e]]]
          intro: same_identity_trans)
    have "same_identity k r \<longleftrightarrow> same_identity k e" using True by (metis same_identity_sym same_identity_trans)
    then show ?thesis using Cons none True by (simp add: bump_row_def)
  next
    case False
    then show ?thesis using Cons by (simp add: bump_row_def)
  qed
qed simp

lemma count_upsert:
  "unique_rows rows \<Longrightarrow> count_of k (upsert_event rows e) = count_of k rows + (if same_identity k e then ev_count e else 0)"
  by (simp add: upsert_event_bump count_bump)

lemma fold_upsert:
  "unique_rows rows \<Longrightarrow> unique_rows (foldl upsert_event rows es) \<and>
     count_of k (foldl upsert_event rows es) = count_of k rows + count_of k es"
  by (induction es arbitrary: rows) (auto simp: unique_upsert count_upsert)

lemma count_mset: "mset xs = mset ys \<Longrightarrow> count_of k xs = count_of k ys"
proof -
  have "count_of k zs = sum_mset (image_mset ev_count (filter_mset (same_identity k) (mset zs)))" for zs
    unfolding count_of_def mset_filter[symmetric] mset_map[symmetric] sum_mset_sum_list by simp
  then show "mset xs = mset ys \<Longrightarrow> count_of k xs = count_of k ys" by simp
qed

section \<open>The view\<close>

lemma find_aggregatable_less:
  "find_aggregatable events now ty protocol client reason offset n = Some i \<Longrightarrow> 1 \<le> offset \<Longrightarrow>
     offset + n \<le> length events + 1 \<Longrightarrow> i < length events"
  by (induction events now ty protocol client reason offset n rule: find_aggregatable.induct)
    (auto simp: Let_def split: if_splits)

lemma find_aggregatable_event_less:
  "find_aggregatable_event s now ty protocol client reason = Some i \<Longrightarrow> i < length (st_security_events s)"
  unfolding find_aggregatable_event_def by (erule find_aggregatable_less) auto

lemma append_event_cases:
  assumes "append_security_event now ty protocol client reason s = (s', e)"
  obtains (merged) i where "i < length (st_security_events s)"
    and "e = (st_security_events s ! i)\<lparr>ev_last := now, ev_count := sat_add (ev_count (st_security_events s ! i)) 1\<rparr>"
    and "st_security_events s' = take i (st_security_events s) @ drop (Suc i) (st_security_events s) @ [e]"
  | (fresh) room where "set room \<subseteq> set (st_security_events s)" and "length room \<le> length (st_security_events s)"
    and "length room < SECURITY_EVENT_CAPACITY \<or> SECURITY_EVENT_CAPACITY < length (st_security_events s)"
    and "ev_first e = now" and "ev_last e = now" and "st_security_events s' = room @ [e]"
proof (cases "find_aggregatable_event s now ty protocol client reason")
  case (Some i)
  show ?thesis
    by (rule merged[of i])
      (use assms Some find_aggregatable_event_less[OF Some] in \<open>auto simp: append_security_event_def Let_def\<close>)
next
  case None
  define room where "room = (if SECURITY_EVENT_CAPACITY \<le> length (st_security_events s) then tl (st_security_events s)
    else st_security_events s)"
  have room: "set room \<subseteq> set (st_security_events s)" "length room \<le> length (st_security_events s)"
    "length room < SECURITY_EVENT_CAPACITY \<or> SECURITY_EVENT_CAPACITY < length (st_security_events s)"
    by (cases "st_security_events s"; auto simp: room_def SECURITY_EVENT_CAPACITY_def)+
  show ?thesis
    by (rule fresh[OF room])
      (use assms None in \<open>auto simp: append_security_event_def Let_def room_def[symmetric] simp del: length_greater_0_conv\<close>)
qed

text \<open>Times that fit the columns of the table.\<close>

definition timely :: "security_event \<Rightarrow> bool" where
  "timely e \<longleftrightarrow> fits_i64 (ev_first e) \<and> fits_i64 (ev_last e)"

definition view_ok :: "dns_stats \<Rightarrow> bool" where
  "view_ok s \<longleftrightarrow> length (st_security_events s) \<le> SECURITY_EVENT_CAPACITY \<and> (\<forall>e\<in>set (st_security_events s). timely e)"

lemma append_event_ok:
  assumes "append_security_event now ty protocol client reason s = (s', e)" and "view_ok s" and "fits_i64 now"
  shows "view_ok s' \<and> timely e"
  using assms(1)
proof (cases rule: append_event_cases)
  case (merged i)
  have "st_security_events s ! i \<in> set (st_security_events s)" using merged(1) by simp
  then have "timely e" using assms(2,3) merged(2) by (auto simp: view_ok_def timely_def)
  then show ?thesis
    using assms(2) merged(1,3) by (auto simp: view_ok_def dest: in_set_takeD in_set_dropD)
next
  case (fresh room)
  have "timely e" using fresh(4,5) assms(3) by (simp add: timely_def)
  then show ?thesis using assms(2) fresh by (auto simp: view_ok_def)
qed


lemma restore_view_ok:
  assumes "\<forall>e\<in>set events. timely e"
  shows "view_ok (restore_security_events events s)"
  using assms by (auto simp: view_ok_def restore_security_events_def Let_def dest: in_set_dropD)

lemma counters_keep_view:
  "st_security_events (record_traffic now b s) = st_security_events s"
  "st_security_events (record_query now name client d s) = st_security_events s"
  "st_security_events (record_blocked_query now name client src d s) = st_security_events s"
  "st_security_events (record_response_blocked now name client src kind d s) = st_security_events s"
  "st_security_events (record_forwarded s) = st_security_events s"
  "st_security_events (record_error txt s) = st_security_events s"
  "st_security_events (record_refused_any s) = st_security_events s"
  "st_security_events (record_persistence_queue_drop txt s) = st_security_events s"
  "st_security_events (count_dropped_udp protocol s) = st_security_events s"
proof -
  show traffic: "st_security_events (record_traffic now b s) = st_security_events s" for b s
    by (simp add: record_traffic_def Let_def split: option.split)
  show "st_security_events (record_query now name client d s) = st_security_events s"
    "st_security_events (record_blocked_query now name client src d s) = st_security_events s"
    "st_security_events (record_response_blocked now name client src kind d s) = st_security_events s"
    by (simp_all add: record_query_def record_blocked_query_def record_response_blocked_def Let_def traffic
        split: protection_kind.split)
qed (simp_all add: record_forwarded_def record_error_def record_refused_any_def record_persistence_queue_drop_def
  count_dropped_udp_def)

lemma view_ok_cong: "st_security_events s' = st_security_events s \<Longrightarrow> view_ok s' = view_ok s"
  by (simp add: view_ok_def)

lemma record_event_ok:
  assumes "record_security_event now ty protocol client reason s = (s', e)" and "view_ok s" and "fits_i64 now"
  shows "view_ok s' \<and> timely e \<and> ev_count e = 1"
proof -
  obtain s1 e1 where a: "append_security_event now ty protocol (show_ip client) reason s = (s1, e1)"
    by (cases "append_security_event now ty protocol (show_ip client) reason s")
  show ?thesis
    using append_event_ok[OF a assms(2,3)] assms(1) a by (auto simp: record_security_event_def timely_def)
qed

lemma apply_stat_event_ok:
  assumes "apply_stat_event txt now e s = (s', r)" and "view_ok s" and "fits_i64 now"
  shows "view_ok s' \<and> (\<forall>x. r = Some x \<longrightarrow> timely x \<and> ev_count x = 1)"
proof -
  have denied: "view_ok s' \<and> (\<forall>x. r = Some x \<longrightarrow> timely x \<and> ev_count x = 1)"
    if c: "map_prod id Some (record_security_event now ty protocol client reason (count_dropped_udp protocol s0)) = (s', r)"
      "st_security_events s0 = st_security_events s" for ty protocol client reason s0
  proof -
    obtain s1 x where x: "record_security_event now ty protocol client reason (count_dropped_udp protocol s0) = (s1, x)"
      by (cases "record_security_event now ty protocol client reason (count_dropped_udp protocol s0)")
    have "view_ok (count_dropped_udp protocol s0)" using c(2) assms(2) by (simp add: view_ok_def counters_keep_view)
    from record_event_ok[OF x this assms(3)] show ?thesis using c(1) x by auto
  qed
  show ?thesis
  proof (cases e)
    case (StatAccessDenied c p reason)
    from assms(1)[unfolded StatAccessDenied apply_stat_event.simps record_access_denied_def] show ?thesis by (rule denied) simp
  next
    case (StatRateLimited c p)
    from assms(1)[unfolded StatRateLimited apply_stat_event.simps record_rate_limited_def] show ?thesis by (rule denied) simp
  next
    case (StatInvalidQuery c p err)
    from assms(1)[unfolded StatInvalidQuery apply_stat_event.simps record_invalid_query_def] show ?thesis by (rule denied) simp
  qed (use assms(1,2) in \<open>auto simp: view_ok_def counters_keep_view\<close>)
qed

section \<open>Runs\<close>

definition queued :: "security_message list \<Rightarrow> security_event list" where
  "queued q = List.map_filter (\<lambda>m. case m of EventMessage e \<Rightarrow> Some e | _ \<Rightarrow> None) q"

lemma queued_simps [simp]:
  "queued [] = []" "queued (EventMessage e # q) = e # queued q" "queued (FlushMessage # q) = queued q"
  "queued (StopMessage # q) = queued q" "queued (q @ q') = queued q @ queued q'"
  by (simp_all add: queued_def List.map_filter_def)

definition under_way :: "security_system \<Rightarrow> security_event list" where
  "under_way s = (case se_batch s of None \<Rightarrow> [] | Some b \<Rightarrow> b) @ queued (se_queue s) @ se_web s"

definition accepted_event :: "(stat_event \<Rightarrow> string) \<Rightarrow> u64 \<Rightarrow> stat_event \<Rightarrow> security_system \<Rightarrow> security_event list" where
  "accepted_event txt now e s =
     (case snd (apply_stat_event txt now e (se_stats s)) of
        None \<Rightarrow> []
      | Some event \<Rightarrow> if se_sender s \<and> se_batch s \<noteq> None then [event] else [])"

text \<open>The runs of a database that does not fail, with the rows there were at the start or after the last
  deletion and the events given to be written since then.\<close>

inductive security_run :: "security_event list \<Rightarrow> security_event list \<Rightarrow> security_system \<Rightarrow> bool" where
  start: "unique_rows rows \<Longrightarrow> \<forall>r\<in>set rows. timely r \<Longrightarrow> security_run rows [] (security_start rows)"
| worker: "security_run B R s \<Longrightarrow> fits_i64 now \<Longrightarrow> record_worker_event txt closed now e s = Some s' \<Longrightarrow>
    security_run B (R @ accepted_event txt now e s) s'"
| web: "security_run B R s \<Longrightarrow> fits_i64 now \<Longrightarrow> record_web_admin_security_event now ty client reason s = Some s' \<Longrightarrow>
    security_run B (R @ [last (se_web s')]) s'"
| web_write: "security_run B R s \<Longrightarrow> write_web_event True i s = Some s' \<Longrightarrow> security_run B R s'"
| writer: "security_run B R s \<Longrightarrow> writer_round timeout True s = Some s' \<Longrightarrow> security_run B R s'"
| flush: "security_run B R s \<Longrightarrow> flush_begin p s = Some s' \<Longrightarrow> security_run B R s'"
| delete: "security_run B R s \<Longrightarrow> flush_end ok s = Some s' \<Longrightarrow> security_run (se_rows s') (under_way s') s'"
| restore: "security_run B R s \<Longrightarrow> restore_persisted_security_events ok now hours s = Some s' \<Longrightarrow> security_run B R s'"
| open_writer: "security_run B R s \<Longrightarrow> writer_start s = Some s' \<Longrightarrow> security_run B R s'"
| close_writer: "security_run B R s \<Longrightarrow> writer_stop s = Some s' \<Longrightarrow> security_run B R s'"

definition channel_part ::
  "bool \<Rightarrow> security_message list \<Rightarrow> security_event list option \<Rightarrow> (flush_purpose \<times> flush_stage) option \<Rightarrow> bool" where
  "channel_part sender q batch lock \<longleftrightarrow>
     (batch = None \<longrightarrow> q = []) \<and>
     (StopMessage \<in> set q \<longrightarrow> \<not> sender \<and> (\<exists>r. q = r @ [StopMessage] \<and> StopMessage \<notin> set r)) \<and>
     ((\<exists>p. lock = Some (p, AwaitReply)) \<longrightarrow>
        sender \<and> batch \<noteq> None \<and> (\<exists>r. q = r @ [FlushMessage] \<and> FlushMessage \<notin> set r)) \<and>
     ((\<nexists>p. lock = Some (p, AwaitReply)) \<longrightarrow> FlushMessage \<notin> set q) \<and>
     ((\<exists>p. lock = Some (p, Flushed)) \<longrightarrow> sender \<longrightarrow> q = [] \<and> batch = Some [])"

definition channel_ok :: "security_system \<Rightarrow> bool" where
  "channel_ok s \<longleftrightarrow> channel_part (se_sender s) (se_queue s) (se_batch s) (se_lock s)"

definition security_inv :: "security_event list \<Rightarrow> security_event list \<Rightarrow> security_system \<Rightarrow> bool" where
  "security_inv B R s \<longleftrightarrow>
     unique_rows (se_rows s) \<and> (\<forall>r\<in>set (se_rows s). timely r) \<and> view_ok (se_stats s) \<and>
     (\<forall>e\<in>set (under_way s). timely e \<and> ev_count e = 1) \<and>
     (\<forall>k. count_of k (se_rows s) + count_of k (under_way s) = count_of k B + count_of k R) \<and> channel_ok s"

lemma fits_max: "fits_i64 a \<Longrightarrow> fits_i64 b \<Longrightarrow> fits_i64 (max a b)"
  by (simp add: max_def)

lemma timely_upsert: "\<forall>r\<in>set rows. timely r \<Longrightarrow> timely e \<Longrightarrow> \<forall>r\<in>set (upsert_event rows e). timely r"
  by (auto simp: upsert_event_def timely_def fits_max)

lemma timely_fold: "\<forall>r\<in>set rows. timely r \<Longrightarrow> \<forall>e\<in>set es. timely e \<Longrightarrow> \<forall>r\<in>set (foldl upsert_event rows es). timely r"
proof (induction es arbitrary: rows)
  case (Cons e es)
  have "\<forall>r\<in>set (upsert_event rows e). timely r" by (rule timely_upsert[OF Cons.prems(1)]) (use Cons.prems(2) in simp)
  from Cons.IH[OF this] Cons.prems(2) show ?case by simp
qed simp

lemma append_ok:
  assumes "\<forall>e\<in>set es. timely e \<and> ev_count e = 1"
  shows "append_security_events True es rows = Some (foldl upsert_event rows es)"
proof -
  have "fits_i64 1" by (simp add: fits_i64_def)
  then have "\<not> list_ex (\<lambda>e. \<not> fits_i64 (ev_first e) \<or> \<not> fits_i64 (ev_last e) \<or> \<not> fits_i64 (ev_count e)) es"
    using assms by (simp add: timely_def list_ex_iff)
  then show ?thesis by (simp add: append_security_events_def)
qed


lemma write_batch_ok:
  assumes "\<forall>e\<in>set es. timely e \<and> ev_count e = 1"
  shows "write_batch True es rows = (Some [], foldl upsert_event rows es)"
  by (simp add: write_batch_def append_ok[OF assms])

lemma under_way_count:
  "count_of k (under_way s) = (case se_batch s of None \<Rightarrow> 0 | Some b \<Rightarrow> count_of k b) + count_of k (queued (se_queue s)) + count_of k (se_web s)"
  by (simp add: under_way_def add.assoc split: option.split)

section \<open>Every step keeps the invariant\<close>

lemma inv_worker:
  assumes inv: "security_inv B R s" and now: "fits_i64 now" and step: "record_worker_event txt closed now e s = Some s'"
  shows "security_inv B (R @ accepted_event txt now e s) s'"
proof -
  obtain st r where a: "apply_stat_event txt now e (se_stats s) = (st, r)" by (cases "apply_stat_event txt now e (se_stats s)")
  have view: "view_ok (se_stats s)" using inv by (simp add: security_inv_def)
  note ok = apply_stat_event_ok[OF a view now]
  have free: "se_lock s = None" using step by (cases "se_lock s") (simp_all add: record_worker_event_def)
  show ?thesis
  proof (cases r)
    case None
    then have "s' = s\<lparr>se_stats := st\<rparr>" "accepted_event txt now e s = []"
      using step a free by (auto simp: record_worker_event_def accepted_event_def)
    then show ?thesis using inv ok by (simp add: security_inv_def under_way_def channel_ok_def cong: option.case_cong)
  next
    case (Some x)
    then have p: "persist_security_event closed x (s\<lparr>se_stats := st\<rparr>) = Some s'"
      and acc: "accepted_event txt now e s = (if se_sender s \<and> se_batch s \<noteq> None then [x] else [])"
      using step a free by (auto simp: record_worker_event_def accepted_event_def)
    show ?thesis
    proof (cases "se_sender s \<and> se_batch s \<noteq> None")
      case True
      then have s': "s' = s\<lparr>se_stats := st, se_queue := se_queue s @ [EventMessage x]\<rparr>"
        using p by (auto simp: persist_security_event_def split: if_splits)
      have "channel_ok s'"
        using inv True free s' by (auto simp: security_inv_def channel_ok_def channel_part_def)
      moreover have "\<forall>e\<in>set (under_way s'). timely e \<and> ev_count e = 1"
        using inv ok Some s' by (auto simp: security_inv_def under_way_def)
      moreover have "count_of k (under_way s') = count_of k (under_way s) + count_of k [x]" for k
        using s' by (simp add: under_way_count)
      ultimately show ?thesis using inv ok acc True s' by (simp add: security_inv_def add.assoc[symmetric])
    next
      case False
      then have "se_queue s' = se_queue s \<and> se_batch s' = se_batch s \<and> se_rows s' = se_rows s \<and> se_web s' = se_web s \<and>
          se_lock s' = se_lock s \<and> se_sender s' = se_sender s \<and> view_ok (se_stats s')"
        using p ok by (auto simp: persist_security_event_def view_ok_def split: if_splits)
      moreover have "accepted_event txt now e s = []" using acc False by auto
      ultimately show ?thesis using inv by (simp add: security_inv_def under_way_def channel_ok_def cong: option.case_cong)
    qed
  qed
qed

lemma inv_web:
  assumes inv: "security_inv B R s" and now: "fits_i64 now"
    and step: "record_web_admin_security_event now ty client reason s = Some s'"
  shows "security_inv B (R @ [last (se_web s')]) s'"
proof -
  obtain st e where a: "append_security_event now ty TransportTcp client reason (se_stats s) = (st, e)"
    by (cases "append_security_event now ty TransportTcp client reason (se_stats s)")
  have s': "s' = s\<lparr>se_stats := st, se_web := se_web s @ [e\<lparr>ev_count := 1\<rparr>]\<rparr>"
    using step a by (cases "se_lock s") (simp_all add: record_web_admin_security_event_def)
  have "view_ok st \<and> timely e" using append_event_ok[OF a _ now] inv by (simp add: security_inv_def)
  moreover have "timely (e\<lparr>ev_count := 1\<rparr>) = timely e" by (simp add: timely_def)
  moreover have "count_of k (under_way s') = count_of k (under_way s) + count_of k [e\<lparr>ev_count := 1\<rparr>]" for k
    using s' by (simp add: under_way_count)
  moreover have "channel_ok s'" using inv s' by (simp add: security_inv_def channel_ok_def)
  ultimately show ?thesis using inv s' by (auto simp: security_inv_def under_way_def add.assoc[symmetric])
qed

lemma inv_rows:
  assumes inv: "security_inv B R s" and part: "mset (under_way s) = mset es + mset (under_way s')"
    and rows: "se_rows s' = foldl upsert_event (se_rows s) es" and "se_stats s' = se_stats s" and "channel_ok s'"
  shows "security_inv B R s'"
proof -
  have "set (under_way s) = set es \<union> set (under_way s')" using arg_cong[OF part, of set_mset] by simp
  then have ok: "\<forall>e\<in>set es. timely e" "\<forall>e\<in>set (under_way s'). timely e \<and> ev_count e = 1"
    using inv by (auto simp: security_inv_def)
  have "count_of k (under_way s) = count_of k (es @ under_way s')" for k
    by (rule count_mset) (simp add: part)
  moreover have "count_of k (se_rows s') = count_of k (se_rows s) + count_of k es" for k
    using fold_upsert[of "se_rows s" es k] inv rows by (simp add: security_inv_def)
  ultimately have "count_of k (se_rows s') + count_of k (under_way s') = count_of k B + count_of k R" for k
    using inv by (simp add: security_inv_def add.assoc)
  then show ?thesis
    using inv ok timely_fold[of "se_rows s" es] fold_upsert[of "se_rows s" es] rows assms(4,5) by (simp add: security_inv_def)
qed


lemma inv_web_write:
  assumes inv: "security_inv B R s" and step: "write_web_event True i s = Some s'"
  shows "security_inv B R s'"
proof -
  obtain e where e: "get_at (se_web s) i = Some e"
    using step by (cases "get_at (se_web s) i") (auto simp: write_web_event_def)
  then have i: "i < length (se_web s)" "e = se_web s ! i" by (auto simp: get_at_def split: if_splits)
  then have mem: "e \<in> set (under_way s)" by (simp add: under_way_def)
  then have "append_security_events True [e] (se_rows s) = Some (foldl upsert_event (se_rows s) [e])"
    using inv by (intro append_ok) (simp add: security_inv_def)
  then have s': "s' = s\<lparr>se_web := take i (se_web s) @ drop (Suc i) (se_web s), se_rows := foldl upsert_event (se_rows s) [e]\<rparr>"
    using step e by (simp add: write_web_event_def)
  have split: "mset (se_web s) = mset [e] + mset (take i (se_web s) @ drop (Suc i) (se_web s))"
    using arg_cong[OF id_take_nth_drop[OF i(1)], of mset] i(2) by simp
  have "channel_ok s'" using inv s' by (simp add: security_inv_def channel_ok_def)
  then show ?thesis
    by (intro inv_rows[OF inv, of "[e]"]) (use s' split in \<open>simp_all add: under_way_def\<close>)
qed

lemma channel_rest:
  assumes "channel_ok s" and "se_queue s = m # rest"
  shows "(StopMessage \<in> set rest \<longrightarrow> \<not> se_sender s \<and> (\<exists>q. rest = q @ [StopMessage] \<and> StopMessage \<notin> set q))"
    and "m = StopMessage \<Longrightarrow> rest = [] \<and> \<not> se_sender s"
    and "se_lock s = Some (p, AwaitReply) \<Longrightarrow> m \<noteq> FlushMessage \<Longrightarrow> \<exists>q. rest = q @ [FlushMessage] \<and> FlushMessage \<notin> set q"
    and "se_lock s = Some (p, AwaitReply) \<Longrightarrow> m = FlushMessage \<Longrightarrow> rest = []"
  using assms by (auto simp: channel_ok_def channel_part_def append_eq_Cons_conv Cons_eq_append_conv)

lemma inv_writer:
  assumes inv: "security_inv B R s" and step: "writer_round timeout True s = Some s'"
  shows "security_inv B R s'"
proof -
  obtain batch r rest where b: "se_batch s = Some batch" and r: "writer_receives timeout s = Some (r, rest)"
    using step by (auto simp: writer_round_def split: option.splits)
  have ch: "channel_ok s" and ok: "\<forall>e\<in>set (under_way s). timely e \<and> ev_count e = 1" using inv by (auto simp: security_inv_def)
  then have batch: "\<forall>e\<in>set batch. timely e \<and> ev_count e = 1" using b by (simp add: under_way_def)
  show ?thesis
  proof (cases r)
    case (Got m)
    then have q: "se_queue s = m # rest" using r by (auto simp: writer_receives_def split: list.splits if_splits)
    show ?thesis
    proof (cases m)
      case (EventMessage e)
      have e: "\<forall>x\<in>set (batch @ [e]). timely x \<and> ev_count x = 1" using ok batch q EventMessage by (simp add: under_way_def)
      show ?thesis
      proof (cases "length (batch @ [e]) < BATCH_SIZE")
        case True
        then have s': "s' = s\<lparr>se_batch := Some (batch @ [e]), se_queue := rest\<rparr>"
          using step b r Got EventMessage by (auto simp: writer_round_def split: option.splits flush_stage.splits)
        then have "channel_ok s'"
          using ch channel_rest[OF ch q] q b EventMessage
          by (auto simp: channel_ok_def channel_part_def)
        then show ?thesis
          by (intro inv_rows[OF inv, of "[]"]) (use s' b q EventMessage in \<open>simp_all add: under_way_def\<close>)
      next
        case False
        then have s': "s' = s\<lparr>se_batch := Some [], se_rows := foldl upsert_event (se_rows s) (batch @ [e]), se_queue := rest\<rparr>"
          using step b r Got EventMessage write_batch_ok[OF e, of "se_rows s"]
          by (auto simp: writer_round_def split: option.splits flush_stage.splits)
        then have "channel_ok s'"
          using ch channel_rest[OF ch q] q b EventMessage
          by (auto simp: channel_ok_def channel_part_def)
        then show ?thesis
          by (intro inv_rows[OF inv, of "batch @ [e]"]) (use s' b q EventMessage in \<open>simp_all add: under_way_def\<close>)
      qed
    next
      case FlushMessage
      have lock: "\<exists>p. se_lock s = Some (p, AwaitReply)"
        using ch q FlushMessage by (auto simp: channel_ok_def channel_part_def)
      then obtain p where p: "se_lock s = Some (p, AwaitReply)" by blast
      have "rest = []" by (rule channel_rest(4)[OF ch q p FlushMessage])
      then have s': "s' = s\<lparr>se_batch := Some [], se_rows := foldl upsert_event (se_rows s) batch, se_queue := [], se_lock := Some (p, Flushed)\<rparr>"
        using step b r Got FlushMessage p write_batch_ok[OF batch, of "se_rows s"] by (simp add: writer_round_def)
      then have "channel_ok s'" by (simp add: channel_ok_def channel_part_def)
      then show ?thesis
        by (intro inv_rows[OF inv, of batch]) (use s' b q FlushMessage \<open>rest = []\<close> in \<open>simp_all add: under_way_def\<close>)
    next
      case StopMessage
      have rest: "rest = []" and sender: "\<not> se_sender s" using channel_rest(2)[OF ch q StopMessage] by auto
      then have lock: "\<nexists>p. se_lock s = Some (p, AwaitReply)" using ch by (auto simp: channel_ok_def channel_part_def)
      then have s': "s' = s\<lparr>se_batch := None, se_rows := foldl upsert_event (se_rows s) batch, se_queue := []\<rparr>"
        using step b r Got StopMessage write_batch_ok[OF batch, of "se_rows s"]
        by (auto simp: writer_round_def split: option.splits flush_stage.splits)
      then have "channel_ok s'" using sender lock by (auto simp: channel_ok_def channel_part_def)
      then show ?thesis
        by (intro inv_rows[OF inv, of batch]) (use s' b q StopMessage rest in \<open>simp_all add: under_way_def\<close>)
    qed
  next
    case Timeout
    then have q: "se_queue s = []" "rest = []" using r by (auto simp: writer_receives_def split: list.splits if_splits)
    have "\<nexists>p. se_lock s = Some (p, AwaitReply)" using ch q by (auto simp: channel_ok_def channel_part_def)
    then have s': "s' = s\<lparr>se_batch := Some [], se_rows := foldl upsert_event (se_rows s) batch, se_queue := []\<rparr>"
      using step b r Timeout q write_batch_ok[OF batch, of "se_rows s"]
      by (auto simp: writer_round_def split: option.splits flush_stage.splits)
    then have "channel_ok s'" using ch q by (auto simp: channel_ok_def channel_part_def)
    then show ?thesis
      by (intro inv_rows[OF inv, of batch]) (use s' b q in \<open>simp_all add: under_way_def\<close>)
  next
    case Disconnected
    then have q: "se_queue s = []" "rest = []" and sender: "\<not> se_sender s"
      using r by (auto simp: writer_receives_def split: list.splits if_splits)
    have "\<nexists>p. se_lock s = Some (p, AwaitReply)" using ch q by (auto simp: channel_ok_def channel_part_def)
    then have s': "s' = s\<lparr>se_batch := None, se_rows := foldl upsert_event (se_rows s) batch, se_queue := []\<rparr>"
      using step b r Disconnected q write_batch_ok[OF batch, of "se_rows s"]
      by (auto simp: writer_round_def split: option.splits flush_stage.splits)
    then have "channel_ok s'" using ch q sender by (auto simp: channel_ok_def channel_part_def)
    then show ?thesis
      by (intro inv_rows[OF inv, of batch]) (use s' b q in \<open>simp_all add: under_way_def\<close>)
  qed
qed


lemma inv_cong:
  assumes "security_inv B R s" and "se_rows s' = se_rows s" and "view_ok (se_stats s')"
    and "under_way s' = under_way s" and "channel_ok s'"
  shows "security_inv B R s'"
  using assms by (simp add: security_inv_def)

lemma inv_flush:
  assumes inv: "security_inv B R s" and step: "flush_begin p s = Some s'"
  shows "security_inv B R s'"
proof -
  have ch: "channel_ok s" and view: "view_ok (se_stats s)" using inv by (auto simp: security_inv_def)
  have free: "se_lock s = None" using step by (cases "se_lock s") (simp_all add: flush_begin_def)
  consider "s' = s\<lparr>se_lock := Some (p, Flushed)\<rparr>" "\<not> se_sender s" | "s' = s"
    | "s' = s\<lparr>se_queue := se_queue s @ [FlushMessage], se_lock := Some (p, AwaitReply)\<rparr>" "se_sender s" "se_batch s \<noteq> None"
    using step by (auto simp: flush_begin_def split: if_splits)
  then show ?thesis
  proof cases
    case 1
    then have "channel_ok s'" using ch free by (simp add: channel_ok_def channel_part_def)
    then show ?thesis by (intro inv_cong[OF inv]) (use 1 view in \<open>simp_all add: under_way_def\<close>)
  next
    case 3
    then have "channel_ok s'" using ch free by (auto simp: channel_ok_def channel_part_def)
    then show ?thesis by (intro inv_cong[OF inv]) (use 3 view in \<open>simp_all add: under_way_def\<close>)
  qed (use inv in simp)
qed

lemma unique_filter: "unique_rows rows \<Longrightarrow> unique_rows (filter P rows)"
  by (induction rows) (auto simp: list_ex_iff)

lemma inv_delete:
  assumes inv: "security_inv B R s" and step: "flush_end ok s = Some s'"
  shows "security_inv (se_rows s') (under_way s') s'"
proof -
  obtain p where p: "se_lock s = Some (p, Flushed)"
    using step by (auto simp: flush_end_def split: option.splits flush_stage.splits)
  have "channel_part (se_sender s) (se_queue s) (se_batch s) (Some (p, Flushed))"
    using inv p by (simp add: security_inv_def channel_ok_def)
  then have base: "channel_part (se_sender s) (se_queue s) (se_batch s) None"
    unfolding channel_part_def by blast
  have ch: "channel_ok s'" if "se_sender s' = se_sender s" "se_queue s' = se_queue s" "se_batch s' = se_batch s" "se_lock s' = None"
    unfolding channel_ok_def that by (rule base)
  have kept: "security_inv (se_rows s') (under_way s') s'"
    if d: "s' = s\<lparr>se_lock := None, se_rows := filter P (se_rows s), se_stats := st\<rparr>"
      "st_security_events st = filter Q (st_security_events (se_stats s))" for P Q st
  proof -
    have "view_ok st" using inv d(2) by (auto simp: security_inv_def view_ok_def intro: le_trans[OF length_filter_le])
    moreover have "under_way s' = under_way s" using d(1) by (simp add: under_way_def)
    ultimately show ?thesis using inv d(1) ch by (simp add: security_inv_def unique_filter)
  qed
  show ?thesis
  proof (cases ok)
    case False
    then have "s' = s\<lparr>se_lock := None, se_rows := filter (\<lambda>_. True) (se_rows s), se_stats := se_stats s\<rparr>"
      using step p by (auto simp: flush_end_def Let_def)
    then show ?thesis by (rule kept[where Q = "\<lambda>_. True"]) simp
  next
    case True
    show ?thesis
    proof (cases p)
      case ClearEvents
      then have "s' = s\<lparr>se_lock := None, se_rows := filter (\<lambda>_. False) (se_rows s),
          se_stats := (se_stats s)\<lparr>st_security_events := []\<rparr>\<rparr>"
        using step p True by (simp add: flush_end_def Let_def)
      then show ?thesis by (rule kept[where Q = "\<lambda>_. False"]) simp
    next
      case (PruneEvents since)
      then have "s' = s\<lparr>se_lock := None, se_rows := filter (\<lambda>e. since \<le> ev_last e) (se_rows s),
          se_stats := (se_stats s)\<lparr>st_security_events := filter (\<lambda>e. since \<le> ev_last e) (st_security_events (se_stats s))\<rparr>\<rparr>"
        using step p True by (simp add: flush_end_def Let_def prune_event_rows_def)
      then show ?thesis by (rule kept) simp
    qed
  qed
qed

lemma inv_restore:
  assumes inv: "security_inv B R s" and step: "restore_persisted_security_events ok now hours s = Some s'"
  shows "security_inv B R s'"
proof -
  have rows: "\<forall>r\<in>set (se_rows s). timely r" using inv by (simp add: security_inv_def)
  have "view_ok (restore_security_events
      (filter P (recent_security_events n (se_rows s))) st)" for P n st
    by (rule restore_view_ok) (use rows in \<open>auto simp: recent_security_events_def Let_def dest: in_set_dropD\<close>)
  then have "view_ok (se_stats s') \<and> se_rows s' = se_rows s \<and> under_way s' = under_way s \<and> channel_ok s'"
    using step inv
    by (auto simp: restore_persisted_security_events_def security_inv_def under_way_def channel_ok_def split: if_splits cong: option.case_cong)
  then show ?thesis by (intro inv_cong[OF inv]) auto
qed

lemma inv_start:
  assumes inv: "security_inv B R s" and step: "writer_start s = Some s'"
  shows "security_inv B R s'"
proof -
  have b: "se_batch s = None" "se_lock s = None" and s': "s' = s\<lparr>se_sender := True, se_queue := [], se_batch := Some []\<rparr>"
    using step by (cases "se_lock s"; auto simp: writer_start_def split: if_splits)+
  have "se_queue s = []" using inv b by (simp add: security_inv_def channel_ok_def channel_part_def)
  then show ?thesis
    by (intro inv_cong[OF inv]) (use inv b s' in \<open>auto simp: security_inv_def under_way_def channel_ok_def channel_part_def\<close>)
qed

lemma inv_stop:
  assumes inv: "security_inv B R s" and step: "writer_stop s = Some s'"
  shows "security_inv B R s'"
proof -
  have ch: "channel_ok s" and view: "view_ok (se_stats s)" using inv by (auto simp: security_inv_def)
  have free: "se_lock s = None" using step by (cases "se_lock s") (simp_all add: writer_stop_def)
  consider "s' = s" | "s' = s\<lparr>se_sender := False\<rparr>" "se_batch s = None"
    | "s' = s\<lparr>se_sender := False, se_queue := se_queue s @ [StopMessage]\<rparr>" "se_sender s" "se_batch s \<noteq> None"
    using step by (auto simp: writer_stop_def split: if_splits)
  then show ?thesis
  proof cases
    case 2
    then have "channel_ok s'" using ch free by (auto simp: channel_ok_def channel_part_def)
    then show ?thesis by (intro inv_cong[OF inv]) (use 2 view in \<open>simp_all add: under_way_def\<close>)
  next
    case 3
    then have "channel_ok s'" using ch free by (auto simp: channel_ok_def channel_part_def)
    then show ?thesis by (intro inv_cong[OF inv]) (use 3 view in \<open>simp_all add: under_way_def\<close>)
  qed (use inv in simp)
qed

lemma security_run_inv: "security_run B R s \<Longrightarrow> security_inv B R s"
proof (induction rule: security_run.induct)
  case (start rows)
  then show ?case
    by (simp add: security_inv_def security_start_def under_way_def view_ok_def default_stats_def channel_ok_def channel_part_def)
qed (auto intro: inv_worker inv_web inv_web_write inv_writer inv_flush inv_delete inv_restore inv_start inv_stop)

section \<open>Properties\<close>

text \<open>C35. As long as the database works, every security event that is given to be written since the
  start or the last deletion is counted once: for every kind of event the counts in the table, in the
  batch, in the channel and of the web events under way add up to those there were and those given; the
  table has one row per kind; and once the thread has ended nothing is left outside the table but the
  web events under way.  The view never exceeds its 200 entries.\<close>

theorem security_events_conserved:
  assumes "security_run B R s"
  shows "count_of k (se_rows s) + (count_of k (case se_batch s of None \<Rightarrow> [] | Some b \<Rightarrow> b) +
      count_of k (queued (se_queue s)) + count_of k (se_web s)) = count_of k B + count_of k R \<and>
    unique_rows (se_rows s) \<and> (se_batch s = None \<longrightarrow> se_queue s = []) \<and>
    length (st_security_events (se_stats s)) \<le> 200"
proof -
  have inv: "security_inv B R s" by (rule security_run_inv[OF assms])
  then have "count_of k (se_rows s) + count_of k (under_way s) = count_of k B + count_of k R"
    unfolding security_inv_def by blast
  moreover have "count_of k (under_way s) = count_of k (case se_batch s of None \<Rightarrow> [] | Some b \<Rightarrow> b) +
      count_of k (queued (se_queue s)) + count_of k (se_web s)"
    by (simp add: under_way_def add.assoc)
  moreover have "unique_rows (se_rows s)" "se_batch s = None \<longrightarrow> se_queue s = []"
    "length (st_security_events (se_stats s)) \<le> 200"
    using inv by (simp_all add: security_inv_def view_ok_def SECURITY_EVENT_CAPACITY_def channel_ok_def channel_part_def)
  ultimately show ?thesis by simp
qed



section \<open>A sample run\<close>

definition sample_open :: security_system where
  "sample_open = the (writer_start (security_start []))"

definition sample_denial :: stat_event where
  "sample_denial = StatAccessDenied (IpV4 0x0A000001) TransportUdp InBlockedList"

definition sample_recorded :: security_system where
  "sample_recorded = the (record_worker_event (\<lambda>_. ''refused'') ''closed'' 5 sample_denial sample_open)"

definition sample_flushing :: security_system where
  "sample_flushing = the (flush_begin ClearEvents sample_recorded)"

definition sample_flushed :: security_system where
  "sample_flushed = the (writer_round False True (the (writer_round False True sample_flushing)))"

lemma sample_evaluated_once:
  "case writer_start (security_start []) of None \<Rightarrow> False | Some a \<Rightarrow>
   (case record_worker_event (\<lambda>_. ''refused'') ''closed'' 5 sample_denial a of None \<Rightarrow> False | Some b \<Rightarrow>
   (case flush_begin ClearEvents b of None \<Rightarrow> False | Some c \<Rightarrow>
   (case writer_round False True c of None \<Rightarrow> False | Some d \<Rightarrow>
   (case writer_round False True d of None \<Rightarrow> False | Some e \<Rightarrow>
      length (se_rows e) = 1 \<and> se_sender e \<and> se_lock e = Some (ClearEvents, Flushed) \<and>
      (case flush_end True e of None \<Rightarrow> False | Some f \<Rightarrow> True)))))"
  by code_simp

lemma sample_steps:
  "writer_start (security_start []) = Some sample_open \<and>
   record_worker_event (\<lambda>_. ''refused'') ''closed'' 5 sample_denial sample_open = Some sample_recorded \<and>
   flush_begin ClearEvents sample_recorded = Some sample_flushing \<and>
   writer_round False True sample_flushing = Some (the (writer_round False True sample_flushing)) \<and>
   writer_round False True (the (writer_round False True sample_flushing)) = Some sample_flushed \<and>
   length (se_rows sample_flushed) = 1 \<and> se_sender sample_flushed \<and>
   se_lock sample_flushed = Some (ClearEvents, Flushed) \<and>
   flush_end True sample_flushed = Some (the (flush_end True sample_flushed))"
  using sample_evaluated_once
  by (auto simp: sample_open_def sample_recorded_def sample_flushing_def sample_flushed_def split: option.splits)

lemma sample_security_run:
  "security_run [] (accepted_event (\<lambda>_. ''refused'') 5 sample_denial sample_open) sample_flushed"
proof -
  have fits: "fits_i64 5" by (simp add: fits_i64_def)
  note steps = sample_steps
  have "security_run [] [] (security_start [])" by (rule security_run.start) simp_all
  then have "security_run [] [] sample_open" by (rule security_run.open_writer) (use steps in blast)
  then have "security_run [] ([] @ accepted_event (\<lambda>_. ''refused'') 5 sample_denial sample_open) sample_recorded"
    by (rule security_run.worker[OF _ fits]) (use steps in blast)
  then have "security_run [] (accepted_event (\<lambda>_. ''refused'') 5 sample_denial sample_open) sample_flushing"
    unfolding append_Nil by (rule security_run.flush) (use steps in blast)
  then have "security_run [] (accepted_event (\<lambda>_. ''refused'') 5 sample_denial sample_open)
      (the (writer_round False True sample_flushing))"
    by (rule security_run.writer) (use steps in blast)
  then show ?thesis by (rule security_run.writer) (use steps in blast)
qed

theorem security_events_conserved_witness:
  "unique_rows (se_rows sample_flushed) \<and> length (st_security_events (se_stats sample_flushed)) \<le> 200 \<and>
   length (se_rows sample_flushed) = 1"
  using security_events_conserved[OF sample_security_run] sample_steps by blast


text \<open>A web event that is in the view but not yet in the table is lost from the view by a restore.\<close>

lemma restore_drops_web_event:
  "let s1 = the (record_web_admin_security_event 5 WebAuthFailedEvent ''10.0.0.1'' ''wrong'' (security_start []));
       s2 = the (restore_persisted_security_events True 6 24 s1); s3 = the (write_web_event True 0 s2)
   in length (st_security_events (se_stats s1)) = 1 \<and> st_security_events (se_stats s3) = [] \<and> length (se_rows s3) = 1"
  by code_simp

end
