(* ===== verification/Listener.thy ===== *)
theory Listener
  imports WorkerSystem Stats
begin

text \<open>
  \<open>dns/server.rs\<close>: the listeners in front of the workers.  Queries arrive as datagrams or as frames of a
  TCP connection and go to the bounded channels of the workers.  A read of a query from a connection is
  one step, whose polls say for each turn of the loop whether the server stops, whether time is left and
  what the socket does; the loops are a step relation over the shared state.  Opening and configuring
  sockets is left to the environment.  Texts of messages are replaced by constructors.
\<close>

section \<open>Limits\<close>

definition TCP_MAX_CONNECTIONS :: nat where "TCP_MAX_CONNECTIONS = 256"
definition DNS_WORK_QUEUE_CAPACITY :: nat where "DNS_WORK_QUEUE_CAPACITY = 8192"
definition QUERY_LOG_QUEUE_CAPACITY :: nat where "QUERY_LOG_QUEUE_CAPACITY = 16384"
definition QUERY_LOG_BATCH_SIZE :: nat where "QUERY_LOG_BATCH_SIZE = 512"
definition DNS_MIN_WORKERS :: u64 where "DNS_MIN_WORKERS = 4"
definition DNS_MAX_WORKERS :: u64 where "DNS_MAX_WORKERS = 32"

text \<open>\<open>cores\<close>: what \<open>available_parallelism\<close> returns.\<close>

definition dns_worker_count :: "u64 option \<Rightarrow> u64" where
  "dns_worker_count cores =
     max DNS_MIN_WORKERS (min DNS_MAX_WORKERS (case cores of None \<Rightarrow> DNS_MIN_WORKERS | Some n \<Rightarrow> sat_mul n 2))"

definition dns_worker_queue_capacity :: "nat \<Rightarrow> nat" where
  "dns_worker_queue_capacity worker_count = max (DNS_WORK_QUEUE_CAPACITY div max worker_count 1) 1"

section \<open>Reading and writing a connection\<close>

datatype io_error = WouldBlock | TimedOut | ConnectionAborted | ConnectionReset | BrokenPipe | NotConnected | OtherIo string

fun is_client_disconnect :: "io_error \<Rightarrow> bool" where
  "is_client_disconnect ConnectionAborted = True"
| "is_client_disconnect ConnectionReset = True"
| "is_client_disconnect BrokenPipe = True"
| "is_client_disconnect NotConnected = True"
| "is_client_disconnect _ = False"

datatype tcp_read_error = TotalTimeout | ClosedEarly | ReadFailed io_error

text \<open>One turn of the loop: does the server stop, is time left before the deadline, does setting the
  timeout fail, and what does the read do: fail, or deliver up to so many of the bytes that have
  arrived.  A read that delivers nothing is the end of the stream.\<close>

record read_poll =
  po_stop :: bool
  po_time_left :: bool
  po_set_timeout :: "io_error option"
  po_read :: "io_error + nat"

text \<open>\<open>got\<close> is the filled part of the target of \<open>n\<close> bytes, \<open>unread\<close> what the client has sent.
  The result is \<open>Some None\<close> for \<open>Ok(false)\<close>; the outer \<open>None\<close> says the polls end while it still reads.\<close>

fun read_tcp_bytes_until ::
  "read_poll list \<Rightarrow> nat \<Rightarrow> bool \<Rightarrow> packet \<Rightarrow> packet \<Rightarrow>
    ((tcp_read_error + packet option) \<times> read_poll list \<times> packet) option" where
  "read_tcp_bytes_until polls n clean got unread =
     (if n \<le> length got then Some (Inr (Some got), polls, unread)
      else case polls of
        [] \<Rightarrow> None
      | p # rest \<Rightarrow>
          (if po_stop p then Some (Inr None, rest, unread)
           else if \<not> po_time_left p
           then Some (if clean \<and> got = [] then Inr None else Inl TotalTimeout, rest, unread)
           else case po_set_timeout p of
             Some e \<Rightarrow> Some (Inl (ReadFailed e), rest, unread)
           | None \<Rightarrow>
               (case po_read p of
                  Inr k \<Rightarrow>
                    (let chunk = take (min k (n - length got)) unread
                     in if chunk = [] then Some (if clean \<and> got = [] then Inr None else Inl ClosedEarly, rest, unread)
                        else read_tcp_bytes_until rest n clean (got @ chunk) (drop (length chunk) unread))
                | Inl e \<Rightarrow>
                    (if e = WouldBlock \<or> e = TimedOut then read_tcp_bytes_until rest n clean got unread
                     else if is_client_disconnect e then Some (Inr None, rest, unread)
                     else Some (Inl (ReadFailed e), rest, unread)))))"

declare read_tcp_bytes_until.simps [simp del]

definition read_tcp_dns_query ::
  "read_poll list \<Rightarrow> packet \<Rightarrow> ((tcp_read_error + packet option) \<times> read_poll list \<times> packet) option" where
  "read_tcp_dns_query polls unread =
     (case read_tcp_bytes_until polls 2 True [] unread of
        None \<Rightarrow> None
      | Some (Inr (Some len_buf), polls1, unread1) \<Rightarrow>
          (let query_len = unat (from_be len_buf :: u16)
           in if query_len = 0 then Some (Inr None, polls1, unread1)
              else read_tcp_bytes_until polls1 query_len False [] unread1)
      | Some (r, polls1, unread1) \<Rightarrow> Some (r, polls1, unread1))"

datatype tcp_write_error = ClientDisconnected | ResponseTooLong | WriteFailed io_error

text \<open>\<open>failure\<close>: the socket takes so many bytes of the frame and then fails.  The result is what the socket
  took.\<close>

definition write_tcp_dns_response ::
  "(nat \<times> io_error) option \<Rightarrow> packet \<Rightarrow> packet \<times> tcp_write_error option" where
  "write_tcp_dns_response failure response =
     (if 2 ^ 16 \<le> length response then ([], Some ResponseTooLong)
      else let framed = be16 (of_nat (length response)) @ response
        in case failure of
             None \<Rightarrow> (framed, None)
           | Some (k, e) \<Rightarrow>
               (take k framed, Some (if is_client_disconnect e then ClientDisconnected else WriteFailed e)))"

section \<open>The channels of the workers\<close>

text \<open>The channel of each worker: the waiting items, \<open>None\<close> once the worker has ended.\<close>

type_synonym work_queues = "work_item list option list"

datatype dispatch_error = QueuesFull | QueuesDisconnected
datatype try_send = SendOk | SendFull | SendDisconnected

definition try_send_work :: "nat \<Rightarrow> work_item list option \<Rightarrow> try_send" where
  "try_send_work cap queue =
     (case queue of None \<Rightarrow> SendDisconnected | Some items \<Rightarrow> if length items < cap then SendOk else SendFull)"

fun dispatch_loop ::
  "nat \<Rightarrow> work_queues \<Rightarrow> work_item \<Rightarrow> nat \<Rightarrow> nat list \<Rightarrow> bool \<Rightarrow> dispatch_error + (work_queues \<times> nat)" where
  "dispatch_loop cap queues item start [] full = Inl (if full then QueuesFull else QueuesDisconnected)"
| "dispatch_loop cap queues item start (off # offs) full =
     (let i = (start + off) mod length queues
      in case try_send_work cap (queues ! i) of
           SendOk \<Rightarrow> Inr (queues[i := map_option (\<lambda>items. items @ [item]) (queues ! i)], i + 1)
         | SendFull \<Rightarrow> dispatch_loop cap queues item start offs True
         | SendDisconnected \<Rightarrow> dispatch_loop cap queues item start offs full)"

definition dispatch_dns_work ::
  "nat \<Rightarrow> work_queues \<Rightarrow> work_item \<Rightarrow> nat \<Rightarrow> dispatch_error + (work_queues \<times> nat)" where
  "dispatch_dns_work cap queues item next_worker =
     (if queues = [] then Inl QueuesDisconnected
      else dispatch_loop cap queues item (next_worker mod length queues) [0..<length queues] False)"

section \<open>The writer of the query log\<close>

text \<open>What a receive of the writer yields: an entry, nothing in time, or that all senders are gone.\<close>

datatype 'a log_receipt = LogEntry 'a | LogTimeout | LogDisconnected

fun collect_batch :: "'a log_receipt list \<Rightarrow> 'a list \<Rightarrow> 'a list \<times> 'a log_receipt list" where
  "collect_batch [] batch = (batch, [])"
| "collect_batch (r # rs) batch =
     (if QUERY_LOG_BATCH_SIZE \<le> length batch then (batch, r # rs)
      else case r of LogEntry e \<Rightarrow> collect_batch rs (batch @ [e]) | LogTimeout \<Rightarrow> (batch, rs) | LogDisconnected \<Rightarrow> (batch, r # rs))"

lemma collect_batch_rest: "length (snd (collect_batch rs batch)) \<le> length rs"
proof (induction rs arbitrary: batch)
  case (Cons r rs)
  then show ?case by (cases r) (auto simp: le_SucI)
qed simp

lemma collect_batch_shorter: "(batch, rest) = collect_batch rs b \<Longrightarrow> length rest < Suc (length rs)"
  using collect_batch_rest[of rs b] by (metis le_imp_less_Suc snd_conv)

text \<open>The batches handed to the database, in order.  The outer \<open>recv\<close> has no timeout.\<close>

function run_query_log_writer :: "'a log_receipt list \<Rightarrow> 'a list list" where
  "run_query_log_writer [] = []"
| "run_query_log_writer (LogDisconnected # rs) = []"
| "run_query_log_writer (LogTimeout # rs) = run_query_log_writer rs"
| "run_query_log_writer (LogEntry e # rs) =
     (case collect_batch rs [e] of (batch, rest) \<Rightarrow> batch # run_query_log_writer rest)"
  by pat_completeness auto
termination by (relation "measure length") (auto dest: collect_batch_shorter)

section \<open>The server\<close>

datatype server_event =
    UdpReceiveFailed io_error
  | ThreadFailed io_error
  | ConfigureFailed io_error
  | AcceptFailed io_error
  | TcpReadFailed tcp_read_error
  | TcpWriteFailed tcp_write_error
  | ResponseTimeout
  | UdpQueueDrop
  | TcpQueueDrop
  | ConnectionRejected

fun apply_server_event :: "(server_event \<Rightarrow> string) \<Rightarrow> server_event \<Rightarrow> dns_stats \<Rightarrow> dns_stats" where
  "apply_server_event txt UdpQueueDrop s = record_worker_queue_drop (txt UdpQueueDrop) s"
| "apply_server_event txt TcpQueueDrop s = record_worker_queue_drop (txt TcpQueueDrop) s"
| "apply_server_event txt ConnectionRejected s = record_tcp_connection_rejected (txt ConnectionRejected) s"
| "apply_server_event txt e s = record_error (txt e) s"

text \<open>Where the thread of a connection stands: it has its slot and is to be created; it reads; it waits for
  the answer to a query, on a channel named by a number; it returns and will give its slot back; it is gone.\<close>

datatype conn_stage = Spawning | Reading | Waiting nat | Closing | Ended

text \<open>The last three fields are history: what the client sent in all, the queries read, the answers written.\<close>

record tcp_connection =
  tc_client :: ip_addr
  tc_unread :: packet
  tc_out :: packet
  tc_next :: nat
  tc_stage :: conn_stage
  tc_sent :: packet
  tc_queries :: "packet list"
  tc_answers :: "packet list"

text \<open>\<open>sv_udp\<close>: the next worker of each datagram listener, \<open>None\<close> once its thread has ended.\<close>

record server_state =
  sv_capacity :: nat
  sv_queues :: work_queues
  sv_active :: nat
  sv_conns :: "tcp_connection list"
  sv_udp :: "nat option list"
  sv_tickets :: nat
  sv_stop :: bool
  sv_workers :: worker_system
  sv_events :: "server_event list"

definition note_event :: "server_event \<Rightarrow> server_state \<Rightarrow> server_state" where
  "note_event e s = s\<lparr>sv_events := sv_events s @ [e]\<rparr>"

definition set_conn :: "nat \<Rightarrow> tcp_connection \<Rightarrow> server_state \<Rightarrow> server_state" where
  "set_conn i c s = s\<lparr>sv_conns := (sv_conns s)[i := c]\<rparr>"

definition close_conn :: "tcp_connection \<Rightarrow> tcp_connection" where
  "close_conn c = c\<lparr>tc_stage := Closing\<rparr>"

subsection \<open>Datagrams\<close>

definition serve_udp :: "nat \<Rightarrow> io_error + (packet \<times> ip_addr) \<Rightarrow> server_state \<Rightarrow> server_state option" where
  "serve_udp l received s =
     (case get_at (sv_udp s) l of
        Some (Some next_worker) \<Rightarrow>
          if sv_stop s then Some (s\<lparr>sv_udp := (sv_udp s)[l := None]\<rparr>)
          else (case received of
              Inl e \<Rightarrow> Some (if e = WouldBlock \<or> e = TimedOut then s else note_event (UdpReceiveFailed e) s)
            | Inr (datagram, client) \<Rightarrow>
                (let query = take MAX_DNS_PACKET_SIZE datagram;
                     item = \<lparr>wi_query = query, wi_client = client, wi_target = UdpTarget (sv_tickets s)\<rparr>;
                     s1 = s\<lparr>sv_tickets := sv_tickets s + 1\<rparr>
                 in if query = [] then Some s
                    else (case dispatch_dns_work (sv_capacity s) (sv_queues s) item next_worker of
                        Inr (queues, n) \<Rightarrow> Some (s1\<lparr>sv_queues := queues, sv_udp := (sv_udp s)[l := Some n]\<rparr>)
                      | Inl QueuesFull \<Rightarrow> Some (note_event UdpQueueDrop s1)
                      | Inl QueuesDisconnected \<Rightarrow> Some (s1\<lparr>sv_udp := (sv_udp s)[l := None]\<rparr>))))
      | _ \<Rightarrow> None)"

subsection \<open>Connections\<close>

definition try_acquire_tcp_connection_slot :: "nat \<Rightarrow> nat option" where
  "try_acquire_tcp_connection_slot active = (if active < TCP_MAX_CONNECTIONS then Some (active + 1) else None)"

definition serve_tcp :: "io_error + ip_addr \<Rightarrow> server_state \<Rightarrow> server_state option" where
  "serve_tcp accepted s =
     (if sv_stop s then None
      else case accepted of
        Inl e \<Rightarrow> Some (if e = WouldBlock then s else note_event (AcceptFailed e) s)
      | Inr client \<Rightarrow>
          (case try_acquire_tcp_connection_slot (sv_active s) of
             None \<Rightarrow> Some (note_event ConnectionRejected s)
           | Some active \<Rightarrow> Some (s\<lparr>sv_active := active, sv_conns := sv_conns s @
               [\<lparr>tc_client = client, tc_unread = [], tc_out = [], tc_next = 0, tc_stage = Spawning,
                 tc_sent = [], tc_queries = [], tc_answers = []\<rparr>]\<rparr>)))"

text \<open>The thread is created, or not, and its first act is to configure the stream.  When it is not created
  the slot goes with the closure.\<close>

definition spawn_connection :: "nat \<Rightarrow> io_error option \<Rightarrow> io_error option \<Rightarrow> server_state \<Rightarrow> server_state option" where
  "spawn_connection i spawn_error config_error s =
     (case get_at (sv_conns s) i of
        None \<Rightarrow> None
      | Some c \<Rightarrow>
          if tc_stage c \<noteq> Spawning then None
          else (case spawn_error of
              Some e \<Rightarrow> Some (note_event (ThreadFailed e) (set_conn i (close_conn c) s))
            | None \<Rightarrow>
                (case config_error of
                   Some e \<Rightarrow> Some (note_event (ConfigureFailed e) (set_conn i (close_conn c) s))
                 | None \<Rightarrow> Some (set_conn i (c\<lparr>tc_stage := Reading\<rparr>) s))))"

definition release_slot :: "nat \<Rightarrow> server_state \<Rightarrow> server_state option" where
  "release_slot i s =
     (case get_at (sv_conns s) i of
        None \<Rightarrow> None
      | Some c \<Rightarrow> if tc_stage c \<noteq> Closing then None
                  else Some ((set_conn i (c\<lparr>tc_stage := Ended\<rparr>) s)\<lparr>sv_active := sv_active s - 1\<rparr>))"

text \<open>One turn of \<open>handle_tcp_connection\<close> up to the wait for the answer.\<close>

definition serve_query :: "nat \<Rightarrow> read_poll list \<Rightarrow> server_state \<Rightarrow> server_state option" where
  "serve_query i polls s =
     (case get_at (sv_conns s) i of
        None \<Rightarrow> None
      | Some c \<Rightarrow>
          if tc_stage c \<noteq> Reading then None
          else if sv_stop s then Some (set_conn i (close_conn c) s)
          else (case read_tcp_dns_query polls (tc_unread c) of
              None \<Rightarrow> None
            | Some (Inl e, _, rest) \<Rightarrow>
                Some (note_event (TcpReadFailed e) (set_conn i (close_conn (c\<lparr>tc_unread := rest\<rparr>)) s))
            | Some (Inr None, _, rest) \<Rightarrow> Some (set_conn i (close_conn (c\<lparr>tc_unread := rest\<rparr>)) s)
            | Some (Inr (Some query), _, rest) \<Rightarrow>
                (let item = \<lparr>wi_query = query, wi_client = tc_client c, wi_target = TcpTarget (sv_tickets s)\<rparr>;
                     c1 = c\<lparr>tc_unread := rest, tc_queries := tc_queries c @ [query]\<rparr>;
                     s1 = s\<lparr>sv_tickets := sv_tickets s + 1\<rparr>
                 in case dispatch_dns_work (sv_capacity s) (sv_queues s) item (tc_next c) of
                      Inr (queues, n) \<Rightarrow>
                        Some (set_conn i (c1\<lparr>tc_next := n, tc_stage := Waiting (sv_tickets s)\<rparr>) (s1\<lparr>sv_queues := queues\<rparr>))
                    | Inl QueuesFull \<Rightarrow> Some (note_event TcpQueueDrop (set_conn i (close_conn c1) s1))
                    | Inl QueuesDisconnected \<Rightarrow> Some (set_conn i (close_conn c1) s1))))"

text \<open>What the channel of a query holds is what the workers have sent to its target.  A sender is held as
  long as the query is in a queue, with the upstream servers, or waits behind another.\<close>

definition reply_for :: "nat \<Rightarrow> server_state \<Rightarrow> packet option option" where
  "reply_for t s = map_of (replies (sy_worker (sv_workers s))) (TcpTarget t)"

definition queued_items :: "work_queues \<Rightarrow> work_item list" where
  "queued_items queues = concat (map (\<lambda>q. case q of None \<Rightarrow> [] | Some items \<Rightarrow> items) queues)"

definition sender_held :: "nat \<Rightarrow> server_state \<Rightarrow> bool" where
  "sender_held t s \<longleftrightarrow>
     TcpTarget t \<in> wi_target ` set (queued_items (sv_queues s)) \<or>
     TcpTarget t \<in> job_target ` set (sy_jobs (sv_workers s)) \<or>
     TcpTarget t \<in># waiting (ws_pending (sy_worker (sv_workers s)))"

text \<open>The rest of the turn: the wait ends with what the channel holds, with the time limit, or because
  nobody holds a sender; \<open>failure\<close> is what happens to the write.\<close>

datatype wait_end = Received | WaitTimeout | SendersGone

definition write_reply :: "nat \<Rightarrow> tcp_connection \<Rightarrow> (nat \<times> io_error) option \<Rightarrow> packet \<Rightarrow> server_state \<Rightarrow> server_state" where
  "write_reply i c failure response s =
     (case write_tcp_dns_response failure response of
        (bytes, None) \<Rightarrow>
          set_conn i (c\<lparr>tc_out := tc_out c @ bytes, tc_answers := tc_answers c @ [response], tc_stage := Reading\<rparr>) s
      | (bytes, Some ClientDisconnected) \<Rightarrow> set_conn i (close_conn (c\<lparr>tc_out := tc_out c @ bytes\<rparr>)) s
      | (bytes, Some e) \<Rightarrow> note_event (TcpWriteFailed e) (set_conn i (close_conn (c\<lparr>tc_out := tc_out c @ bytes\<rparr>)) s))"

definition answer_query :: "nat \<Rightarrow> wait_end \<Rightarrow> (nat \<times> io_error) option \<Rightarrow> server_state \<Rightarrow> server_state option" where
  "answer_query i wait failure s =
     (case get_at (sv_conns s) i of
        None \<Rightarrow> None
      | Some c \<Rightarrow>
          (case tc_stage c of
             Waiting t \<Rightarrow>
               (case (wait, reply_for t s) of
                  (Received, Some (Some response)) \<Rightarrow> Some (write_reply i c failure response s)
                | (Received, Some None) \<Rightarrow> Some (set_conn i (close_conn c) s)
                | (WaitTimeout, None) \<Rightarrow> Some (note_event ResponseTimeout (set_conn i (close_conn c) s))
                | (SendersGone, None) \<Rightarrow> if sender_held t s then None else Some (set_conn i (close_conn c) s)
                | _ \<Rightarrow> None)
           | _ \<Rightarrow> None))"

subsection \<open>Workers\<close>

text \<open>\<open>dns_worker_loop\<close>: a worker takes the next item of its channel and starts the query; when the server
  stops it ends, and its channel is closed.\<close>

definition dns_worker_loop ::
  "nat \<Rightarrow> worker_env \<Rightarrow> worker_context \<Rightarrow> filter_runtime \<Rightarrow> server_state \<Rightarrow> server_state option" where
  "dns_worker_loop i env ctx f s =
     (case get_at (sv_queues s) i of
        Some (Some items) \<Rightarrow>
          if sv_stop s then Some (s\<lparr>sv_queues := (sv_queues s)[i := None]\<rparr>)
          else (case items of
              [] \<Rightarrow> Some s
            | item # rest \<Rightarrow>
                Some (s\<lparr>sv_queues := (sv_queues s)[i := Some rest],
                        sv_workers := system_submit env ctx f item (sv_workers s)\<rparr>))
      | _ \<Rightarrow> None)"

text \<open>\<open>arrives\<close> is the client; \<open>works\<close> is the end of a query or a refresh, which takes nothing from a channel.\<close>

inductive server_step :: "(cache_key \<Rightarrow> u64) \<Rightarrow> server_state \<Rightarrow> server_state \<Rightarrow> bool" for hash :: "cache_key \<Rightarrow> u64" where
  arrives: "get_at (sv_conns s) i = Some c \<Longrightarrow>
    server_step hash s (set_conn i (c\<lparr>tc_unread := tc_unread c @ bytes, tc_sent := tc_sent c @ bytes\<rparr>) s)"
| datagram: "serve_udp l received s = Some s' \<Longrightarrow> server_step hash s s'"
| accepts: "serve_tcp accepted s = Some s' \<Longrightarrow> server_step hash s s'"
| spawns: "spawn_connection i e e' s = Some s' \<Longrightarrow> server_step hash s s'"
| reads: "serve_query i polls s = Some s' \<Longrightarrow> server_step hash s s'"
| answers: "answer_query i wait failure s = Some s' \<Longrightarrow> server_step hash s s'"
| releases: "release_slot i s = Some s' \<Longrightarrow> server_step hash s s'"
| takes: "env_ok hash False env \<Longrightarrow> dns_worker_loop i env ctx f s = Some s' \<Longrightarrow> server_step hash s s'"
| works: "query_step hash False (sv_workers s) w \<Longrightarrow> sy_clients w = sy_clients (sv_workers s) \<Longrightarrow>
    server_step hash s (s\<lparr>sv_workers := w\<rparr>)"
| stops: "server_step hash s (s\<lparr>sv_stop := True\<rparr>)"

definition server_start :: "u64 option \<Rightarrow> nat \<Rightarrow> client_access \<Rightarrow> cache_store option \<Rightarrow> server_state" where
  "server_start cores listeners access cache =
     (let worker_count = unat (dns_worker_count cores)
      in \<lparr>sv_capacity = dns_worker_queue_capacity worker_count, sv_queues = replicate worker_count (Some []),
          sv_active = 0, sv_conns = [], sv_udp = replicate listeners (Some 0), sv_tickets = 0, sv_stop = False,
          sv_workers = system_start access cache PENDING_QUERY_SHARDS, sv_events = []\<rparr>)"

inductive server_reachable :: "(cache_key \<Rightarrow> u64) \<Rightarrow> server_state \<Rightarrow> bool" for hash :: "cache_key \<Rightarrow> u64" where
  start: "cache_ok cache \<Longrightarrow> server_reachable hash (server_start cores listeners access cache)"
| step: "server_reachable hash s \<Longrightarrow> server_step hash s s' \<Longrightarrow> server_reachable hash s'"

section \<open>Starting the server\<close>

datatype server_start_error =
    ConfigRefused config_error
  | ConfigUnreadable
  | BindFailed socket_addr
  | MonitoringFailed

text \<open>\<open>can_bind\<close>: whether the datagram and the stream socket of an address can be opened and configured.\<close>

definition preflight_listeners :: "(socket_addr \<Rightarrow> bool) \<Rightarrow> app_config \<Rightarrow> server_start_error option" where
  "preflight_listeners can_bind config =
     (case listen_socket_addrs config of
        Inl e \<Rightarrow> Some (ConfigRefused e)
      | Inr addrs \<Rightarrow> map_option BindFailed (List.find (\<lambda>a. \<not> can_bind a) addrs))"

definition prepare_monitoring :: "(socket_addr \<Rightarrow> bool) \<Rightarrow> app_config \<Rightarrow> server_start_error option" where
  "prepare_monitoring can_bind config =
     (if \<not> ac_monitoring_api_enabled config then None
      else case monitoring_api_socket_addr config of
        Inl e \<Rightarrow> Some (ConfigRefused e)
      | Inr addr \<Rightarrow> if can_bind addr then None else Some MonitoringFailed)"

definition DNS_CACHE_SHARDS :: nat where "DNS_CACHE_SHARDS = 64"

text \<open>The server, and what its workers share.  The sockets to the upstream servers are opened later.\<close>

definition start_with_filter_runtime ::
  "url_parser \<Rightarrow> (socket_addr \<Rightarrow> bool) \<Rightarrow> u64 option \<Rightarrow> app_config \<Rightarrow> u64 \<Rightarrow>
    server_start_error + (server_state \<times> worker_context)" where
  "start_with_filter_runtime url_parse can_bind cores config paused_until =
     (case validate url_parse config of
        Some e \<Rightarrow> Inl (ConfigRefused e)
      | None \<Rightarrow>
          (case (listen_socket_addrs config, parse_bootstrap_servers (ac_bootstrap_dns config),
                 parse_upstream_servers url_parse (ac_upstream_dns config) (ac_allow_insecure_http config),
                 parse_optional_upstream_servers url_parse (ac_fallback_dns config) (ac_allow_insecure_http config),
                 routes_from_config url_parse config,
                 access_from_config (ac_allowed_clients config) (ac_blocked_clients config)
                   (ac_rate_limit_per_second config)) of
             (Inr addrs, Inr _, Inr _, Inr _, Inr routes, Inr access) \<Rightarrow>
               (let cfg = cache_config_of config;
                    cache = store_from_config cfg DNS_CACHE_SHARDS
                in case preflight_listeners can_bind config of
                     Some e \<Rightarrow> Inl e
                   | None \<Rightarrow>
                       (case prepare_monitoring can_bind config of
                          Some e \<Rightarrow> Inl e
                        | None \<Rightarrow> Inr
                            (server_start cores (length addrs) access cache,
                             \<lparr>wc_routes = routes, wc_refuse_any = ac_refuse_any config,
                              wc_private_reverse = ac_private_reverse_dns_enabled config,
                              wc_paused_until = paused_until,
                              wc_cache_config = map_option (\<lambda>_. cfg) cache,
                              wc_persistence = (ac_query_log_enabled config \<or> ac_statistics_enabled config),
                              wc_query_log = ac_query_log_enabled config,
                              wc_statistics = ac_statistics_enabled config,
                              wc_anonymize = ac_anonymize_client_ip config,
                              wc_detailed = (\<not> ac_statistics_enabled config)\<rparr>)))
           | _ \<Rightarrow> Inl ConfigUnreadable))"

end
