(* ===== verification/ListenerSpec.thy ===== *)
theory ListenerSpec
  imports Listener ConfigSpec CacheSpec
begin

text \<open>
  What the listeners promise: frames are read back however the network cuts them, a query that is
  dispatched is in one channel that had room, and in every run of the whole server the bytes a TCP client
  gets are frames that answer its queries in their order.
\<close>

section \<open>Frames\<close>

definition tcp_frame :: "packet \<Rightarrow> packet" where
  "tcp_frame p = be16 (of_nat (length p)) @ p"

lemma be16_from_be: "length xs = 2 \<Longrightarrow> be16 (from_be xs) = xs"
proof -
  assume "length xs = 2"
  then obtain a b where xs: "xs = [a, b]" by (auto simp: length_Suc_conv numeral_2_eq_2)
  have "ucast (drop_bit 8 (from_be [a, b] :: u16)) = a"
    by (rule bit_eqI) (auto simp: from_be_def bit_simps dest: bit_imp_le_length)
  moreover have "ucast (from_be [a, b] :: u16) = b"
    by (rule bit_eqI) (auto simp: from_be_def bit_simps dest: bit_imp_le_length)
  ultimately show ?thesis by (simp add: xs be16_def)
qed

lemma unat_length16: "length p < 2 ^ 16 \<Longrightarrow> unat (of_nat (length p) :: u16) = length p"
  by (simp add: unat_of_nat take_bit_nat_eq_self_iff)

lemma read_bytes_spec:
  assumes "read_tcp_bytes_until polls n clean got unread = Some (r, polls', unread')" and "length got \<le> n"
  shows "\<exists>ys. unread = ys @ unread' \<and> (\<forall>bs. r = Inr (Some bs) \<longrightarrow> bs = got @ ys \<and> length bs = n)"
  using assms
proof (induction polls arbitrary: got unread)
  case Nil
  then show ?case by (auto simp: read_tcp_bytes_until.simps[of "[]"] split: if_splits)
next
  case (Cons p rest)
  note unfold = Cons.prems(1)[unfolded read_tcp_bytes_until.simps[of "p # rest"]]
  show ?case
  proof (cases "n \<le> length got \<or> po_stop p \<or> \<not> po_time_left p \<or> po_set_timeout p \<noteq> None")
    case True
    then show ?thesis using unfold Cons.prems(2) by (auto split: if_splits)
  next
    case False
    show ?thesis
    proof (cases "po_read p")
      case (Inl e)
      then show ?thesis using unfold False Cons.IH[of got unread] Cons.prems(2) by (auto split: if_splits)
    next
      case (Inr k)
      define chunk where "chunk = take (min k (n - length got)) unread"
      have un: "unread = chunk @ drop (length chunk) unread"
        unfolding chunk_def by (metis append_take_drop_id length_take min.commute take_all_iff take_take nat_le_linear min.absorb1)
      show ?thesis
      proof (cases "chunk = []")
        case True
        then show ?thesis using unfold False Inr by (auto simp: chunk_def Let_def split: if_splits)
      next
        case F: False
        have "read_tcp_bytes_until (p # rest) n clean got unread =
            read_tcp_bytes_until rest n clean (got @ chunk) (drop (length chunk) unread)"
          using False Inr F by (auto simp: read_tcp_bytes_until.simps[of "p # rest"] chunk_def Let_def min_def)
        then have "read_tcp_bytes_until rest n clean (got @ chunk) (drop (length chunk) unread) = Some (r, polls', unread')"
          using Cons.prems(1) by simp
        moreover have "length (got @ chunk) \<le> n"
        proof -
          have "length chunk \<le> n - length got" by (simp add: chunk_def)
          moreover have "length got \<le> n" using False by auto
          ultimately show ?thesis by simp
        qed
        ultimately obtain ys where ys: "drop (length chunk) unread = ys @ unread'"
          "\<forall>bs. r = Inr (Some bs) \<longrightarrow> bs = (got @ chunk) @ ys \<and> length bs = n"
          using Cons.IH by blast
        then show ?thesis using un by (intro exI[of _ "chunk @ ys"]) (metis append.assoc)
      qed
    qed
  qed
qed

lemma read_query_spec:
  assumes "read_tcp_dns_query polls unread = Some (r, polls', unread')"
  shows "\<exists>ys. unread = ys @ unread'"
    and "r = Inr (Some query) \<Longrightarrow> unread = tcp_frame query @ unread' \<and> query \<noteq> [] \<and> length query < 2 ^ 16"
proof -
  obtain r1 p1 u1 where one: "read_tcp_bytes_until polls 2 True [] unread = Some (r1, p1, u1)"
    using assms by (auto simp: read_tcp_dns_query_def split: option.splits)
  obtain ys where ys: "unread = ys @ u1" "\<forall>bs. r1 = Inr (Some bs) \<longrightarrow> bs = ys \<and> length bs = 2"
    using read_bytes_spec[OF one] by auto
  have "(\<exists>ys. unread = ys @ unread') \<and>
    (r = Inr (Some query) \<longrightarrow> unread = tcp_frame query @ unread' \<and> query \<noteq> [] \<and> length query < 2 ^ 16)"
  proof (cases "\<exists>bs. r1 = Inr (Some bs) \<and> unat (from_be bs :: u16) \<noteq> 0")
    case False
    then have "r = Inr None \<or> r = r1 \<and> (\<forall>bs. r1 \<noteq> Inr (Some bs))" "unread' = u1"
      using assms one by (auto simp: read_tcp_dns_query_def Let_def split: sum.splits option.splits if_splits)
    then show ?thesis using ys by auto
  next
    case True
    then obtain bs where bs: "r1 = Inr (Some bs)" "unat (from_be bs :: u16) \<noteq> 0" by blast
    then have two: "read_tcp_bytes_until p1 (unat (from_be bs :: u16)) False [] u1 = Some (r, polls', unread')"
      using assms one by (simp add: read_tcp_dns_query_def Let_def)
    obtain zs where zs: "u1 = zs @ unread'" "\<forall>q. r = Inr (Some q) \<longrightarrow> q = zs \<and> length q = unat (from_be bs :: u16)"
      using read_bytes_spec[OF two] by auto
    have len2: "length bs = 2" "ys = bs" using ys(2) bs(1) by auto
    have "tcp_frame query = ys @ query" "query \<noteq> []" "length query < 2 ^ 16" if q: "r = Inr (Some query)"
    proof -
      have len: "length query = unat (from_be bs :: u16)" using zs(2) q by blast
      then show "query \<noteq> []" using bs(2) by auto
      have "(of_nat (length query) :: u16) = from_be bs" using len by simp
      then show "tcp_frame query = ys @ query" using len2 be16_from_be[of bs] by (simp add: tcp_frame_def)
      show "length query < 2 ^ 16" using len unsigned_less[of "from_be bs :: u16"] by simp
    qed
    then show ?thesis using ys bs(1) zs by auto
  qed
  then show "\<exists>ys. unread = ys @ unread'"
    and "r = Inr (Some query) \<Longrightarrow> unread = tcp_frame query @ unread' \<and> query \<noteq> [] \<and> length query < 2 ^ 16" by blast+
qed

text \<open>Polls that never stop, have time and do not fail; a read that finds data delivers at least a byte.\<close>

definition calm_poll :: "read_poll \<Rightarrow> bool" where
  "calm_poll p \<longleftrightarrow> \<not> po_stop p \<and> po_time_left p \<and> po_set_timeout p = None \<and>
     po_read p \<noteq> Inr 0 \<and> (\<forall>e. po_read p = Inl e \<longrightarrow> e = WouldBlock \<or> e = TimedOut)"

definition deliveries :: "read_poll list \<Rightarrow> nat" where
  "deliveries polls = length (filter (\<lambda>p. \<exists>k. po_read p = Inr k) polls)"

lemma read_bytes_calm:
  assumes "list_all calm_poll polls" and "length got \<le> n" and "n \<le> length got + length unread"
    and "n - length got \<le> deliveries polls"
  shows "\<exists>polls'. read_tcp_bytes_until polls n clean got unread =
      Some (Inr (Some (got @ take (n - length got) unread)), polls', drop (n - length got) unread) \<and>
    list_all calm_poll polls' \<and> deliveries polls \<le> deliveries polls' + (n - length got)"
  using assms
proof (induction polls arbitrary: got unread)
  case Nil
  then have "n \<le> length got" by (simp add: deliveries_def)
  then show ?case by (simp add: read_tcp_bytes_until.simps[of "[]"] deliveries_def)
next
  case (Cons p rest)
  show ?case
  proof (cases "n \<le> length got")
    case True
    then show ?thesis using Cons.prems by (simp add: read_tcp_bytes_until.simps[of "p # rest"])
  next
    case False
    have calm: "calm_poll p" "list_all calm_poll rest" using Cons.prems(1) by simp_all
    show ?thesis
    proof (cases "po_read p")
      case (Inl e)
      then have "deliveries (p # rest) = deliveries rest" by (simp add: deliveries_def)
      moreover have "read_tcp_bytes_until (p # rest) n clean got unread = read_tcp_bytes_until rest n clean got unread"
        using calm(1) False Inl by (auto simp: read_tcp_bytes_until.simps[of "p # rest"] calm_poll_def)
      ultimately show ?thesis using Cons.IH[OF calm(2) Cons.prems(2,3)] Cons.prems(4) by simp
    next
      case (Inr k)
      define m where "m = min k (n - length got)"
      have m: "0 < m" "m \<le> n - length got" using calm(1) Inr False by (auto simp: m_def calm_poll_def)
      have len: "length (take m unread) = m" using m Cons.prems(3) by simp
      have d: "deliveries (p # rest) = deliveries rest + 1" using Inr by (simp add: deliveries_def)
      have "take m unread \<noteq> []" using len m(1) by auto
      then have step: "read_tcp_bytes_until (p # rest) n clean got unread =
          read_tcp_bytes_until rest n clean (got @ take m unread) (drop m unread)"
        using calm(1) False Inr len by (auto simp: read_tcp_bytes_until.simps[of "p # rest"] calm_poll_def m_def Let_def)
      have sub: "n - length (got @ take m unread) = n - length got - m" using len by simp
      have "\<exists>polls'. read_tcp_bytes_until rest n clean (got @ take m unread) (drop m unread) =
          Some (Inr (Some ((got @ take m unread) @ take (n - length got - m) (drop m unread))), polls',
            drop (n - length got - m) (drop m unread)) \<and>
          list_all calm_poll polls' \<and> deliveries rest \<le> deliveries polls' + (n - length got - m)"
        using Cons.IH[OF calm(2), of "got @ take m unread" "drop m unread"] Cons.prems m len d unfolding sub by simp
      moreover have "take m unread @ take (n - length got - m) (drop m unread) = take (n - length got) unread"
        using m(2) by (metis le_add_diff_inverse take_add)
      moreover have "drop (n - length got - m) (drop m unread) = drop (n - length got) unread"
        using m(2) by (metis drop_drop le_add_diff_inverse2)
      ultimately show ?thesis unfolding step using d m by (auto simp: append.assoc)
    qed
  qed
qed

lemma read_query_calm:
  assumes "list_all calm_poll polls" and "query \<noteq> []" and "length query < 2 ^ 16"
    and "2 + length query \<le> deliveries polls"
  shows "\<exists>polls'. read_tcp_dns_query polls (tcp_frame query @ later) = Some (Inr (Some query), polls', later) \<and>
    list_all calm_poll polls' \<and> deliveries polls \<le> deliveries polls' + (2 + length query)"
proof -
  let ?u = "tcp_frame query @ later" and ?len = "be16 (of_nat (length query)) :: packet"
  have "2 \<le> length ([] :: packet) + length ?u" by (simp add: tcp_frame_def)
  moreover have "2 - length ([] :: packet) \<le> deliveries polls" using assms(4) by simp
  ultimately obtain p1 where one: "read_tcp_bytes_until polls 2 True [] ?u = Some (Inr (Some ?len), p1, query @ later)"
    "list_all calm_poll p1" "deliveries polls \<le> deliveries p1 + 2"
    using read_bytes_calm[OF assms(1), of "[]" 2 ?u True] by (auto simp: tcp_frame_def)
  have "length query \<le> deliveries p1" using one(3) assms(4) by simp
  then obtain p2 where two: "read_tcp_bytes_until p1 (length query) False [] (query @ later) = Some (Inr (Some query), p2, later)"
    "list_all calm_poll p2" "deliveries p1 \<le> deliveries p2 + length query"
    using read_bytes_calm[OF one(2), of "[]" "length query" "query @ later" False] by auto
  have "unat (from_be ?len :: u16) = length query" using unat_length16[OF assms(3)] by simp
  then have "read_tcp_dns_query polls ?u = Some (Inr (Some query), p2, later)"
    using one(1) two(1) assms(2) by (simp add: read_tcp_dns_query_def Let_def)
  then show ?thesis using two(2,3) one(3) by auto
qed

text \<open>Reading one query after the other, as the loop of the connection does between answers.\<close>

fun read_queries :: "nat \<Rightarrow> read_poll list \<Rightarrow> packet \<Rightarrow> (packet list \<times> packet) option" where
  "read_queries 0 polls unread = Some ([], unread)"
| "read_queries (Suc n) polls unread =
     (case read_tcp_dns_query polls unread of
        Some (Inr (Some query), polls', unread') \<Rightarrow>
          map_option (\<lambda>(queries, rest). (query # queries, rest)) (read_queries n polls' unread')
      | _ \<Rightarrow> None)"

lemma write_frame:
  "length p < 2 ^ 16 \<Longrightarrow> write_tcp_dns_response None p = (tcp_frame p, None)"
  by (simp add: write_tcp_dns_response_def tcp_frame_def Let_def)

lemma read_queries_calm:
  assumes "list_all calm_poll polls" and "\<forall>q\<in>set queries. q \<noteq> [] \<and> length q < 2 ^ 16"
    and "length (concat (map tcp_frame queries)) \<le> deliveries polls"
  shows "read_queries (length queries) polls (concat (map tcp_frame queries) @ later) = Some (queries, later)"
  using assms
proof (induction queries arbitrary: polls)
  case (Cons q qs)
  have len: "length (concat (map tcp_frame (q # qs))) = 2 + length q + length (concat (map tcp_frame qs))"
    by (simp add: tcp_frame_def)
  then have "2 + length q \<le> deliveries polls" using Cons.prems(3) by linarith
  then obtain polls' where r: "read_tcp_dns_query polls (tcp_frame q @ concat (map tcp_frame qs) @ later) =
      Some (Inr (Some q), polls', concat (map tcp_frame qs) @ later)"
    "list_all calm_poll polls'" "deliveries polls \<le> deliveries polls' + (2 + length q)"
    using read_query_calm[OF Cons.prems(1), of q "concat (map tcp_frame qs) @ later"] Cons.prems(2) by auto
  have "length (concat (map tcp_frame qs)) \<le> deliveries polls'" using len Cons.prems(3) r(3) by linarith
  then have "read_queries (length qs) polls' (concat (map tcp_frame qs) @ later) = Some (qs, later)"
    using Cons.IH[OF r(2)] Cons.prems(2) by simp
  then show ?case using r(1) by simp
qed simp

section \<open>Dispatching\<close>

definition has_room :: "nat \<Rightarrow> work_queues \<Rightarrow> nat \<Rightarrow> bool" where
  "has_room cap queues i \<longleftrightarrow> i < length queues \<and> (\<exists>items. queues ! i = Some items \<and> length items < cap)"

lemma try_send_room: "i < length queues \<Longrightarrow> try_send_work cap (queues ! i) = SendOk \<longleftrightarrow> has_room cap queues i"
  by (auto simp: try_send_work_def has_room_def split: option.splits)

text \<open>The item is at the end of the first channel in turn that has room, or no channel has; then the
  error tells whether one is still open.\<close>

definition dispatch_ok ::
  "nat \<Rightarrow> work_queues \<Rightarrow> work_item \<Rightarrow> (nat \<Rightarrow> nat) \<Rightarrow> nat list \<Rightarrow> bool \<Rightarrow> dispatch_error + (work_queues \<times> nat) \<Rightarrow> bool" where
  "dispatch_ok cap queues item at offs full r =
     (case r of
        Inr (queues', n) \<Rightarrow>
          (\<exists>k<length offs. n = at (offs ! k) + 1 \<and> has_room cap queues (at (offs ! k)) \<and>
             queues' = queues[at (offs ! k) := map_option (\<lambda>items. items @ [item]) (queues ! at (offs ! k))] \<and>
             (\<forall>j<k. \<not> has_room cap queues (at (offs ! j))))
      | Inl e \<Rightarrow> (\<forall>off\<in>set offs. \<not> has_room cap queues (at off)) \<and>
          (e = QueuesFull \<longleftrightarrow> full \<or> (\<exists>off\<in>set offs. queues ! at off \<noteq> None)))"

lemma dispatch_skip:
  assumes "\<not> has_room cap queues (at off)" and "dispatch_ok cap queues item at offs (full \<or> queues ! at off \<noteq> None) r"
  shows "dispatch_ok cap queues item at (off # offs) full r"
proof (cases r)
  case (Inl e)
  then show ?thesis using assms by (auto simp: dispatch_ok_def)
next
  case (Inr p)
  obtain queues' n where p: "p = (queues', n)" by (cases p)
  obtain k where "k < length offs" "n = at (offs ! k) + 1" "has_room cap queues (at (offs ! k))"
    "queues' = queues[at (offs ! k) := map_option (\<lambda>items. items @ [item]) (queues ! at (offs ! k))]"
    "\<forall>j<k. \<not> has_room cap queues (at (offs ! j))"
    using assms(2) Inr p by (auto simp: dispatch_ok_def)
  then show ?thesis unfolding dispatch_ok_def Inr p sum.case prod.case
    using assms(1) by (intro exI[of _ "Suc k"]) (auto simp: less_Suc_eq_0_disj)
qed

lemma dispatch_loop_ok:
  assumes "queues \<noteq> []"
  shows "dispatch_ok cap queues item (\<lambda>off. (start + off) mod length queues) offs full
    (dispatch_loop cap queues item start offs full)"
proof (induction offs arbitrary: full)
  case Nil
  then show ?case by (simp add: dispatch_ok_def)
next
  case (Cons off offs)
  let ?at = "\<lambda>off. (start + off) mod length queues"
  have room: "try_send_work cap (queues ! ?at off) = SendOk \<longleftrightarrow> has_room cap queues (?at off)"
    using assms by (intro try_send_room) simp
  show ?case
  proof (cases "has_room cap queues (?at off)")
    case True
    then have "try_send_work cap (queues ! ?at off) = SendOk" using room by simp
    then show ?thesis using True by (auto simp: dispatch_ok_def Let_def intro!: exI[of _ 0])
  next
    case False
    have "dispatch_loop cap queues item start (off # offs) full =
        dispatch_loop cap queues item start offs (full \<or> queues ! ?at off \<noteq> None)"
      using False room by (auto simp: try_send_work_def Let_def split: option.splits if_splits)
    then show ?thesis using dispatch_skip[OF False Cons.IH] by simp
  qed
qed

lemma rotation_covers:
  assumes "i < n"
  shows "\<exists>off<n. ((start :: nat) mod n + off) mod n = i"
proof -
  have "start mod n < n" using assms by simp
  then have "start mod n \<le> i + n" by linarith
  then have "(start mod n + (i + n - start mod n) mod n) mod n = i" using assms by (simp add: mod_add_right_eq)
  then show ?thesis using assms by (intro exI[of _ "(i + n - start mod n) mod n"]) simp
qed

lemma dispatch_spec:
  "case dispatch_dns_work cap queues item next_worker of
     Inr (queues', n) \<Rightarrow> (\<exists>i. n = i + 1 \<and> has_room cap queues i \<and>
       queues' = queues[i := map_option (\<lambda>items. items @ [item]) (queues ! i)])
   | Inl e \<Rightarrow> (\<forall>i. \<not> has_room cap queues i) \<and> (e = QueuesFull \<longleftrightarrow> (\<exists>items. Some items \<in> set queues))"
proof (cases "queues = []")
  case True
  then show ?thesis by (simp add: dispatch_dns_work_def has_room_def)
next
  case False
  let ?at = "\<lambda>off. (next_worker mod length queues + off) mod length queues"
  have ok: "dispatch_ok cap queues item ?at [0..<length queues] False (dispatch_dns_work cap queues item next_worker)"
    using dispatch_loop_ok[OF False] False by (simp add: dispatch_dns_work_def)
  have cover: "\<exists>off<length queues. ?at off = i" if "i < length queues" for i
    using rotation_covers[OF that] .
  show ?thesis
  proof (cases "dispatch_dns_work cap queues item next_worker")
    case (Inl e)
    have none: "\<not> has_room cap queues i" for i
    proof (cases "i < length queues")
      case True
      then obtain off where "off < length queues" "?at off = i" using cover by blast
      then show ?thesis using ok Inl by (fastforce simp: dispatch_ok_def)
    qed (simp add: has_room_def)
    have "(\<exists>off\<in>set [0..<length queues]. queues ! ?at off \<noteq> None) \<longleftrightarrow> (\<exists>i<length queues. queues ! i \<noteq> None)"
      using cover False by (metis atLeast0LessThan atLeast_upt lessThan_iff length_greater_0_conv mod_less_divisor)
    moreover have "(\<exists>i<length queues. queues ! i \<noteq> None) \<longleftrightarrow> (\<exists>items. Some items \<in> set queues)"
      by (metis in_set_conv_nth not_None_eq)
    ultimately show ?thesis using ok Inl none by (simp add: dispatch_ok_def)
  next
    case (Inr p)
    then show ?thesis using ok by (auto simp: dispatch_ok_def)
  qed
qed

section \<open>The invariant of the server\<close>

fun ticket_of :: "response_target \<Rightarrow> nat" where
  "ticket_of (UdpTarget n) = n"
| "ticket_of (TcpTarget n) = n"

definition valid_answer :: "packet \<Rightarrow> packet \<Rightarrow> bool" where
  "valid_answer query response \<longleftrightarrow> validate_response_for_query query response = Inr ()"

text \<open>Where a query with a target is: in a channel, or known to the workers; nowhere twice, and only
  targets that were handed out.\<close>

definition copies :: "server_state \<Rightarrow> response_target \<Rightarrow> nat" where
  "copies s t = count (image_mset wi_target (mset (queued_items (sv_queues s)))) t +
     (if sy_clients (sv_workers s) t = None then 0 else 1)"

definition asks_for :: "server_state \<Rightarrow> nat \<Rightarrow> packet \<Rightarrow> bool" where
  "asks_for s t q \<longleftrightarrow>
     (\<forall>item\<in>set (queued_items (sv_queues s)). wi_target item = TcpTarget t \<longrightarrow> wi_query item = q) \<and>
     (\<forall>q'. sy_clients (sv_workers s) (TcpTarget t) = Some q' \<longrightarrow> q' = q)"

definition conn_open :: "tcp_connection \<Rightarrow> bool" where
  "conn_open c \<longleftrightarrow> tc_stage c \<noteq> Closing \<and> tc_stage c \<noteq> Ended"

text \<open>The history of a connection: what it read are frames at the start of what was sent, what it wrote
  are frames that answer them in order, and behind them at most a part of the next answer when a write
  failed.\<close>

definition conn_ok :: "nat \<Rightarrow> (nat \<Rightarrow> packet \<Rightarrow> bool) \<Rightarrow> tcp_connection \<Rightarrow> bool" where
  "conn_ok tickets asked c \<longleftrightarrow>
     (\<exists>rest. tc_sent c = concat (map tcp_frame (tc_queries c)) @ rest \<and> (conn_open c \<longrightarrow> rest = tc_unread c)) \<and>
     (\<forall>q\<in>set (tc_queries c). q \<noteq> [] \<and> length q < 2 ^ 16) \<and>
     list_all2 valid_answer (take (length (tc_answers c)) (tc_queries c)) (tc_answers c) \<and>
     (\<exists>part. tc_out c = concat (map tcp_frame (tc_answers c)) @ part \<and> (conn_open c \<longrightarrow> part = []) \<and>
        (part \<noteq> [] \<longrightarrow> (\<exists>p k. length (tc_answers c) < length (tc_queries c) \<and>
           valid_answer (tc_queries c ! length (tc_answers c)) p \<and> part = take k (tcp_frame p)))) \<and>
     (case tc_stage c of
        Waiting t \<Rightarrow> length (tc_queries c) = Suc (length (tc_answers c)) \<and> t < tickets \<and> asked t (last (tc_queries c))
      | Spawning \<Rightarrow> length (tc_queries c) = length (tc_answers c)
      | Reading \<Rightarrow> length (tc_queries c) = length (tc_answers c)
      | _ \<Rightarrow> length (tc_queries c) \<le> Suc (length (tc_answers c)))"

definition server_inv :: "(cache_key \<Rightarrow> u64) \<Rightarrow> server_state \<Rightarrow> bool" where
  "server_inv hash s \<longleftrightarrow>
     worker_reachable hash False (sv_workers s) \<and>
     (\<forall>items. Some items \<in> set (sv_queues s) \<longrightarrow> length items \<le> sv_capacity s) \<and>
     (\<forall>t. copies s t \<le> (if ticket_of t < sv_tickets s then 1 else 0)) \<and>
     (\<forall>c\<in>set (sv_conns s). conn_ok (sv_tickets s) (asks_for s) c) \<and>
     sv_active s = length (filter (\<lambda>c. tc_stage c \<noteq> Ended) (sv_conns s)) \<and> sv_active s \<le> TCP_MAX_CONNECTIONS \<and>
     (\<not> sv_stop s \<longrightarrow> (\<forall>c\<in>set (sv_conns s). \<forall>t. tc_stage c = Waiting t \<longrightarrow> copies s (TcpTarget t) = 1))"

lemma server_invD:
  assumes "server_inv hash s"
  shows "worker_reachable hash False (sv_workers s)"
    and "Some items \<in> set (sv_queues s) \<Longrightarrow> length items \<le> sv_capacity s"
    and "copies s t \<le> (if ticket_of t < sv_tickets s then 1 else 0)"
    and "c \<in> set (sv_conns s) \<Longrightarrow> conn_ok (sv_tickets s) (asks_for s) c"
    and "sv_active s = length (filter (\<lambda>c. tc_stage c \<noteq> Ended) (sv_conns s))" and "sv_active s \<le> TCP_MAX_CONNECTIONS"
    and "\<not> sv_stop s \<Longrightarrow> c \<in> set (sv_conns s) \<Longrightarrow> tc_stage c = Waiting n \<Longrightarrow> copies s (TcpTarget n) = 1"
  using assms by (auto simp: server_inv_def)

lemma server_fields [simp]:
  "sv_capacity (note_event e s) = sv_capacity s" "sv_queues (note_event e s) = sv_queues s"
  "sv_active (note_event e s) = sv_active s" "sv_conns (note_event e s) = sv_conns s"
  "sv_tickets (note_event e s) = sv_tickets s" "sv_stop (note_event e s) = sv_stop s"
  "sv_workers (note_event e s) = sv_workers s"
  "sv_capacity (set_conn i c s) = sv_capacity s" "sv_queues (set_conn i c s) = sv_queues s"
  "sv_active (set_conn i c s) = sv_active s" "sv_conns (set_conn i c s) = (sv_conns s)[i := c]"
  "sv_tickets (set_conn i c s) = sv_tickets s" "sv_stop (set_conn i c s) = sv_stop s"
  "sv_workers (set_conn i c s) = sv_workers s"
  by (simp_all add: note_event_def set_conn_def)

lemma place_same:
  "sv_queues s' = sv_queues s \<Longrightarrow> sv_workers s' = sv_workers s \<Longrightarrow> copies s' = copies s"
  "sv_queues s' = sv_queues s \<Longrightarrow> sv_workers s' = sv_workers s \<Longrightarrow> asks_for s' = asks_for s"
  by (auto simp: copies_def asks_for_def fun_eq_iff)

lemma place_fields [simp]:
  "copies (note_event e s) = copies s" "copies (set_conn i c s) = copies s"
  "asks_for (note_event e s) = asks_for s" "asks_for (set_conn i c s) = asks_for s"
  by (rule place_same; simp)+

lemma length_filter_update:
  "i < length xs \<Longrightarrow>
    length (filter P (xs[i := y])) + (if P (xs ! i) then 1 else 0) = length (filter P xs) + (if P y then 1 else 0)"
proof (induction xs arbitrary: i)
  case (Cons x xs)
  show ?case
  proof (cases i)
    case (Suc j)
    then show ?thesis using Cons.IH[of j] Cons.prems by simp
  qed simp
qed simp

text \<open>A state that differs in the events, the listeners and one connection.\<close>

lemma conn_change:
  assumes inv: "server_inv hash s" and c: "get_at (sv_conns s) i = Some c"
    and same: "sv_queues s' = sv_queues s" "sv_workers s' = sv_workers s" "sv_capacity s' = sv_capacity s"
      "sv_stop s' = sv_stop s" "sv_tickets s \<le> sv_tickets s'"
    and conns: "sv_conns s' = (sv_conns s)[i := c']"
    and active: "sv_active s' + (if tc_stage c = Ended then 0 else 1) = sv_active s + (if tc_stage c' = Ended then 0 else 1)"
      "tc_stage c = Ended \<longrightarrow> tc_stage c' = Ended"
    and ok: "conn_ok (sv_tickets s') (asks_for s) c'"
    and waits: "\<And>t. \<not> sv_stop s \<Longrightarrow> tc_stage c' = Waiting t \<Longrightarrow> copies s (TcpTarget t) = 1"
  shows "server_inv hash s'"
proof -
  have i: "i < length (sv_conns s)" "sv_conns s ! i = c" using c by (auto simp: get_at_Some)
  note place = place_same[OF same(1,2)]
  have mono: "conn_ok (sv_tickets s') (asks_for s) d" if "conn_ok (sv_tickets s) (asks_for s) d" for d
    using that same(5) by (auto simp: conn_ok_def split: conn_stage.splits)
  have tickets: "copies s t \<le> (if ticket_of t < sv_tickets s' then 1 else 0)" for t
    using server_invD(3)[OF inv, of t] same(5) by (auto split: if_splits)
  have sub: "set (sv_conns s') \<subseteq> insert c' (set (sv_conns s))" unfolding conns by (rule set_update_subset_insert)
  have count: "sv_active s' = length (filter (\<lambda>c. tc_stage c \<noteq> Ended) (sv_conns s'))"
    using length_filter_update[OF i(1), of "\<lambda>c. tc_stage c \<noteq> Ended" c'] server_invD(5)[OF inv] active(1) i(2) conns by (simp split: if_splits)
  have old: "d = c' \<or> d \<in> set (sv_conns s)" if "d \<in> set (sv_conns s')" for d using sub that by blast
  have "conn_ok (sv_tickets s') (asks_for s') d" if "d \<in> set (sv_conns s')" for d
    using old[OF that] ok mono server_invD(4)[OF inv] place by auto
  moreover have "copies s' (TcpTarget t) = 1" if "\<not> sv_stop s'" "d \<in> set (sv_conns s')" "tc_stage d = Waiting t" for d t
    using old[OF that(2)] waits that server_invD(7)[OF inv] same(4) place by metis
  moreover have "sv_active s' \<le> TCP_MAX_CONNECTIONS"
    using server_invD(6)[OF inv] active by (auto split: if_splits)
  ultimately show ?thesis
    using server_invD(1,2)[OF inv] tickets place same(1-4) count unfolding server_inv_def by auto
qed

lemma conn_waits:
  assumes "server_inv hash s" and "get_at (sv_conns s) i = Some c"
  shows "conn_ok (sv_tickets s) (asks_for s) c" and "\<not> sv_stop s \<Longrightarrow> tc_stage c = Waiting t \<Longrightarrow> copies s (TcpTarget t) = 1"
proof -
  have "c \<in> set (sv_conns s)" using assms(2) by (auto simp: get_at_Some)
  then show "conn_ok (sv_tickets s) (asks_for s) c" and "\<not> sv_stop s \<Longrightarrow> tc_stage c = Waiting t \<Longrightarrow> copies s (TcpTarget t) = 1"
    using server_invD(4,7)[OF assms(1)] by blast+
qed

subsection \<open>The channels\<close>

definition items_of :: "work_item list option \<Rightarrow> work_item list" where
  "items_of q = (case q of None \<Rightarrow> [] | Some items \<Rightarrow> items)"

lemma queued_update:
  "i < length qs \<Longrightarrow> mset (queued_items (qs[i := q])) + mset (items_of (qs ! i)) = mset (queued_items qs) + mset (items_of q)"
proof (induction qs arbitrary: i)
  case (Cons x xs)
  show ?case
  proof (cases i)
    case (Suc j)
    then show ?thesis using Cons.IH[of j] Cons.prems by (simp add: queued_items_def items_of_def ac_simps)
  qed (simp add: queued_items_def items_of_def ac_simps)
qed simp

lemma copies_mset:
  assumes "mset (queued_items (sv_queues s')) = mset (queued_items (sv_queues s)) + M" and "sv_workers s' = sv_workers s"
  shows "copies s' t = copies s t + count (image_mset wi_target M) t"
  using assms by (simp add: copies_def)

lemma dispatched_inv:
  assumes inv: "server_inv hash s" and d: "dispatch_dns_work (sv_capacity s) (sv_queues s) item n = Inr (queues, n')"
    and t: "ticket_of (wi_target item) = sv_tickets s"
  shows "server_inv hash (s\<lparr>sv_tickets := sv_tickets s + 1, sv_queues := queues\<rparr>)" (is "server_inv hash ?s")
    and "copies (s\<lparr>sv_tickets := sv_tickets s + 1, sv_queues := queues\<rparr>) (wi_target item) = 1"
    and "wi_target item = TcpTarget k \<Longrightarrow> asks_for (s\<lparr>sv_tickets := sv_tickets s + 1, sv_queues := queues\<rparr>) k (wi_query item)"
proof -
  obtain i items where i: "i < length (sv_queues s)" "sv_queues s ! i = Some items" "length items < sv_capacity s"
    "queues = (sv_queues s)[i := Some (items @ [item])]"
    using dispatch_spec[of "sv_capacity s" "sv_queues s" item n] d by (auto simp: has_room_def)
  have M: "mset (queued_items queues) = mset (queued_items (sv_queues s)) + {#item#}"
    using queued_update[OF i(1), of "Some (items @ [item])"] i(2) by (simp add: i(4) items_of_def)
  then have items: "set (queued_items queues) = insert item (set (queued_items (sv_queues s)))"
    by (metis Un_insert_right add_mset_add_single set_mset_add_mset_insert set_mset_mset sup_bot.right_neutral)
  have copies: "copies ?s t = copies s t + (if t = wi_target item then 1 else 0)" for t
    using copies_mset[of ?s s "{#item#}" t] M by simp
  have new: "copies s (wi_target item) = 0" using server_invD(3)[OF inv, of "wi_target item"] t by simp
  have fresh: "\<forall>x\<in>set (queued_items (sv_queues s)). wi_target x \<noteq> wi_target item" "sy_clients (sv_workers s) (wi_target item) = None"
    using new by (auto simp: copies_def count_image_mset split: if_splits)
  have asks: "asks_for ?s j q" if "asks_for s j q" "j < sv_tickets s" for j q
    using that t items by (auto simp: asks_for_def)
  have conn: "conn_ok (sv_tickets ?s) (asks_for ?s) c" if "c \<in> set (sv_conns s)" for c
    using server_invD(4)[OF inv that] asks by (auto simp: conn_ok_def split: conn_stage.splits)
  have full: "length xs \<le> sv_capacity s" if "Some xs \<in> set queues" for xs
  proof -
    have "Some xs = Some (items @ [item]) \<or> Some xs \<in> set (sv_queues s)"
      using that set_update_subset_insert[of "sv_queues s" i "Some (items @ [item])"] i(4) by blast
    then show ?thesis using server_invD(2)[OF inv] i(3) by auto
  qed
  have lost: "copies ?s (TcpTarget x) = 1" if "\<not> sv_stop s" "c \<in> set (sv_conns s)" "tc_stage c = Waiting x" for c x
    using server_invD(7)[OF inv that] copies[of "TcpTarget x"] new by (auto split: if_splits)
  show "server_inv hash ?s"
    unfolding server_inv_def
  proof (intro conjI allI impI ballI)
    fix t show "copies ?s t \<le> (if ticket_of t < sv_tickets ?s then 1 else 0)"
    proof (cases "t = wi_target item")
      case True
      then show ?thesis using copies new \<open>ticket_of (wi_target item) = sv_tickets s\<close> by simp
    next
      case False
      then show ?thesis using copies[of t] server_invD(3)[OF inv, of t] by (auto split: if_splits)
    qed
  qed (use server_invD[OF inv] full conn lost in simp_all)
  show "copies ?s (wi_target item) = 1" using copies new by simp
  show "asks_for ?s k (wi_query item)" if "wi_target item = TcpTarget k"
    using fresh that items by (auto simp: asks_for_def)
qed

subsection \<open>The steps\<close>

lemma note_inv [simp]: "server_inv hash (note_event e s) \<longleftrightarrow> server_inv hash s"
  by (simp add: server_inv_def)

lemma udp_fields_inv: "server_inv hash s \<Longrightarrow> server_inv hash (s\<lparr>sv_udp := u\<rparr>)"
  using place_same[of "s\<lparr>sv_udp := u\<rparr>" s] by (simp add: server_inv_def)

lemma tickets_inv:
  assumes inv: "server_inv hash s"
  shows "server_inv hash (s\<lparr>sv_tickets := sv_tickets s + 1\<rparr>)" (is "server_inv hash ?s")
proof -
  note place = place_same[of ?s s, simplified]
  have "conn_ok (sv_tickets ?s) (asks_for ?s) c" if "c \<in> set (sv_conns s)" for c
    using server_invD(4)[OF inv that] place by (auto simp: conn_ok_def split: conn_stage.splits)
  moreover have "copies ?s t \<le> (if ticket_of t < sv_tickets ?s then 1 else 0)" for t
    using server_invD(3)[OF inv, of t] place by (auto split: if_splits)
  ultimately show ?thesis using server_invD[OF inv] place unfolding server_inv_def by simp
qed

lemma serve_udp_inv:
  assumes inv: "server_inv hash s" and u: "serve_udp l received s = Some s'"
  shows "server_inv hash s'"
proof -
  have *: "server_inv hash (s\<lparr>sv_tickets := sv_tickets s + 1, sv_queues := queues, sv_udp := x\<rparr>)"
    if "dispatch_dns_work (sv_capacity s) (sv_queues s)
      \<lparr>wi_query = q, wi_client = cl, wi_target = UdpTarget (sv_tickets s)\<rparr> n = Inr (queues, m)" for q cl n queues m x
    using udp_fields_inv[OF dispatched_inv(1)[OF inv that]] by simp
  have **: "server_inv hash (s\<lparr>sv_tickets := sv_tickets s + 1, sv_udp := x\<rparr>)" for x
    using udp_fields_inv[OF tickets_inv[OF inv]] by simp
  show ?thesis
    using u inv udp_fields_inv[OF inv] tickets_inv[OF inv] * ** unfolding serve_udp_def
    by (auto simp: Let_def split: option.splits if_splits sum.splits dispatch_error.splits)
qed

lemma serve_tcp_inv:
  assumes inv: "server_inv hash s" and a: "serve_tcp accepted s = Some s'"
  shows "server_inv hash s'"
proof (cases "\<exists>client. accepted = Inr client \<and> sv_active s < TCP_MAX_CONNECTIONS")
  case False
  then show ?thesis using inv a
    by (cases accepted) (auto simp: serve_tcp_def try_acquire_tcp_connection_slot_def split: if_splits)
next
  case True
  then obtain client where s': "sv_active s < TCP_MAX_CONNECTIONS"
    "s' = s\<lparr>sv_active := sv_active s + 1, sv_conns := sv_conns s @
       [\<lparr>tc_client = client, tc_unread = [], tc_out = [], tc_next = 0, tc_stage = Spawning,
         tc_sent = [], tc_queries = [], tc_answers = []\<rparr>]\<rparr>"
    using a by (auto simp: serve_tcp_def try_acquire_tcp_connection_slot_def split: if_splits)
  let ?c = "\<lparr>tc_client = client, tc_unread = [], tc_out = [], tc_next = 0, tc_stage = Spawning,
         tc_sent = [], tc_queries = [], tc_answers = []\<rparr>"
  have place: "copies s' = copies s" "asks_for s' = asks_for s" by (rule place_same; simp add: s'(2))+
  have new: "conn_ok t asked ?c" for t asked by (simp add: conn_ok_def conn_open_def)
  have conns: "sv_conns s' = sv_conns s @ [?c]" by (simp add: s'(2))
  have "conn_ok (sv_tickets s') (asks_for s') c" if "c \<in> set (sv_conns s')" for c
    using that new server_invD(4)[OF inv] unfolding conns place by (auto simp: s'(2))
  moreover have "copies s' (TcpTarget t) = 1" if "\<not> sv_stop s'" "c \<in> set (sv_conns s')" "tc_stage c = Waiting t" for c t
    using that server_invD(7)[OF inv] unfolding conns place by (auto simp: s'(2))
  ultimately show ?thesis using server_invD(1-3,5,6)[OF inv] s'(1) unfolding server_inv_def place
    by (simp add: s'(2))
qed

lemma conn_closes: "conn_ok t asked c \<Longrightarrow> conn_ok t' asked' (close_conn (c\<lparr>tc_unread := rest\<rparr>))"
  by (auto simp: conn_ok_def close_conn_def conn_open_def split: conn_stage.splits)

lemma set_conn_inv:
  assumes "server_inv hash s" and "get_at (sv_conns s) i = Some c" and "tc_stage c \<noteq> Ended" and "tc_stage c' \<noteq> Ended"
    and "conn_ok (sv_tickets s) (asks_for s) c'"
    and "\<And>t. \<not> sv_stop s \<Longrightarrow> tc_stage c' = Waiting t \<Longrightarrow> copies s (TcpTarget t) = 1"
  shows "server_inv hash (set_conn i c' s)"
  by (rule conn_change[OF assms(1,2), where c' = c']) (use assms(3-6) in simp_all)

lemma close_inv:
  assumes "server_inv hash s" and "get_at (sv_conns s) i = Some c" and "conn_open c"
  shows "server_inv hash (set_conn i (close_conn (c\<lparr>tc_unread := rest\<rparr>)) s)" and "server_inv hash (set_conn i (close_conn c) s)"
proof -
  have *: "server_inv hash (set_conn i (close_conn (c\<lparr>tc_unread := r\<rparr>)) s)" for r
    by (rule set_conn_inv[OF assms(1,2) _ _ conn_closes[OF conn_waits(1)[OF assms(1,2)]]])
      (use assms(3) in \<open>simp_all add: close_conn_def conn_open_def\<close>)
  then show "server_inv hash (set_conn i (close_conn (c\<lparr>tc_unread := rest\<rparr>)) s)" .
  have "c\<lparr>tc_unread := tc_unread c\<rparr> = c" by simp
  then show "server_inv hash (set_conn i (close_conn c) s)" using *[of "tc_unread c"] by simp
qed

lemma conn_moves:
  assumes "conn_ok t asked c"
  shows "tc_stage c = Spawning \<Longrightarrow> conn_ok t asked (c\<lparr>tc_stage := Reading\<rparr>)"
    and "tc_stage c = Closing \<Longrightarrow> conn_ok t asked (c\<lparr>tc_stage := Ended\<rparr>)"
    and "conn_ok t asked (c\<lparr>tc_unread := tc_unread c @ bytes, tc_sent := tc_sent c @ bytes\<rparr>)"
  using assms by (auto simp: conn_ok_def conn_open_def split: conn_stage.splits)

lemma spawn_inv:
  assumes inv: "server_inv hash s" and a: "spawn_connection i e e' s = Some s'"
  shows "server_inv hash s'"
proof -
  obtain c where c: "get_at (sv_conns s) i = Some c" "tc_stage c = Spawning"
    using a by (auto simp: spawn_connection_def split: option.splits if_splits)
  have open': "conn_open c" using c(2) by (simp add: conn_open_def)
  note close_inv(2)[OF inv c(1) open']
  moreover have "server_inv hash (set_conn i (c\<lparr>tc_stage := Reading\<rparr>) s)"
    by (rule set_conn_inv[OF inv c(1) _ _ conn_moves(1)[OF conn_waits(1)[OF inv c(1)] c(2)]]) (simp_all add: c(2))
  ultimately show ?thesis using a c by (auto simp: spawn_connection_def split: option.splits)
qed

lemma release_inv:
  assumes inv: "server_inv hash s" and a: "release_slot i s = Some s'"
  shows "server_inv hash s'"
proof -
  obtain c where c: "get_at (sv_conns s) i = Some c" "tc_stage c = Closing"
    "s' = (set_conn i (c\<lparr>tc_stage := Ended\<rparr>) s)\<lparr>sv_active := sv_active s - 1\<rparr>"
    using a by (auto simp: release_slot_def split: option.splits if_splits)
  have "c \<in> set (filter (\<lambda>c. tc_stage c \<noteq> Ended) (sv_conns s))" using c(1,2) by (auto simp: get_at_Some)
  then have "0 < sv_active s" unfolding server_invD(5)[OF inv] by (metis length_pos_if_in_set)
  then show ?thesis
    by (intro conn_change[OF inv c(1), where c' = "c\<lparr>tc_stage := Ended\<rparr>"])
      (use conn_moves(2)[OF conn_waits(1)[OF inv c(1)] c(2)] in \<open>simp_all add: c(2,3)\<close>)
qed

lemma arrives_inv:
  assumes inv: "server_inv hash s" and c: "get_at (sv_conns s) i = Some c"
  shows "server_inv hash (set_conn i (c\<lparr>tc_unread := tc_unread c @ bytes, tc_sent := tc_sent c @ bytes\<rparr>) s)"
proof (cases "tc_stage c = Ended")
  case True
  then show ?thesis
    by (intro conn_change[OF inv c, where c' = "c\<lparr>tc_unread := tc_unread c @ bytes, tc_sent := tc_sent c @ bytes\<rparr>"])
      (use conn_moves(3)[OF conn_waits(1)[OF inv c], of bytes] in simp_all)
next
  case False
  then show ?thesis
    by (intro set_conn_inv[OF inv c] conn_moves(3) conn_waits[OF inv c]) simp_all
qed

lemma conn_reads:
  assumes "conn_ok t asked c" and "tc_stage c = Reading" and "tc_unread c = tcp_frame q @ rest" "q \<noteq> []" "length q < 2 ^ 16"
  shows "conn_ok t' asked' (close_conn (c\<lparr>tc_unread := rest, tc_queries := tc_queries c @ [q]\<rparr>))"
    and "k < t' \<Longrightarrow> asked' k q \<Longrightarrow>
      conn_ok t' asked' (c\<lparr>tc_unread := rest, tc_queries := tc_queries c @ [q], tc_next := n, tc_stage := Waiting k\<rparr>)"
  using assms by (auto simp: conn_ok_def close_conn_def conn_open_def)

lemma serve_query_inv:
  assumes inv: "server_inv hash s" and a: "serve_query i polls s = Some s'"
  shows "server_inv hash s'"
proof -
  obtain c where c: "get_at (sv_conns s) i = Some c" "tc_stage c = Reading"
    using a by (auto simp: serve_query_def split: option.splits if_splits)
  have op: "conn_open c" using c(2) by (simp add: conn_open_def)
  note close = close_inv[OF inv c(1) op]
  show ?thesis
  proof (cases "sv_stop s \<or> (\<nexists>q p rest. read_tcp_dns_query polls (tc_unread c) = Some (Inr (Some q), p, rest))")
    case True
    then show ?thesis using a c close
      by (auto simp: serve_query_def split: option.splits if_splits sum.splits)
  next
    case False
    then obtain q p rest where r: "read_tcp_dns_query polls (tc_unread c) = Some (Inr (Some q), p, rest)" by blast
    have frame: "tc_unread c = tcp_frame q @ rest" "q \<noteq> []" "length q < 2 ^ 16" using read_query_spec(2)[OF r refl] by blast+
    let ?item = "\<lparr>wi_query = q, wi_client = tc_client c, wi_target = TcpTarget (sv_tickets s)\<rparr>"
    let ?c1 = "c\<lparr>tc_unread := rest, tc_queries := tc_queries c @ [q]\<rparr>" and ?s1 = "s\<lparr>sv_tickets := sv_tickets s + 1\<rparr>"
    note ok = conn_reads[OF conn_waits(1)[OF inv c(1)] c(2) frame]
    show ?thesis
    proof (cases "dispatch_dns_work (sv_capacity s) (sv_queues s) ?item (tc_next c)")
      case (Inl e)
      have "server_inv hash (set_conn i (close_conn ?c1) ?s1)"
        by (rule set_conn_inv[OF tickets_inv[OF inv], of i c]) (use c op ok(1) in \<open>simp_all add: close_conn_def\<close>)
      then show ?thesis using a c False r Inl by (cases e) (auto simp: serve_query_def Let_def)
    next
      case (Inr x)
      obtain queues n where x: "x = (queues, n)" by (cases x)
      note d = dispatched_inv[OF inv Inr[unfolded x]]
      let ?s2 = "s\<lparr>sv_tickets := sv_tickets s + 1, sv_queues := queues\<rparr>"
      have i2: "server_inv hash ?s2" using d(1) by simp
      have "server_inv hash (set_conn i (?c1\<lparr>tc_next := n, tc_stage := Waiting (sv_tickets s)\<rparr>) ?s2)"
        by (rule set_conn_inv[OF i2, of i c])
          (use c d(2,3) ok(2)[of "sv_tickets s" "sv_tickets ?s2" "asks_for ?s2" n] in simp_all)
      then show ?thesis using a c False r Inr x by (auto simp: serve_query_def Let_def)
    qed
  qed
qed

lemma reply_answers:
  assumes inv: "server_inv hash s" and c: "get_at (sv_conns s) i = Some c" "tc_stage c = Waiting t"
    and r: "reply_for t s = Some (Some response)"
  shows "valid_answer (last (tc_queries c)) response"
proof -
  have "(TcpTarget t, Some response) \<in> set (replies (sy_worker (sv_workers s)))"
    using r unfolding reply_for_def by (rule map_of_SomeD)
  then obtain q where q: "sy_clients (sv_workers s) (TcpTarget t) = Some q" "valid_reply q (Some response)"
    using system_reachable_inv[OF server_invD(1)[OF inv]] by (fastforce simp: system_inv_def)
  have "asks_for s t (last (tc_queries c))" using conn_waits(1)[OF inv c(1)] c(2) by (simp add: conn_ok_def)
  then show ?thesis using q by (simp add: asks_for_def valid_answer_def valid_reply_def)
qed

lemma conn_answered:
  assumes ok: "conn_ok t asked c" and w: "tc_stage c = Waiting k" and v: "valid_answer (last (tc_queries c)) p"
  shows "conn_ok t asked (c\<lparr>tc_out := tc_out c @ tcp_frame p, tc_answers := tc_answers c @ [p], tc_stage := Reading\<rparr>)"
    and "conn_ok t asked (close_conn (c\<lparr>tc_out := tc_out c @ take n (tcp_frame p)\<rparr>))"
    and "conn_ok t asked (close_conn c)"
proof -
  have len: "length (tc_queries c) = Suc (length (tc_answers c))" using ok w by (simp add: conn_ok_def)
  then have ne: "tc_queries c \<noteq> []" by auto
  then have qs: "tc_queries c = butlast (tc_queries c) @ [last (tc_queries c)]" by simp
  have bl: "take (length (tc_answers c)) (tc_queries c) = butlast (tc_queries c)" using len by (simp add: butlast_conv_take)
  have nth: "tc_queries c ! length (tc_answers c) = last (tc_queries c)" using len ne by (simp add: last_conv_nth)
  have l: "list_all2 valid_answer (butlast (tc_queries c)) (tc_answers c)" using ok bl by (simp add: conn_ok_def)
  have all: "list_all2 valid_answer (tc_queries c) (tc_answers c @ [p])"
    using l v by (subst qs) (simp add: list_all2_appendI)
  have out: "tc_out c = concat (map tcp_frame (tc_answers c))" using ok w by (auto simp: conn_ok_def conn_open_def)
  show "conn_ok t asked (c\<lparr>tc_out := tc_out c @ tcp_frame p, tc_answers := tc_answers c @ [p], tc_stage := Reading\<rparr>)"
    using ok w len all out by (auto simp: conn_ok_def conn_open_def)
  show "conn_ok t asked (close_conn (c\<lparr>tc_out := tc_out c @ take n (tcp_frame p)\<rparr>))"
    using ok w len l bl out nth v unfolding conn_ok_def
    by (auto simp: conn_open_def close_conn_def intro!: exI[of _ p])
  show "conn_ok t asked (close_conn c)"
    using conn_closes[OF ok, of t asked "tc_unread c"] by simp
qed

lemma write_result:
  "write_tcp_dns_response failure p = (bytes, e) \<Longrightarrow>
    (e = None \<longrightarrow> bytes = tcp_frame p) \<and> (\<exists>n. bytes = take n (tcp_frame p))"
  by (cases failure) (auto simp: write_tcp_dns_response_def tcp_frame_def Let_def split: if_splits intro: exI[of _ 0] exI[of _ "length p + 2"])

lemma answer_query_inv:
  assumes inv: "server_inv hash s" and a: "answer_query i wait failure s = Some s'"
  shows "server_inv hash s'"
proof -
  obtain c t where c: "get_at (sv_conns s) i = Some c" "tc_stage c = Waiting t"
    using a by (auto simp: answer_query_def split: option.splits conn_stage.splits)
  have op: "conn_open c" using c(2) by (simp add: conn_open_def)
  note close = close_inv(2)[OF inv c(1) op]
  show ?thesis
  proof (cases "\<exists>p. wait = Received \<and> reply_for t s = Some (Some p)")
    case False
    then show ?thesis using a c close
      by (auto simp: answer_query_def split: wait_end.splits option.splits if_splits)
  next
    case True
    then obtain p where p: "wait = Received" "reply_for t s = Some (Some p)" by blast
    have s': "s' = write_reply i c failure p s" using a c p by (simp add: answer_query_def)
    obtain bytes e where w: "write_tcp_dns_response failure p = (bytes, e)" by (meson surj_pair)
    note ok = conn_answered[OF conn_waits(1)[OF inv c(1)] c(2) reply_answers[OF inv c p(2)]]
    show ?thesis
    proof (cases e)
      case None
      have "server_inv hash (set_conn i (c\<lparr>tc_out := tc_out c @ bytes, tc_answers := tc_answers c @ [p], tc_stage := Reading\<rparr>) s)"
        by (rule set_conn_inv[OF inv c(1)]) (use c(2) ok(1) write_result[OF w] None in simp_all)
      then show ?thesis using s' w None by (simp add: write_reply_def)
    next
      case (Some x)
      obtain n where n: "bytes = take n (tcp_frame p)" using write_result[OF w] by blast
      have "server_inv hash (set_conn i (close_conn (c\<lparr>tc_out := tc_out c @ bytes\<rparr>)) s)"
        by (rule set_conn_inv[OF inv c(1)]) (use c(2) ok(2)[of n] n in \<open>simp_all add: close_conn_def\<close>)
      then show ?thesis using s' w Some by (cases x) (simp_all add: write_reply_def)
    qed
  qed
qed

text \<open>A change of the channels or of the workers.\<close>

lemma place_change:
  assumes inv: "server_inv hash s" and w: "worker_reachable hash False (sv_workers s')"
    and same: "sv_conns s' = sv_conns s" "sv_active s' = sv_active s" "sv_capacity s' = sv_capacity s" "sv_tickets s' = sv_tickets s"
    and full: "\<And>items. Some items \<in> set (sv_queues s') \<Longrightarrow> length items \<le> sv_capacity s"
    and copies: "\<And>t. copies s' t \<le> copies s t" "\<And>t. \<not> sv_stop s' \<Longrightarrow> \<not> sv_stop s \<and> copies s' t = copies s t"
    and asks: "\<And>t q. asks_for s t q \<Longrightarrow> asks_for s' t q"
  shows "server_inv hash s'"
proof -
  have "conn_ok (sv_tickets s') (asks_for s') c" if "c \<in> set (sv_conns s)" for c
    using server_invD(4)[OF inv that] asks same(4) by (auto simp: conn_ok_def split: conn_stage.splits)
  moreover have "copies s' t \<le> (if ticket_of t < sv_tickets s then 1 else 0)" for t
    using server_invD(3)[OF inv, of t] copies(1)[of t] by linarith
  moreover have "copies s' (TcpTarget t) = 1" if "\<not> sv_stop s'" "c \<in> set (sv_conns s)" "tc_stage c = Waiting t" for c t
    using server_invD(7)[OF inv _ that(2,3)] copies(2)[OF that(1), of "TcpTarget t"] by simp
  ultimately show ?thesis using w full server_invD(5,6)[OF inv] unfolding server_inv_def same by blast
qed

lemma worker_loop_inv:
  assumes inv: "server_inv hash s" and e: "env_ok hash False env" and a: "dns_worker_loop i env ctx f s = Some s'"
  shows "server_inv hash s'"
proof -
  obtain items where q: "i < length (sv_queues s)" "sv_queues s ! i = Some items"
    using a by (auto simp: dns_worker_loop_def get_at_Some split: option.splits)
  have sub: "Some xs \<in> set ((sv_queues s)[i := x]) \<Longrightarrow> x = Some xs \<or> Some xs \<in> set (sv_queues s)" for xs x
    using set_update_subset_insert[of "sv_queues s" i x] by blast
  note W = server_invD(1)[OF inv]
  have cases: "sv_stop s \<and> s' = s\<lparr>sv_queues := (sv_queues s)[i := None]\<rparr> \<or> s' = s \<or>
      (\<exists>item rest. items = item # rest \<and> s' = s\<lparr>sv_queues := (sv_queues s)[i := Some rest],
          sv_workers := system_submit env ctx f item (sv_workers s)\<rparr>)"
    using a q by (auto simp: dns_worker_loop_def get_at_def split: if_splits list.splits)
  then consider "sv_stop s" "s' = s\<lparr>sv_queues := (sv_queues s)[i := None]\<rparr>" | "s' = s"
    | item rest where "items = item # rest"
      "s' = s\<lparr>sv_queues := (sv_queues s)[i := Some rest], sv_workers := system_submit env ctx f item (sv_workers s)\<rparr>"
    by blast
  then show ?thesis
  proof cases
    case 1
    have M: "mset (queued_items (sv_queues s)) = mset (queued_items (sv_queues s')) + mset items"
      using queued_update[OF q(1), of None] q(2) 1(2) by (simp add: items_of_def)
    have c: "copies s t = copies s' t + count (image_mset wi_target (mset items)) t" for t
      using copies_mset[OF M, of t] 1(2) by simp
    have "set (queued_items (sv_queues s')) \<subseteq> set (queued_items (sv_queues s))"
      by (metis M mset_subset_eq_add_left set_mset_mono set_mset_mset)
    then have "asks_for s t q' \<Longrightarrow> asks_for s' t q'" for t q' using 1(2) by (auto simp: asks_for_def)
    moreover have "length xs \<le> sv_capacity s" if "Some xs \<in> set (sv_queues s')" for xs
      using sub[of xs None] that 1(2) server_invD(2)[OF inv] by simp
    ultimately show ?thesis
      by (intro place_change[OF inv]) (use 1 W c in simp_all)
  next
    case 2
    then show ?thesis using inv by simp
  next
    case 3
    have M: "mset (queued_items (sv_queues s)) = add_mset item (mset (queued_items (sv_queues s')))"
      using queued_update[OF q(1), of "Some rest"] q(2) 3 by (simp add: items_of_def)
    have one: "0 < count (image_mset wi_target (mset (queued_items (sv_queues s)))) (wi_target item)" by (simp add: M)
    have "copies s (wi_target item) \<le> 1" using server_invD(3)[OF inv, of "wi_target item"] by (auto split: if_splits)
    moreover have "copies s (wi_target item) = count (image_mset wi_target (mset (queued_items (sv_queues s)))) (wi_target item) +
        (if sy_clients (sv_workers s) (wi_target item) = None then 0 else 1)" by (simp only: copies_def)
    ultimately have "(if sy_clients (sv_workers s) (wi_target item) = None then 0 else 1 :: nat) = 0" using one by linarith
    then have free: "sy_clients (sv_workers s) (wi_target item) = None" by (simp split: if_splits)
    have cl: "sy_clients (sv_workers s') = (sy_clients (sv_workers s))(wi_target item \<mapsto> wi_query item)" by (simp add: 3(2))
    have c: "copies s' t = copies s t" for t
      unfolding copies_def M cl by (cases "t = wi_target item") (use free in simp_all)
    have "item \<in> set (queued_items (sv_queues s))" "set (queued_items (sv_queues s')) \<subseteq> set (queued_items (sv_queues s))"
      by (metis M insertI1 set_mset_add_mset_insert set_mset_mset, metis M set_mset_add_mset_insert set_mset_mset subset_insertI)
    then have asks: "asks_for s t q' \<Longrightarrow> asks_for s' t q'" for t q' using cl by (auto simp: asks_for_def split: if_splits)
    have w: "worker_reachable hash False (sv_workers s')" using submit_reachable[OF W e free] 3(2) by simp
    have full: "length xs \<le> sv_capacity s" if x: "Some xs \<in> set (sv_queues s')" for xs
    proof -
      have "Some items \<in> set (sv_queues s)" using q nth_mem by metis
      then have "length rest \<le> sv_capacity s" using server_invD(2)[OF inv, of items] 3(1) by simp
      then show ?thesis using sub[of xs "Some rest"] x server_invD(2)[OF inv] 3(2) by auto
    qed
    show ?thesis by (rule place_change[OF inv w _ _ _ _ full]) (use 3(2) c asks in simp_all)
  qed
qed

lemma works_inv:
  assumes inv: "server_inv hash s" and q: "query_step hash False (sv_workers s) w" and c: "sy_clients w = sy_clients (sv_workers s)"
  shows "server_inv hash (s\<lparr>sv_workers := w\<rparr>)"
proof -
  have "worker_reachable hash False w" using worker_reachable.step[OF server_invD(1)[OF inv] q] .
  then show ?thesis
    by (intro place_change[OF inv]) (use server_invD(2)[OF inv] c in \<open>simp_all add: copies_def asks_for_def\<close>)
qed

lemma stops_inv: "server_inv hash s \<Longrightarrow> server_inv hash (s\<lparr>sv_stop := True\<rparr>)"
  using place_same[of "s\<lparr>sv_stop := True\<rparr>" s] by (simp add: server_inv_def)

lemma server_start_inv: "cache_ok cache \<Longrightarrow> server_inv hash (server_start cores listeners access cache)"
  by (auto simp: server_inv_def server_start_def Let_def copies_def queued_items_def system_start_def
      worker_reachable.start[unfolded system_start_def])

lemma server_step_inv: "server_step hash s s' \<Longrightarrow> server_inv hash s \<Longrightarrow> server_inv hash s'"
proof (induction rule: server_step.induct)
  case (works s w)
  then show ?case using works_inv by blast
qed (auto intro: arrives_inv serve_udp_inv serve_tcp_inv spawn_inv serve_query_inv answer_query_inv release_inv
    worker_loop_inv stops_inv)

lemma server_reachable_inv: "server_reachable hash s \<Longrightarrow> server_inv hash s"
  by (induction rule: server_reachable.induct) (auto intro: server_start_inv server_step_inv)

section \<open>A sample run\<close>

text \<open>A client connects, its query comes in pieces, a worker answers it at once and the answer is written.\<close>

definition sample_any :: packet where
  "sample_any = [0, 7, 1, 0, 0, 1, 0, 0, 0, 0, 0, 0, 1, 97, 0, 0, 255, 0, 1]"

definition sample_polls :: "read_poll list" where
  "sample_polls = map (\<lambda>r. \<lparr>po_stop = False, po_time_left = True, po_set_timeout = None, po_read = r\<rparr>)
     [Inr 1, Inl WouldBlock, Inr 1, Inr 7, Inl TimedOut, Inr 100]"

definition client_sends :: "nat \<Rightarrow> packet \<Rightarrow> server_state \<Rightarrow> server_state option" where
  "client_sends i bytes s =
     map_option (\<lambda>c. set_conn i (c\<lparr>tc_unread := tc_unread c @ bytes, tc_sent := tc_sent c @ bytes\<rparr>) s) (get_at (sv_conns s) i)"

definition sample_server :: "server_state option" where
  "sample_server =
     serve_tcp (Inr (IpV4 0x0A000001)) (server_start (Some 2) 1 sample_access None) \<bind>
     spawn_connection 0 None None \<bind>
     client_sends 0 (tcp_frame sample_any @ [0, 9]) \<bind>
     serve_query 0 sample_polls \<bind>
     dns_worker_loop 0 sample_env sample_context sample_filter \<bind>
     answer_query 0 Received None"

lemma sample_server_reachable:
  assumes "sample_server = Some s"
  shows "server_reachable (\<lambda>_. 0) s"
proof -
  have start: "server_reachable (\<lambda>_. 0) (server_start (Some 2) 1 sample_access None)"
    by (rule server_reachable.start) (simp add: cache_ok_def)
  have env: "env_ok (\<lambda>_. 0) False sample_env" using sample_env_ok by (simp add: env_ok_def)
  have sends: "server_reachable (\<lambda>_. 0) y" if "server_reachable (\<lambda>_. 0) x" "client_sends i bytes x = Some y" for x y i bytes
    using that server_reachable.step[OF that(1) server_step.arrives] by (auto simp: client_sends_def)
  note steps = server_reachable.step[OF _ server_step.accepts] server_reachable.step[OF _ server_step.spawns]
    server_reachable.step[OF _ server_step.reads] server_reachable.step[OF _ server_step.takes[OF env]]
    server_reachable.step[OF _ server_step.answers]
  from assms obtain a b c d e where r: "serve_tcp (Inr (IpV4 0x0A000001)) (server_start (Some 2) 1 sample_access None) = Some a"
    "spawn_connection 0 None None a = Some b" "client_sends 0 (tcp_frame sample_any @ [0, 9]) b = Some c"
    "serve_query 0 sample_polls c = Some d" "dns_worker_loop 0 sample_env sample_context sample_filter d = Some e"
    "answer_query 0 Received None e = Some s"
    unfolding sample_server_def by (auto simp: bind_eq_Some_conv)
  have "server_reachable (\<lambda>_. 0) c" using sends[OF steps(2)[OF steps(1)[OF start r(1)] r(2)] r(3)] .
  then show ?thesis using steps(5)[OF steps(4)[OF steps(3)[OF _ r(4)] r(5)] r(6)] by blast
qed

lemma sample_server_evaluated:
  "case sample_server of None \<Rightarrow> False | Some s \<Rightarrow> length (sv_conns s) = 1 \<and>
     (\<lambda>c. tc_queries c = [sample_any] \<and> length (tc_answers c) = 1 \<and> tc_stage c = Reading) (hd (sv_conns s))"
  by code_simp

lemma sample_server_facts:
  obtains s c where "server_reachable (\<lambda>_. 0) s" "sv_conns s = [c]" "tc_queries c = [sample_any]"
    "length (tc_answers c) = 1" "tc_stage c = Reading"
proof -
  obtain s where s: "sample_server = Some s" using sample_server_evaluated by (cases sample_server) auto
  have e: "length (sv_conns s) = 1" "tc_queries (hd (sv_conns s)) = [sample_any]"
    "length (tc_answers (hd (sv_conns s))) = 1" "tc_stage (hd (sv_conns s)) = Reading"
    using sample_server_evaluated unfolding s option.case by blast+
  have "sv_conns s = [hd (sv_conns s)]" using e(1) by (cases "sv_conns s") auto
  from that[OF sample_server_reachable[OF s] this e(2-4)] show ?thesis .
qed

section \<open>Properties\<close>

text \<open>C37. In every run of the server, with any interleaving of clients, listeners, workers and upstream
  answers, a TCP client gets the answers to its own queries in their order: what was read from its
  connection are frames at the start of what it sent, what was written are frames, the n-th of which
  validates against its n-th query, at most one query is unanswered, and behind the frames there is at
  most a part of the next answer, of a write that failed.\<close>

theorem connection_answered_in_order:
  assumes "server_reachable hash s" and "c \<in> set (sv_conns s)"
  shows "\<exists>rest part. tc_sent c = concat (map tcp_frame (tc_queries c)) @ rest \<and>
    tc_out c = concat (map tcp_frame (tc_answers c)) @ part \<and>
    list_all2 (\<lambda>q p. validate_response_for_query q p = Inr ()) (take (length (tc_answers c)) (tc_queries c)) (tc_answers c) \<and>
    length (tc_queries c) \<le> length (tc_answers c) + 1 \<and>
    (part = [] \<or> (\<exists>p k. part = take k (tcp_frame p) \<and> length (tc_answers c) < length (tc_queries c) \<and>
        validate_response_for_query (tc_queries c ! length (tc_answers c)) p = Inr ()))"
proof -
  have ok: "conn_ok (sv_tickets s) (asks_for s) c"
    using server_invD(4)[OF server_reachable_inv[OF assms(1)] assms(2)] .
  have "length (tc_queries c) \<le> length (tc_answers c) + 1" using ok by (auto simp: conn_ok_def split: conn_stage.splits)
  moreover have "list_all2 (\<lambda>q p. validate_response_for_query q p = Inr ()) (take (length (tc_answers c)) (tc_queries c)) (tc_answers c)"
    using ok by (simp add: conn_ok_def valid_answer_def[abs_def])
  ultimately show ?thesis using ok unfolding conn_ok_def valid_answer_def by blast
qed

theorem connection_answered_in_order_witness:
  "\<exists>(s :: server_state) c p. sv_conns s = [c] \<and> tc_queries c = [sample_any] \<and> tc_answers c = [p] \<and>
     validate_response_for_query sample_any p = Inr ()"
proof -
  obtain s c where s: "server_reachable (\<lambda>_. 0) s" "sv_conns s = [c]" "tc_queries c = [sample_any]"
    "length (tc_answers c) = 1" by (rule sample_server_facts)
  obtain p where "tc_answers c = [p]" using s(4) by (cases "tc_answers c") auto
  then have "validate_response_for_query sample_any p = Inr ()"
    using connection_answered_in_order[OF s(1), of c] s(2,3) by auto
  then show ?thesis using s(2,3) \<open>tc_answers c = [p]\<close> by blast
qed

text \<open>C38. The server stays within its limits: a channel never holds more than its share of 8192 items, the
  slots that are taken are the connections that have not ended and at most 256, a query is in one place
  only, and as long as the server runs the query a connection waits for is in a channel or with a worker.\<close>

theorem server_bounded:
  assumes "server_reachable hash s"
  shows "(\<forall>items. Some items \<in> set (sv_queues s) \<longrightarrow> length items \<le> sv_capacity s) \<and>
    sv_active s = length (filter (\<lambda>c. tc_stage c \<noteq> Ended) (sv_conns s)) \<and> sv_active s \<le> 256 \<and>
    (\<forall>t. count (image_mset wi_target (mset (queued_items (sv_queues s)))) t +
       (if sy_clients (sv_workers s) t = None then 0 else 1) \<le> 1) \<and>
    (\<forall>c\<in>set (sv_conns s). \<forall>t. tc_stage c = Waiting t \<longrightarrow> \<not> sv_stop s \<longrightarrow>
       TcpTarget t \<in> wi_target ` set (queued_items (sv_queues s)) \<or> sy_clients (sv_workers s) (TcpTarget t) \<noteq> None)"
proof (intro conjI allI impI ballI)
  note inv = server_reachable_inv[OF assms]
  show "sv_active s = length (filter (\<lambda>c. tc_stage c \<noteq> Ended) (sv_conns s))" by (rule server_invD(5)[OF inv])
  show "sv_active s \<le> 256" using server_invD(6)[OF inv] by (simp add: TCP_MAX_CONNECTIONS_def)
  show "length items \<le> sv_capacity s" if "Some items \<in> set (sv_queues s)" for items using server_invD(2)[OF inv that] .
  show "count (image_mset wi_target (mset (queued_items (sv_queues s)))) t +
      (if sy_clients (sv_workers s) t = None then 0 else 1) \<le> 1" for t
    using server_invD(3)[OF inv, of t] by (simp add: copies_def split: if_splits)
  show "TcpTarget t \<in> wi_target ` set (queued_items (sv_queues s)) \<or> sy_clients (sv_workers s) (TcpTarget t) \<noteq> None"
    if "c \<in> set (sv_conns s)" "tc_stage c = Waiting t" "\<not> sv_stop s" for c t
  proof (rule ccontr)
    assume n: "\<not> ?thesis"
    then have "TcpTarget t \<notin># image_mset wi_target (mset (queued_items (sv_queues s)))" by auto
    then have "copies s (TcpTarget t) = 0" using n by (simp add: copies_def count_eq_zero_iff)
    then show False using server_invD(7)[OF inv that(3,1,2)] by simp
  qed
qed

theorem server_bounded_witness:
  "\<exists>(s :: server_state) c. sv_conns s = [c] \<and> tc_stage c = Reading \<and> sv_active s = 1"
proof -
  obtain s c where s: "server_reachable (\<lambda>_. 0) s" "sv_conns s = [c]" "tc_stage c = Reading"
    by (rule sample_server_facts)
  then have "sv_active s = 1" using server_bounded[OF s(1)] by simp
  then show ?thesis using s(2,3) by blast
qed

text \<open>C39. However the network cuts the bytes, and however often a read finds nothing yet, what a client
  writes as frames is read back query by query: a run of polls that do not fail and deliver often enough
  yields exactly the queries and leaves what follows them.\<close>

theorem tcp_frames_read_back:
  assumes "list_all calm_poll polls" and "\<forall>q\<in>set queries. q \<noteq> [] \<and> length q < 2 ^ 16"
    and "length (concat (map (\<lambda>q. fst (write_tcp_dns_response None q)) queries)) \<le> deliveries polls"
  shows "read_queries (length queries) polls (concat (map (\<lambda>q. fst (write_tcp_dns_response None q)) queries) @ later) =
    Some (queries, later)"
proof -
  have m: "map (\<lambda>q. fst (write_tcp_dns_response None q)) queries = map tcp_frame queries"
    using assms(2) by (simp add: write_frame)
  show ?thesis using assms(3) read_queries_calm[OF assms(1,2)] unfolding m by blast
qed

theorem tcp_frames_read_back_witness:
  "read_queries 2 (replicate 10 \<lparr>po_stop = False, po_time_left = True, po_set_timeout = None, po_read = Inr 3\<rparr>)
     [0, 1, 5, 0, 2, 6, 7, 0] = Some ([[5], [6, 7]], [0])"
proof -
  let ?polls = "replicate 10 \<lparr>po_stop = False, po_time_left = True, po_set_timeout = None, po_read = Inr 3\<rparr>"
  have f: "fst (write_tcp_dns_response None [5]) = [0, 1, 5]" "fst (write_tcp_dns_response None [6, 7]) = [0, 2, 6, 7]"
    by (simp_all add: write_tcp_dns_response_def be16_def)
  have "list_all calm_poll ?polls" by (simp add: list_all_iff calm_poll_def)
  note rb = tcp_frames_read_back[OF this, of "[[5], [6, 7]]" "[0]"]
  have two: "(2 :: nat) = length [[5], [6, 7 :: u8]]" by simp
  show ?thesis unfolding two using rb by (simp add: f deliveries_def del: read_queries.simps length_Cons)
qed

fun log_entries :: "'a log_receipt list \<Rightarrow> 'a list" where
  "log_entries [] = []"
| "log_entries (LogEntry e # rs) = e # log_entries rs"
| "log_entries (LogTimeout # rs) = log_entries rs"
| "log_entries (LogDisconnected # rs) = []"

lemma collect_batch_spec:
  assumes "length batch \<le> QUERY_LOG_BATCH_SIZE" and "collect_batch rs batch = (b, rest)"
  shows "length b \<le> QUERY_LOG_BATCH_SIZE \<and> length batch \<le> length b \<and> b @ log_entries rest = batch @ log_entries rs"
  using assms
proof (induction rs batch rule: collect_batch.induct)
  case (2 r rs batch)
  then show ?case by (cases r) (auto split: if_splits)
qed simp

text \<open>Nothing that reaches the channel of the query log is lost or reordered by its writer: the batches
  it hands to the database, one after the other, are the entries received until the senders are gone;
  none is empty and none exceeds 512.\<close>

theorem query_log_batches:
  "concat (run_query_log_writer rs) = log_entries rs \<and>
   list_all (\<lambda>b. b \<noteq> [] \<and> length b \<le> 512) (run_query_log_writer rs)"
proof (induction rs rule: run_query_log_writer.induct)
  case (4 e rs)
  obtain b rest where c: "collect_batch rs [e] = (b, rest)" by (meson surj_pair)
  have "length b \<le> 512 \<and> 1 \<le> length b \<and> b @ log_entries rest = e # log_entries rs"
    using collect_batch_spec[OF _ c] by (simp add: QUERY_LOG_BATCH_SIZE_def)
  then show ?case using "4.IH"[OF c[symmetric]] c by auto
qed simp_all

lemma worker_count_bounds: "4 \<le> unat (dns_worker_count cores) \<and> unat (dns_worker_count cores) \<le> 32"
proof -
  have "DNS_MIN_WORKERS \<le> dns_worker_count cores" "dns_worker_count cores \<le> DNS_MAX_WORKERS"
    by (simp_all add: dns_worker_count_def DNS_MIN_WORKERS_def DNS_MAX_WORKERS_def)
  then show ?thesis by (simp add: word_le_nat_alt DNS_MIN_WORKERS_def DNS_MAX_WORKERS_def)
qed

lemma queue_share:
  assumes "4 \<le> n" and "n \<le> 32"
  shows "n * dns_worker_queue_capacity n \<le> 8192 \<and> 0 < dns_worker_queue_capacity n"
proof -
  have "n \<le> 8192" using assms by simp
  then have "0 < 8192 div n" using assms by (simp add: div_greater_zero_iff)
  then have "dns_worker_queue_capacity n = 8192 div n"
    using assms by (simp add: dns_worker_queue_capacity_def DNS_WORK_QUEUE_CAPACITY_def max_def)
  then show ?thesis using \<open>0 < 8192 div n\<close> by (simp add: times_div_less_eq_dividend)
qed

lemma new_cache_ok: "cache_ok (store_from_config cfg n)"
proof (cases "store_from_config cfg n")
  case (Some s)
  have "dc_entries c = []" if "c \<in> set (cs_shards s)" for c
    using that Some by (auto simp: store_from_config_def cache_from_config_def Let_def List.map_filter_def split: if_splits)
  then have "store_answers s" by (simp add: store_answers_def)
  then show ?thesis using Some store_from_config_inv[OF Some] by (auto simp: cache_ok_def)
qed (simp add: cache_ok_def)

text \<open>C40. A validated configuration whose sockets can be opened starts: the filters are built, the server
  has a datagram listener per address, at least one, and from 4 to 32 workers with an empty channel each
  that share 8192 places, and it caches responses exactly when the cache is enabled.\<close>

theorem validated_server_starts:
  assumes "validate url_parse config = None" and "\<And>addr. can_bind addr"
  shows "(\<exists>f. build_filter_runtime config rules hosts = Some f) \<and>
    (\<exists>s ctx. start_with_filter_runtime url_parse can_bind cores config paused = Inr (s, ctx) \<and>
      server_reachable hash s \<and> sv_udp s \<noteq> [] \<and>
      4 \<le> length (sv_queues s) \<and> length (sv_queues s) \<le> 32 \<and> set (sv_queues s) = {Some []} \<and>
      length (sv_queues s) * sv_capacity s \<le> 8192 \<and> 0 < sv_capacity s \<and>
      (wc_cache_config ctx \<noteq> None \<longleftrightarrow> ac_dns_cache_enabled config))"
proof -
  note builds = validated_config_builds[OF assms(1)]
  obtain addr addrs where addrs: "listen_socket_addrs config = Inr (addr # addrs)" using builds by blast
  obtain routes where routes: "routes_from_config url_parse config = Inr routes" using builds by blast
  obtain access where access: "access_from_config (ac_allowed_clients config) (ac_blocked_clients config)
      (ac_rate_limit_per_second config) = Inr access" using builds by blast
  obtain policies where policies: "policies_from_config config = Inr policies" using builds by blast
  have cache: "store_from_config (cache_config_of config) DNS_CACHE_SHARDS \<noteq> None \<longleftrightarrow> ac_dns_cache_enabled config"
    using builds[of DNS_CACHE_SHARDS] by (auto simp: store_from_config_def cache_config_of_def)
  obtain ups falls boot where parts: "parse_upstream_servers url_parse (ac_upstream_dns config) (ac_allow_insecure_http config) = Inr ups"
    "parse_optional_upstream_servers url_parse (ac_fallback_dns config) (ac_allow_insecure_http config) = Inr falls"
    "parse_bootstrap_servers (ac_bootstrap_dns config) = Inr boot"
    using validate_parts[OF assms(1)] by metis
  have "validate_limits url_parse config = None" using validate_parts[OF assms(1)] by metis
  then have "(case monitoring_api_socket_addr config of Inl e \<Rightarrow> Some e | Inr _ \<Rightarrow> None) = None"
    unfolding validate_limits_def first_error_None by simp
  then obtain maddr where mon: "monitoring_api_socket_addr config = Inr maddr" by (auto split: sum.splits)
  let ?s = "server_start cores (length (addr # addrs)) access (store_from_config (cache_config_of config) DNS_CACHE_SHARDS)"
  have pre: "preflight_listeners can_bind config = None"
    using addrs assms(2) by (simp add: preflight_listeners_def find_None_iff)
  have pm: "prepare_monitoring can_bind config = None" using mon assms(2) by (simp add: prepare_monitoring_def)
  obtain ctx where "start_with_filter_runtime url_parse can_bind cores config paused = Inr (?s, ctx)"
    "wc_cache_config ctx = map_option (\<lambda>_. cache_config_of config) (store_from_config (cache_config_of config) DNS_CACHE_SHARDS)"
    using assms(1) addrs routes access parts pre pm by (simp add: start_with_filter_runtime_def Let_def)
  moreover have "server_reachable hash ?s" by (rule server_reachable.start[OF new_cache_ok])
  moreover have "4 \<le> length (sv_queues ?s)" "length (sv_queues ?s) \<le> 32" "set (sv_queues ?s) = {Some []}"
    "length (sv_queues ?s) * sv_capacity ?s \<le> 8192" "0 < sv_capacity ?s" "sv_udp ?s \<noteq> []"
    using worker_count_bounds[of cores] queue_share[of "unat (dns_worker_count cores)"]
    by (simp_all add: server_start_def Let_def)
  moreover have "\<exists>f. build_filter_runtime config rules hosts = Some f"
    using policies by (simp add: build_filter_runtime_def Let_def)
  ultimately show ?thesis using cache by (auto simp: option.map_disc_iff)
qed

theorem validated_server_starts_witness:
  "\<exists>s ctx. start_with_filter_runtime sample_url (\<lambda>_. True) (Some 8) default_config 0 = Inr (s, ctx) \<and>
     length (sv_queues s) * sv_capacity s \<le> 8192 \<and> sv_udp s \<noteq> []"
proof -
  have "validate sample_url default_config = None"
    by (rule default_valid) (simp_all add: knows_url_def sample_url_def starts_with_def)
  from validated_server_starts[OF this, of "\<lambda>_. True"] show ?thesis by blast
qed

end
