(* ===== verification/Spec2Isabelle.thy ===== *)
theory Spec2Isabelle
  imports IpNetwork Access LocalReverse ClientPolicy RuleRoundTrip RuleVerdict CacheSpec ConfigSpec TaskPool WorkerSystem RuleCacheSpec WebAuthSpec SecuritySpec ListenerSpec
begin

text \<open>
  A model of DnsBlackhole, a filtering DNS forwarder (Rust, \<open>src/src-tauri/src\<close>; every file named
  below is relative to that directory).  A query arrives at a listener, waits in a channel and is taken
  by a worker, which checks the client, the local answers, the filter rules and the cache, forwards the
  query to upstream servers or lets it wait behind an equal one, adapts the response and replies.
  Beside the queries stand the configuration, whose validation decides what can be run, the compiled
  filter rules and the file they are cached in, the web administration with its login, and the
  statistics and the security events with their table.

  Conventions.  A struct is a \<open>record\<close>, an enum a \<open>datatype\<close> with the constructors of the source, an
  integer a word of its width, a \<open>str\<close> a list of characters, a slice of bytes a list of 8-bit words.  A
  \<open>Result\<close> is a sum with the error on the left, an \<open>Option\<close> an \<open>option\<close>; an access out of range and a
  failing \<open>unwrap\<close> are branches of the model, so that the absence of a panic is a theorem.  A hash table
  is a map, or an association list whose order is a parameter where the code iterates over it.  Code
  behind a lock is one step; what runs between two locks is a step of its own, so that runs interleave
  as threads do.  Times are numbers, never read from a clock: a definition takes the time it uses.
  Error texts shown to people are replaced by a value that names the check that failed.

  Which theory models what.

  \<^item> Shared: Prelude (machine types, saturating arithmetic, checked slices, big-endian integers),
    RustStr, NetAddr, NetShow and Selection (the operations of the standard library the sources call: \<open>str\<close>,
    the parser and the printer of addresses, \<open>max_by_key\<close>).
  \<^item> DNS messages, \<open>dns/protocol.rs\<close>: DomainName (\<open>normalize_domain\<close> and the walk over the parents of a
    name), DnsWire (readers and encoders), DnsResponse (responses the server builds), DnsReply (what it
    does to the response of an upstream server).  DnsSpec: a name written is read back; a
    response answers its query; the rewriting of lifetimes reaches every record; truncation fits.
  \<^item> Filter rules, \<open>dns/rules.rs\<close>: RuleText (patterns, modifiers, hosts lines), RuleIndex (tables,
    compressed entries, compilation, the custom layer), RuleMatch (the passes of a query).  RuleSpec
    relates a table to the inserted rules; RuleVerdict states what a compiled text decides by the rules of
    its lines; RuleRoundTrip reads rebuilt rule texts back.
  \<^item> Rewrites (\<open>dns/rewrites.rs\<close>), IpNetwork (\<open>dns/ip_network.rs\<close>), Access (\<open>dns/access.rs\<close>), LocalReverse
    (\<open>dns/local_reverse.rs\<close>), ClientPolicy (\<open>dns/client_policy.rs\<close>), UpstreamRoutes
    (\<open>dns/upstream_routes.rs\<close>), FilterRuntime (\<open>dns/filter_runtime.rs\<close>): one component each, with its lemmas.
  \<^item> Cache and CacheSpec (\<open>dns/cache.rs\<close>): shards, accounting, eviction, expiry, refresh flags.
  \<^item> Configuration, \<open>config.rs\<close>: PolicyText and ConfigUpstream (the texts inside the configuration),
    AppConfig (the record and its defaults), Config (the checks), ConfigSpec (what the checks guarantee).
  \<^item> Upstream and UpstreamSpec (\<open>dns/upstream.rs\<close>): health, back-off, probes, load-balanced forwarding.
  \<^item> TaskPool (\<open>dns/task_pool.rs\<close>): the pool of threads as a step relation on program counters.
  \<^item> Worker, WorkerSpec, WorkerSystem (\<open>dns/worker.rs\<close>): a query as two steps around the exchange with the
    servers, what each step keeps, and all workers together as a step relation.
  \<^item> RuleCache, RuleCacheSpec (\<open>dns/rule_cache.rs\<close> with the list texts of \<open>dns.rs\<close>): which rules a load
    returns, the background writer, and that every reuse decides as a compilation of the full text.
  \<^item> WebAuth, WebAuthSpec (\<open>web_auth.rs\<close>): password, sessions, limits on logins.
  \<^item> Stats, SecurityEvents, SecuritySpec (\<open>dns/stats.rs\<close>, \<open>dns/security_events.rs\<close>, the statements on the
    table of events in \<open>database.rs\<close>, the operations on events in \<open>service_core.rs\<close>).
  \<^item> Listener, ListenerSpec (\<open>dns/server.rs\<close>, with the loop of a worker): frames, connections, channels and
    workers as one step relation over the whole server, on top of WorkerSystem.

  Interfaces.  A lookup that walks the parents of a name is the locale \<open>suffix_table\<close>, interpreted on the
  rewrite wildcards, the name sets and the suffix rules; a table of rules is \<open>rule_table\<close>, interpreted on
  the blocking and the excepting table; nested networks are \<open>nested_networks\<close>, interpreted on the CIDR
  networks that policies and routes choose from; the tables of local networks are \<open>local_table\<close>,
  interpreted on both address families.

  Parameters.  The JSON codec, the binary format of the rule file, the URL library, SHA-256, Argon2 and the
  random source, the hasher and the iteration order of a hash table, and what the network returned are
  arguments of the definitions that use them; a hypothesis about them states documented behaviour (what
  is written is read back, equal fingerprints come from equal bytes) and each is shown to be satisfiable
  by a witness with concrete functions.  SQLite stands as the effect of its statements on a list of rows.

  Bounds and fuel.  Loops over a packet or a text recurse on what is left of it.  A pointer ends a name
  that is skipped; where a compressed name is read the code bounds the turns by the length of the
  packet, and that bound is the recursion of the model.  The eviction loops of the cache and of the
  failed logins, and the writer of the query log, end by a measure, proved where they are defined.

  Findings.  Where the code and its comments disagree, the manifest says so: a sign accepted in reverse
  names, the pool below its minimum, records of locked clients evicted, a login that survives a password
  change (\<open>WebAuthSpec.stale_login_opens_session\<close>), the lock time reported, the undelimited hash of lists,
  a web event dropped by a restore (\<open>SecuritySpec.restore_drops_web_event\<close>), and events lost with the
  writing thread.

  Not modelled.  Sockets, TLS, HTTP and name resolution (their outcomes are arguments), threads as such (their
  steps are modelled), files and directories, the desktop shell, the calls of the operating system in
  \<open>privileged_bridge\<close>, and the SQL behind the query log and the rankings, whose meaning lies in SQLite and
  not in this code.  \<open>config.rs\<close>: migration of old files.  \<open>dns/upstream.rs\<close>: the parallel and the fastest-address
  modes.  \<open>web_admin.rs\<close>: the HTTP router.  \<open>filters.rs\<close>: downloads.  The listing of a response for the
  query log in \<open>dns/protocol.rs\<close> only renders text.
\<close>

end
